(* ===== verification/Prelude.thy ===== *)
theory Prelude
  imports Main "HOL-Library.Word" "HOL-Library.Code_Target_Nat"
begin

text \<open>
  Shared vocabulary of the development: machine integers and byte strings, the
  outcome of a Rust expression (a value, an error returned with \<open>?\<close>, or a panic),
  slicing as Rust checks it, big- and little-endian integers, and the pieces of
  Rust's standard library that several components use.  A Rust \<open>str\<close> is a
  sequence of UTF-8 bytes, so it is modelled by Isabelle's \<open>string\<close>, whose
  characters are bytes.
\<close>

unbundle bit_operations_syntax

type_synonym u8 = "8 word"
type_synonym u16 = "16 word"
type_synonym u32 = "32 word"
type_synonym u64 = "64 word"
type_synonym i16 = "16 word"
type_synonym i32 = "32 word"
type_synonym i64 = "64 word"
type_synonym bytes = "u8 list"

named_theorems outcome_simps \<open>unfolding the outcome combinators\<close>
named_theorems byte_simps \<open>conversions between numbers, characters and bytes\<close>

section \<open>Outcomes\<close>

text \<open>
  \<open>Ok\<close> and \<open>Err\<close> are the two constructors of Rust's \<open>Result\<close>; \<open>Panic\<close> is
  what an out-of-range slice, a failed \<open>expect\<close> or an arithmetic overflow does.
\<close>

datatype ('e, 'a) outcome = Ok 'a | Err 'e | Panic

fun and_then :: "('e, 'a) outcome \<Rightarrow> ('a \<Rightarrow> ('e, 'b) outcome) \<Rightarrow> ('e, 'b) outcome" where
  "and_then (Ok x) f = f x"
| "and_then (Err e) f = Err e"
| "and_then Panic f = Panic"

fun ok_or :: "'a option \<Rightarrow> 'e \<Rightarrow> ('e, 'a) outcome" where
  "ok_or (Some x) e = Ok x"
| "ok_or None e = Err e"

fun expect :: "'a option \<Rightarrow> ('e, 'a) outcome" where
  "expect (Some x) = Ok x"
| "expect None = Panic"

fun map_ok :: "('a \<Rightarrow> 'b) \<Rightarrow> ('e, 'a) outcome \<Rightarrow> ('e, 'b) outcome" where
  "map_ok f (Ok x) = Ok (f x)"
| "map_ok f (Err e) = Err e"
| "map_ok f Panic = Panic"

fun map_err :: "('e \<Rightarrow> 'f) \<Rightarrow> ('e, 'a) outcome \<Rightarrow> ('f, 'a) outcome" where
  "map_err f (Ok x) = Ok x"
| "map_err f (Err e) = Err (f e)"
| "map_err f Panic = Panic"

text \<open>\<open>Iterator::collect\<close> into a \<open>Result\<close>: stop at the first failure.\<close>

fun collect :: "('a \<Rightarrow> ('e, 'b) outcome) \<Rightarrow> 'a list \<Rightarrow> ('e, 'b list) outcome" where
  "collect f [] = Ok []"
| "collect f (x # xs) = and_then (f x) (\<lambda>y. and_then (collect f xs) (\<lambda>ys. Ok (y # ys)))"

lemma and_then_eq_Ok [simp]:
  "and_then m f = Ok y \<longleftrightarrow> (\<exists>x. m = Ok x \<and> f x = Ok y)"
  by (cases m) auto

lemma and_then_eq_Err:
  "and_then m f = Err e \<longleftrightarrow> m = Err e \<or> (\<exists>x. m = Ok x \<and> f x = Err e)"
  by (cases m) auto

lemma and_then_eq_Panic:
  "and_then m f = Panic \<longleftrightarrow> m = Panic \<or> (\<exists>x. m = Ok x \<and> f x = Panic)"
  by (cases m) auto

lemma and_then_assoc: "and_then (and_then m f) g = and_then m (\<lambda>x. and_then (f x) g)"
  by (cases m) auto

lemma ok_or_eq_Ok [simp]: "ok_or v e = Ok x \<longleftrightarrow> v = Some x"
  by (cases v) auto

lemma ok_or_eq_Err [simp]: "ok_or v e = Err e' \<longleftrightarrow> v = None \<and> e' = e"
  by (cases v) auto

lemma ok_or_no_panic [simp]: "ok_or v e \<noteq> Panic"
  by (cases v) auto

lemma map_ok_eq_Ok [simp]: "map_ok f m = Ok y \<longleftrightarrow> (\<exists>x. m = Ok x \<and> y = f x)"
  by (cases m) auto

lemma map_ok_eq_Panic [simp]: "map_ok f m = Panic \<longleftrightarrow> m = Panic"
  by (cases m) auto

lemma map_err_eq_Ok [simp]: "map_err f m = Ok y \<longleftrightarrow> m = Ok y"
  by (cases m) auto

lemma map_err_eq_Panic [simp]: "map_err f m = Panic \<longleftrightarrow> m = Panic"
  by (cases m) auto

lemma map_ok_and_then: "map_ok f (and_then m g) = and_then m (\<lambda>x. map_ok f (g x))"
  by (cases m) simp_all

lemma and_then_Ok_map: "and_then m (\<lambda>x. Ok (f x)) = map_ok f m" "and_then m Ok = m"
  by (cases m; simp)+

lemmas outcome_fusion = map_ok_and_then and_then_Ok_map

lemma collect_no_panic: "(\<And>x. x \<in> set xs \<Longrightarrow> f x \<noteq> Panic) \<Longrightarrow> collect f xs \<noteq> Panic"
  by (induction xs) (auto simp: and_then_eq_Panic)

lemma collect_Ok_length: "collect f xs = Ok ys \<Longrightarrow> length ys = length xs"
  by (induction xs arbitrary: ys) auto

declare and_then_eq_Err [outcome_simps] and_then_eq_Panic [outcome_simps]

section \<open>Slices\<close>

text \<open>\<open>&buf[a..b]\<close> panics out of range; \<open>buf.get(a..b)\<close> is \<open>None\<close> there.\<close>

definition get_range :: "'a list \<Rightarrow> nat \<Rightarrow> nat \<Rightarrow> 'a list option" where
  "get_range xs a b = (if a \<le> b \<and> b \<le> length xs then Some (take (b - a) (drop a xs)) else None)"

definition slice_range :: "'a list \<Rightarrow> nat \<Rightarrow> nat \<Rightarrow> ('e, 'a list) outcome" where
  "slice_range xs a b = expect (get_range xs a b)"

definition get :: "'a list \<Rightarrow> nat \<Rightarrow> 'a option" where
  "get xs i = (if i < length xs then Some (xs ! i) else None)"

lemma get_range_Some: "get_range xs a b = Some ys \<longleftrightarrow> a \<le> b \<and> b \<le> length xs \<and> ys = take (b - a) (drop a xs)"
  by (auto simp: get_range_def)

lemma slice_range_Ok [simp]: "a \<le> b \<Longrightarrow> b \<le> length xs \<Longrightarrow> slice_range xs a b = Ok (take (b - a) (drop a xs))"
  by (simp add: slice_range_def get_range_def)

lemma slice_to_end [simp]: "a \<le> length xs \<Longrightarrow> slice_range xs a (length xs) = Ok (drop a xs)"
  by simp

lemma slice_range_not_Err [simp]: "slice_range xs a b \<noteq> Err e"
  by (auto simp: slice_range_def get_range_def)

lemma get_Some [simp]: "get xs i = Some x \<longleftrightarrow> i < length xs \<and> x = xs ! i"
  by (auto simp: get_def)

lemma get_None [simp]: "get xs i = None \<longleftrightarrow> length xs \<le> i"
  by (auto simp: get_def)

section \<open>Integers as bytes\<close>

definition be_nat :: "bytes \<Rightarrow> nat" where
  "be_nat bs = foldl (\<lambda>n b. n * 256 + unat b) 0 bs"

primrec be_bytes :: "nat \<Rightarrow> nat \<Rightarrow> bytes" where
  "be_bytes 0 n = []"
| "be_bytes (Suc k) n = be_bytes k (n div 256) @ [of_nat n]"

primrec le_nat :: "bytes \<Rightarrow> nat" where
  "le_nat [] = 0"
| "le_nat (b # bs) = unat b + 256 * le_nat bs"

primrec le_bytes :: "nat \<Rightarrow> nat \<Rightarrow> bytes" where
  "le_bytes 0 n = []"
| "le_bytes (Suc k) n = of_nat n # le_bytes k (n div 256)"

lemma unat_byte_lt [simp]: "unat (b :: u8) < 256"
  using unsigned_less [of b] by simp

lemma unat_of_nat_byte [simp]: "unat (of_nat n :: u8) = n mod 256"
  by (simp add: unat_of_nat)

lemma unat_of_nat_u64: "n < 2 ^ 64 \<Longrightarrow> unat (of_nat n :: u64) = n"
  by (simp add: unat_of_nat)

lemma unat_of_nat_u32: "n < 2 ^ 32 \<Longrightarrow> unat (of_nat n :: u32) = n"
  by (simp add: unat_of_nat)

lemma length_be_bytes [simp]: "length (be_bytes k n) = k"
  by (induction k arbitrary: n) auto

lemma length_le_bytes [simp]: "length (le_bytes k n) = k"
  by (induction k arbitrary: n) auto

lemma be_nat_snoc [simp]: "be_nat (bs @ [b]) = be_nat bs * 256 + unat b"
  by (simp add: be_nat_def)

lemma be_nat_Nil [simp]: "be_nat [] = 0"
  by (simp add: be_nat_def)

lemma mod_step: "(n div 256 mod 256 ^ k) * 256 + n mod 256 = n mod (256 ^ Suc k :: nat)"
  by (simp add: mod_mult2_eq mult.commute)

lemma be_nat_be_bytes [byte_simps]: "be_nat (be_bytes k n) = n mod 256 ^ k"
proof (induction k arbitrary: n)
  case 0
  then show ?case by simp
next
  case (Suc k)
  then show ?case using mod_step [of n k] by simp
qed

lemma le_nat_le_bytes [byte_simps]: "le_nat (le_bytes k n) = n mod 256 ^ k"
proof (induction k arbitrary: n)
  case 0
  then show ?case by simp
next
  case (Suc k)
  then show ?case using mod_step [of n k] by (simp add: algebra_simps)
qed

lemma be_nat_less: "be_nat bs < 256 ^ length bs"
proof (induction bs rule: rev_induct)
  case Nil
  then show ?case by simp
next
  case (snoc b bs)
  have "unat b < 256" by simp
  with snoc show ?case by (simp del: unat_byte_lt)
qed

lemma le_nat_less: "le_nat bs < 256 ^ length bs"
proof (induction bs)
  case Nil
  then show ?case by simp
next
  case (Cons b bs)
  have "unat b < 256" by simp
  with Cons show ?case by (simp del: unat_byte_lt)
qed

lemma of_nat_low_byte: "(of_nat (unat b + 256 * n) :: u8) = b" "(of_nat (n * 256 + unat b) :: u8) = b"
  by (simp_all add: word_unat_eq_iff unat_of_nat del: of_nat_add of_nat_mult)

lemma le_bytes_le_nat [byte_simps]: "le_bytes (length bs) (le_nat bs) = bs"
  by (induction bs) (simp_all add: of_nat_low_byte del: of_nat_add of_nat_mult)

lemma be_bytes_be_nat [byte_simps]: "be_bytes (length bs) (be_nat bs) = bs"
  by (induction bs rule: rev_induct) (simp_all add: of_nat_low_byte del: of_nat_add of_nat_mult)

declare be_bytes.simps [simp del] le_bytes.simps [simp del]

section \<open>Checked and saturating arithmetic\<close>

text \<open>\<open>usize\<close> is the 64-bit one; sizes are natural numbers with the bound written out.\<close>

abbreviation usize_bound :: nat where "usize_bound \<equiv> 2 ^ 64"

definition checked_add_usize :: "nat \<Rightarrow> nat \<Rightarrow> nat option" where
  "checked_add_usize a b = (if a + b < usize_bound then Some (a + b) else None)"

definition clamp_signed :: "nat \<Rightarrow> int \<Rightarrow> int" where
  "clamp_signed w x = max (- (2 ^ (w - 1))) (min (2 ^ (w - 1) - 1) x)"

definition saturating_add_i64 :: "i64 \<Rightarrow> i64 \<Rightarrow> i64" where
  "saturating_add_i64 a b = word_of_int (clamp_signed 64 (sint a + sint b))"

definition saturating_neg_i64 :: "i64 \<Rightarrow> i64" where
  "saturating_neg_i64 a = word_of_int (clamp_signed 64 (- sint a))"

lemma sint_i64_range: "- (2 ^ 63) \<le> sint (x :: i64)" "sint (x :: i64) < 2 ^ 63"
  using sint_ge [of x] sint_lt [of x] by simp_all

lemma sint_i32_range: "- (2 ^ 31) \<le> sint (x :: i32)" "sint (x :: i32) < 2 ^ 31"
  using sint_ge [of x] sint_lt [of x] by simp_all

lemma sint_i16_range: "- (2 ^ 15) \<le> sint (x :: i16)" "sint (x :: i16) < 2 ^ 15"
  using sint_ge [of x] sint_lt [of x] by simp_all

lemma sint_word_of_int_i64: "- (2 ^ 63) \<le> x \<Longrightarrow> x < 2 ^ 63 \<Longrightarrow> sint (word_of_int x :: i64) = x"
  by (simp add: signed_take_bit_int_eq_self sint_sbintrunc')

lemma sint_word_of_int_i32: "- (2 ^ 31) \<le> x \<Longrightarrow> x < 2 ^ 31 \<Longrightarrow> sint (word_of_int x :: i32) = x"
  by (simp add: signed_take_bit_int_eq_self sint_sbintrunc')

lemma clamp_signed_range: "- (2 ^ (w - 1)) \<le> clamp_signed w x \<and> clamp_signed w x < 2 ^ (w - 1)"
proof -
  have "- (2 ^ (w - 1)) < (2 ^ (w - 1) :: int)"
    using zero_less_power [of "2 :: int" "w - 1"] by linarith
  then show ?thesis unfolding clamp_signed_def by simp
qed

lemma sint_saturating_add: "sint (saturating_add_i64 a b) = clamp_signed 64 (sint a + sint b)"
  using clamp_signed_range [of 64 "sint a + sint b"]
  by (simp add: saturating_add_i64_def sint_word_of_int_i64)

lemma sint_saturating_neg: "sint (saturating_neg_i64 a) = clamp_signed 64 (- sint a)"
  using clamp_signed_range [of 64 "- sint a"]
  by (simp add: saturating_neg_i64_def sint_word_of_int_i64)

section \<open>Characters and bytes\<close>

definition byte_of_char :: "char \<Rightarrow> u8" where
  "byte_of_char c = of_nat (of_char c)"

definition char_of_byte :: "u8 \<Rightarrow> char" where
  "char_of_byte b = char_of (unat b)"

definition str_bytes :: "string \<Rightarrow> bytes" where
  "str_bytes s = map byte_of_char s"

definition bytes_str :: "bytes \<Rightarrow> string" where
  "bytes_str bs = map char_of_byte bs"

lemma char_of_byte_of_char [simp]: "char_of_byte (byte_of_char c) = c"
  by (simp add: char_of_byte_def byte_of_char_def)

lemma byte_of_char_of_byte [simp]: "byte_of_char (char_of_byte b) = b"
  by (simp add: char_of_byte_def byte_of_char_def of_char_of word_unat_eq_iff)

lemma byte_of_char_eq [simp]: "byte_of_char c = byte_of_char d \<longleftrightarrow> c = d"
  by (metis char_of_byte_of_char)

lemma str_bytes_inverse [simp]: "bytes_str (str_bytes s) = s"
  by (simp add: str_bytes_def bytes_str_def comp_def)

lemma bytes_str_inverse [simp]: "str_bytes (bytes_str bs) = bs"
  by (simp add: str_bytes_def bytes_str_def comp_def)

lemma length_str_bytes [simp]: "length (str_bytes s) = length s"
  by (simp add: str_bytes_def)

lemma length_bytes_str [simp]: "length (bytes_str s) = length s"
  by (simp add: bytes_str_def)

end
