(* ===== verification/Mp_Format.thy ===== *)
theory Mp_Format
  imports Prelude
begin

text \<open>
  The MessagePack wire format as a grammar, stated once and independently of any
  code: \<open>mp_node h c\<close> says that \<open>h\<close> is what precedes the children of a value and that
  the value has \<open>c\<close> children (a map of \<open>n\<close> entries has \<open>2 * n\<close>), \<open>mp_value\<close> is a whole
  value and \<open>mp_values n\<close> is a sequence of \<open>n\<close> values.  The components are measured
  against it; the parameters that stand for the \<open>rmp\<close> crates are assumed to respect it.
\<close>

inductive mp_node :: "bytes \<Rightarrow> nat \<Rightarrow> bool" where
  positive_fixint: "unat m < 0x80 \<Longrightarrow> mp_node [m] 0"
| negative_fixint: "0xe0 \<le> unat m \<Longrightarrow> mp_node [m] 0"
| nil_or_bool: "m \<in> {0xc0, 0xc2, 0xc3} \<Longrightarrow> mp_node [m] 0"
| number: "(m, length p) \<in> {(0xca, 4), (0xcb, 8), (0xcc, 1), (0xcd, 2), (0xce, 4), (0xcf, 8),
     (0xd0, 1), (0xd1, 2), (0xd2, 4), (0xd3, 8)} \<Longrightarrow> mp_node (m # p) 0"
| fixstr: "length p < 32 \<Longrightarrow> unat m = 0xa0 + length p \<Longrightarrow> mp_node (m # p) 0"
| str_or_bin: "(m, w) \<in> {(0xc4, 1), (0xc5, 2), (0xc6, 4), (0xd9, 1), (0xda, 2), (0xdb, 4)} \<Longrightarrow>
     length p < 256 ^ w \<Longrightarrow> mp_node (m # be_bytes w (length p) @ p) 0"
| ext: "(m, w) \<in> {(0xc7, 1), (0xc8, 2), (0xc9, 4)} \<Longrightarrow>
     length p < 256 ^ w \<Longrightarrow> mp_node (m # be_bytes w (length p) @ t # p) 0"
| fixext: "(m, length p) \<in> {(0xd4, 1), (0xd5, 2), (0xd6, 4), (0xd7, 8), (0xd8, 16)} \<Longrightarrow>
     mp_node (m # t # p) 0"
| fixmap: "n < 16 \<Longrightarrow> unat m = 0x80 + n \<Longrightarrow> mp_node [m] (2 * n)"
| fixarray: "n < 16 \<Longrightarrow> unat m = 0x90 + n \<Longrightarrow> mp_node [m] n"
| array: "(m, w) \<in> {(0xdc, 2), (0xdd, 4)} \<Longrightarrow> n < 256 ^ w \<Longrightarrow> mp_node (m # be_bytes w n) n"
| map: "(m, w) \<in> {(0xde, 2), (0xdf, 4)} \<Longrightarrow> n < 256 ^ w \<Longrightarrow> mp_node (m # be_bytes w n) (2 * n)"

inductive mp_value :: "bytes \<Rightarrow> bool" and mp_values :: "nat \<Rightarrow> bytes \<Rightarrow> bool" where
  node: "mp_node h c \<Longrightarrow> mp_values c cs \<Longrightarrow> mp_value (h @ cs)"
| none: "mp_values 0 []"
| more: "mp_value v \<Longrightarrow> mp_values n vs \<Longrightarrow> mp_values (Suc n) (v @ vs)"

text \<open>The head of a map that announces \<open>n\<close> entries, and of an array of \<open>n\<close> elements.\<close>

inductive mp_map_head :: "bytes \<Rightarrow> nat \<Rightarrow> bool" where
  fixmap_head: "n < 16 \<Longrightarrow> unat m = 0x80 + n \<Longrightarrow> mp_map_head [m] n"
| map_head: "(m, w) \<in> {(0xde, 2), (0xdf, 4)} \<Longrightarrow> n < 256 ^ w \<Longrightarrow> mp_map_head (m # be_bytes w n) n"

inductive mp_array_head :: "bytes \<Rightarrow> nat \<Rightarrow> bool" where
  fixarray_head: "n < 16 \<Longrightarrow> unat m = 0x90 + n \<Longrightarrow> mp_array_head [m] n"
| array_head: "(m, w) \<in> {(0xdc, 2), (0xdd, 4)} \<Longrightarrow> n < 256 ^ w \<Longrightarrow> mp_array_head (m # be_bytes w n) n"

inductive_cases mp_values_0E [elim!]: "mp_values 0 vs"
inductive_cases mp_values_SucE: "mp_values (Suc n) vs"

inductive_simps mp_values_0 [simp]: "mp_values 0 vs"

lemma mp_node_nonempty [simp]: "mp_node h c \<Longrightarrow> h \<noteq> []"
  by (induction rule: mp_node.induct) auto

lemma mp_value_nonempty: "mp_value v \<Longrightarrow> v \<noteq> []"
  by (cases rule: mp_value.cases) (auto dest: mp_node_nonempty)

lemma mp_map_head_node: "mp_map_head h n \<Longrightarrow> mp_node h (2 * n)"
  by (induction rule: mp_map_head.induct) (auto intro: mp_node.fixmap mp_node.map)

lemma mp_array_head_node: "mp_array_head h n \<Longrightarrow> mp_node h n"
  by (induction rule: mp_array_head.induct) (auto intro: mp_node.fixarray mp_node.array)

lemma mp_values_one [simp]: "mp_values (Suc 0) v \<longleftrightarrow> mp_value v"
proof
  assume "mp_values (Suc 0) v"
  then show "mp_value v" by (elim mp_values_SucE) auto
next
  assume "mp_value v"
  from mp_value_mp_values.more [OF this mp_value_mp_values.none] show "mp_values (Suc 0) v" by simp
qed

lemma mp_values_append: "mp_values m xs \<Longrightarrow> mp_values n ys \<Longrightarrow> mp_values (m + n) (xs @ ys)"
proof (induction m arbitrary: xs)
  case 0
  then show ?case by auto
next
  case (Suc m)
  from Suc.prems(1) obtain v vs where xs: "xs = v @ vs" "mp_value v" "mp_values m vs"
    by (rule mp_values_SucE)
  with Suc have "mp_values (m + n) (vs @ ys)" by blast
  from mp_value_mp_values.more [OF xs(2) this] xs(1) show ?case by simp
qed

lemma mp_values_split:
  "mp_values (m + n) zs \<Longrightarrow> \<exists>xs ys. zs = xs @ ys \<and> mp_values m xs \<and> mp_values n ys"
proof (induction m arbitrary: zs)
  case 0
  then show ?case by (auto intro!: exI [of _ "[]"])
next
  case (Suc m)
  from Suc.prems obtain v vs where zs: "zs = v @ vs" "mp_value v" "mp_values (m + n) vs"
    by (auto elim: mp_values_SucE)
  from Suc.IH [OF zs(3)] obtain xs ys where "vs = xs @ ys" "mp_values m xs" "mp_values n ys"
    by blast
  with zs show ?case
    by (intro exI [of _ "v @ xs"] exI [of _ ys]) (auto intro: mp_value_mp_values.more)
qed

lemma mp_values_step: "mp_node h c \<Longrightarrow> mp_values (c + n) vs \<Longrightarrow> mp_values (Suc n) (h @ vs)"
proof -
  assume h: "mp_node h c" and vs: "mp_values (c + n) vs"
  from mp_values_split [OF vs] obtain xs ys
    where xs: "vs = xs @ ys" "mp_values c xs" "mp_values n ys" by blast
  from mp_value_mp_values.more [OF mp_value_mp_values.node [OF h xs(2)] xs(3)] xs(1)
  show ?thesis by simp
qed

lemma mp_value_map: "mp_map_head h n \<Longrightarrow> mp_values (2 * n) vs \<Longrightarrow> mp_value (h @ vs)"
  by (rule mp_value_mp_values.node) (auto intro: mp_map_head_node)

lemma mp_value_array: "mp_array_head h n \<Longrightarrow> mp_values n vs \<Longrightarrow> mp_value (h @ vs)"
  by (rule mp_value_mp_values.node) (auto intro: mp_array_head_node)

lemma mp_value_atom: "mp_node h 0 \<Longrightarrow> mp_value h"
  using mp_value_mp_values.node [OF _ mp_value_mp_values.none, of h] by simp

end
