(* ===== verification/Rust_Std.thy ===== *)
theory Rust_Std
  imports Prelude
begin

text \<open>
  The parts of Rust's standard library on strings that the sources call: UTF-8 validation,
  decimal and hexadecimal formatting, and the splitting and trimming methods of \<open>str\<close>.
\<close>

text \<open>\<open>std::cmp::Ordering\<close>.\<close>

datatype ordering = Less | Equal | Greater

section \<open>UTF-8\<close>

definition utf8_cont :: "u8 \<Rightarrow> bool" where
  "utf8_cont b = (0x80 \<le> b \<and> b \<le> 0xbf)"

text \<open>\<open>std::str::from_utf8\<close>: the well-formed byte sequences of the Unicode standard.\<close>

fun utf8_valid :: "bytes \<Rightarrow> bool" where
  "utf8_valid [] = True"
| "utf8_valid (a # bs) =
    (if a < 0x80 then utf8_valid bs
     else if 0xc2 \<le> a \<and> a \<le> 0xdf then
       (case bs of b # r \<Rightarrow> utf8_cont b \<and> utf8_valid r | _ \<Rightarrow> False)
     else if 0xe0 \<le> a \<and> a \<le> 0xef then
       (case bs of b # c # r \<Rightarrow>
          (if a = 0xe0 then 0xa0 \<le> b \<and> b \<le> 0xbf
           else if a = 0xed then 0x80 \<le> b \<and> b \<le> 0x9f
           else utf8_cont b) \<and> utf8_cont c \<and> utf8_valid r | _ \<Rightarrow> False)
     else if 0xf0 \<le> a \<and> a \<le> 0xf4 then
       (case bs of b # c # d # r \<Rightarrow>
          (if a = 0xf0 then 0x90 \<le> b \<and> b \<le> 0xbf
           else if a = 0xf4 then 0x80 \<le> b \<and> b \<le> 0x8f
           else utf8_cont b) \<and> utf8_cont c \<and> utf8_cont d \<and> utf8_valid r | _ \<Rightarrow> False)
     else False)"

declare utf8_valid.simps(2) [simp del]

definition from_utf8 :: "bytes \<Rightarrow> string option" where
  "from_utf8 bs = (if utf8_valid bs then Some (bytes_str bs) else None)"

lemma utf8_valid_ascii: "\<forall>b \<in> set bs. b < 0x80 \<Longrightarrow> utf8_valid bs"
  by (induction bs) (auto simp: utf8_valid.simps(2))

lemma from_utf8_str_bytes: "from_utf8 (str_bytes s) = (if utf8_valid (str_bytes s) then Some s else None)"
  by (simp add: from_utf8_def)

section \<open>Formatting numbers\<close>

definition digit_char :: "nat \<Rightarrow> char" where
  "digit_char d = (if d < 10 then char_of (48 + d) else char_of (87 + d))"

fun fmt_radix :: "nat \<Rightarrow> nat \<Rightarrow> string" where
  "fmt_radix r n = (if n < r \<or> r \<le> 1 then [digit_char n] else fmt_radix r (n div r) @ [digit_char (n mod r)])"

declare fmt_radix.simps [simp del]

text \<open>\<open>{}\<close> on an unsigned number, \<open>{:#x}\<close>, \<open>{:#04x}\<close>, and zero-padded \<open>{:0w}\<close>.\<close>

definition fmt_nat :: "nat \<Rightarrow> string" where
  "fmt_nat n = fmt_radix 10 n"

definition fmt_hex :: "nat \<Rightarrow> string" where
  "fmt_hex n = ''0x'' @ fmt_radix 16 n"

definition pad_left :: "nat \<Rightarrow> string \<Rightarrow> string" where
  "pad_left w s = replicate (w - length s) (CHR ''0'') @ s"

definition fmt_hex04 :: "nat \<Rightarrow> string" where
  "fmt_hex04 n = ''0x'' @ pad_left 2 (fmt_radix 16 n)"

definition fmt_padded :: "nat \<Rightarrow> nat \<Rightarrow> string" where
  "fmt_padded w n = pad_left w (fmt_nat n)"

definition fmt_int :: "int \<Rightarrow> string" where
  "fmt_int i = (if i < 0 then ''-'' @ fmt_nat (nat (- i)) else fmt_nat (nat i))"

section \<open>Splitting and trimming\<close>

definition strip_prefix :: "string \<Rightarrow> string \<Rightarrow> string option" where
  "strip_prefix p s = (if take (length p) s = p then Some (drop (length p) s) else None)"

text \<open>\<open>split_once(c)\<close> splits at the first \<open>c\<close>, \<open>rsplit_once(c)\<close> at the last.\<close>

fun split_once :: "char \<Rightarrow> string \<Rightarrow> (string \<times> string) option" where
  "split_once c [] = None"
| "split_once c (x # xs) =
    (if x = c then Some ([], xs)
     else map_option (\<lambda>(a, b). (x # a, b)) (split_once c xs))"

definition rsplit_once :: "char \<Rightarrow> string \<Rightarrow> (string \<times> string) option" where
  "rsplit_once c s = map_option (\<lambda>(a, b). (rev b, rev a)) (split_once c (rev s))"

lemma split_once_Some:
  "split_once c s = Some (a, b) \<longleftrightarrow> s = a @ c # b \<and> c \<notin> set a"
proof (induction s arbitrary: a)
  case Nil
  then show ?case by simp
next
  case (Cons x s)
  show ?case
  proof (cases "x = c")
    case True
    then show ?thesis by (auto simp: Cons_eq_append_conv)
  next
    case False
    then show ?thesis using Cons.IH by (cases a) auto
  qed
qed

lemma split_once_None: "split_once c s = None \<longleftrightarrow> c \<notin> set s"
  by (induction s) auto

lemma rsplit_once_Some:
  "rsplit_once c s = Some (a, b) \<longleftrightarrow> s = a @ c # b \<and> c \<notin> set b"
proof -
  have "rsplit_once c s = Some (a, b) \<longleftrightarrow> split_once c (rev s) = Some (rev b, rev a)"
    by (auto simp: rsplit_once_def)
  also have "\<dots> \<longleftrightarrow> rev s = rev b @ c # rev a \<and> c \<notin> set b"
    by (simp add: split_once_Some)
  also have "rev s = rev b @ c # rev a \<longleftrightarrow> s = a @ c # b"
    by (metis rev.simps(2) rev_append rev_rev_ident append_assoc append_Cons append_Nil)
  finally show ?thesis .
qed

lemma rsplit_once_None: "rsplit_once c s = None \<longleftrightarrow> c \<notin> set s"
  by (simp add: rsplit_once_def split_once_None)

lemma strip_prefix_append [simp]: "strip_prefix p (p @ s) = Some s"
  by (simp add: strip_prefix_def)

lemma strip_prefix_Some: "strip_prefix p s = Some r \<longleftrightarrow> s = p @ r"
  by (auto simp: strip_prefix_def) (metis append_take_drop_id)

section \<open>Parsing integers\<close>

text \<open>
  \<open>str::parse\<close> for an integer: an optional sign (a minus only for signed types), at least one decimal
  digit, nothing else, and a result in the range of the type.
\<close>

definition is_ascii_digit :: "char \<Rightarrow> bool" where
  "is_ascii_digit c = (48 \<le> byte_of_char c \<and> byte_of_char c \<le> 57)"

definition dec_value :: "nat list \<Rightarrow> nat" where
  "dec_value ds = foldl (\<lambda>n d. n * 10 + d) 0 ds"

definition char_digit :: "char \<Rightarrow> nat" where
  "char_digit c = of_char c - 48"

definition parse_digits :: "string \<Rightarrow> nat option" where
  "parse_digits s =
    (if s \<noteq> [] \<and> list_all is_ascii_digit s then Some (dec_value (map char_digit s)) else None)"

definition parse_int :: "string \<Rightarrow> int option" where
  "parse_int s = (case s of
     [] \<Rightarrow> None
   | c # r \<Rightarrow>
       if c = CHR ''-'' then map_option (\<lambda>n. - int n) (parse_digits r)
       else if c = CHR ''+'' then map_option int (parse_digits r)
       else map_option int (parse_digits s))"

definition parse_i32 :: "string \<Rightarrow> i32 option" where
  "parse_i32 s = Option.bind (parse_int s) (\<lambda>i. if - (2 ^ 31) \<le> i \<and> i < 2 ^ 31 then Some (word_of_int i) else None)"

section \<open>Ordered maps\<close>

text \<open>
  \<open>str\<close> compares its bytes lexicographically.  A \<open>BTreeMap<String, V>\<close> is the list of its
  entries in increasing key order; \<open>insert\<close> replaces the value of a key that is there.
\<close>

fun str_less :: "string \<Rightarrow> string \<Rightarrow> bool" where
  "str_less _ [] = False"
| "str_less [] (b # bs) = True"
| "str_less (a # as) (b # bs) = (byte_of_char a < byte_of_char b \<or> a = b \<and> str_less as bs)"

fun btree_insert :: "string \<Rightarrow> 'v \<Rightarrow> (string \<times> 'v) list \<Rightarrow> (string \<times> 'v) list" where
  "btree_insert k v [] = [(k, v)]"
| "btree_insert k v ((k', v') # m) =
    (if k = k' then (k, v) # m
     else if str_less k k' then (k, v) # (k', v') # m
     else (k', v') # btree_insert k v m)"

lemma map_of_btree_insert [simp]: "map_of (btree_insert k v m) = (map_of m)(k \<mapsto> v)"
  by (induction k v m rule: btree_insert.induct) auto

lemma str_less_irrefl [simp]: "\<not> str_less s s"
  by (induction s) simp_all

lemma str_less_asym: "str_less s t \<Longrightarrow> \<not> str_less t s"
  by (induction s t rule: str_less.induct) auto

lemma btree_insert_last:
  "\<forall>k' \<in> fst ` set m. str_less k' k \<Longrightarrow> btree_insert k v m = m @ [(k, v)]"
  by (induction k v m rule: btree_insert.induct) (auto dest: str_less_asym)

lemma btree_build_sorted:
  assumes "sorted_wrt str_less (map fst (m @ kvs))"
  shows "fold (\<lambda>(k, v). btree_insert k v) kvs m = m @ kvs"
  using assms
proof (induction kvs arbitrary: m)
  case (Cons kv kvs)
  obtain k v where kv: "kv = (k, v)" by (cases kv)
  have "\<forall>k' \<in> fst ` set m. str_less k' k" using Cons.prems by (auto simp: sorted_wrt_append kv)
  then have "btree_insert k v m = m @ [(k, v)]" by (rule btree_insert_last)
  then show ?case using Cons.IH [of "m @ [(k, v)]"] Cons.prems by (simp add: kv)
qed simp

section \<open>Printing and reading decimal digits\<close>

lemma dec_value_Nil [simp]: "dec_value [] = 0"
  by (simp add: dec_value_def)

lemma dec_value_snoc [simp]: "dec_value (ds @ [d]) = dec_value ds * 10 + d"
  by (simp add: dec_value_def)

lemma char_digit_digit_char [simp]: "d < 10 \<Longrightarrow> char_digit (digit_char d) = d"
  by (simp add: char_digit_def digit_char_def)

lemma fmt_radix_nonempty [simp]: "fmt_radix r n \<noteq> []"
  by (subst fmt_radix.simps) simp

lemma fmt_nat_nonempty [simp]: "fmt_nat n \<noteq> []"
  by (simp add: fmt_nat_def)

lemma fmt_nat_digits: "\<exists>ds. fmt_nat n = map digit_char ds \<and> (\<forall>d \<in> set ds. d < 10) \<and> dec_value ds = n"
proof (induction n rule: less_induct)
  case (less n)
  show ?case
  proof (cases "n < 10")
    case True
    then show ?thesis
      by (intro exI [of _ "[n]"]) (simp add: fmt_nat_def fmt_radix.simps dec_value_def)
  next
    case False
    then have "n div 10 < n" by simp
    from less.IH [OF this] obtain ds where
      ds: "fmt_nat (n div 10) = map digit_char ds" "\<forall>d \<in> set ds. d < 10" "dec_value ds = n div 10"
      by blast
    from False have "fmt_nat n = fmt_nat (n div 10) @ [digit_char (n mod 10)]"
      by (simp add: fmt_nat_def fmt_radix.simps [of 10 n])
    with ds show ?thesis by (intro exI [of _ "ds @ [n mod 10]"]) auto
  qed
qed

end
