(* ===== verification/Rmp.thy ===== *)
theory Rmp
  imports Mp_Format Rust_Std
begin

text \<open>
  The third-party MessagePack crates the client calls (\<open>rmp\<close>, \<open>rmpv\<close>, \<open>rmp_serde\<close>) are
  not part of the repository.  They enter the model as parameters: a record of the \<open>rmp\<close>
  functions that are used and a record of the \<open>rmpv\<close> ones, over the public type
  \<open>rmpv::Value\<close>.  What the client relies on is stated as locales: a writer
  writes a MessagePack value of the documented family, and the matching reader reads it
  back and leaves the rest of the buffer.
\<close>

datatype mpvalue =
    VNil
  | VBoolean bool
  | VInteger int
  | VF32 u32
  | VF64 u64
  | VString bytes
  | VBinary bytes
  | VArray "mpvalue list"
  | VMap "(mpvalue \<times> mpvalue) list"
  | VExt u8 bytes

record rmp =
  write_uint :: "u64 \<Rightarrow> bytes"
  write_sint :: "i64 \<Rightarrow> bytes"
  write_map_len :: "u32 \<Rightarrow> bytes"
  write_array_len :: "u32 \<Rightarrow> bytes"
  write_str :: "string \<Rightarrow> bytes"
  write_str_len :: "u32 \<Rightarrow> bytes"
  write_bool :: "bool \<Rightarrow> bytes"
  write_f64 :: "u64 \<Rightarrow> bytes"
  write_ext_meta :: "u32 \<Rightarrow> u8 \<Rightarrow> bytes"
  read_int_u64 :: "bytes \<Rightarrow> (u64 \<times> bytes) option"
  read_int_i64 :: "bytes \<Rightarrow> (i64 \<times> bytes) option"
  read_str_len :: "bytes \<Rightarrow> (u32 \<times> bytes) option"

record rmpv =
  read_value :: "bytes \<Rightarrow> string + mpvalue \<times> bytes"
  write_value :: "mpvalue \<Rightarrow> string + bytes"
  as_u64 :: "mpvalue \<Rightarrow> u64 option"
  as_bool :: "mpvalue \<Rightarrow> bool option"
  as_str :: "mpvalue \<Rightarrow> string option"
  as_array :: "mpvalue \<Rightarrow> mpvalue list option"
  as_map :: "mpvalue \<Rightarrow> (mpvalue \<times> mpvalue) list option"

text \<open>
  The integer part of the contract: what \<open>write_uint\<close> and \<open>write_sint\<close> append is one
  MessagePack value, and \<open>read_int\<close> gives the number back with whatever followed it.
\<close>

locale rmp_int =
  fixes R :: "rmp"
  assumes uint_value: "mp_value (write_uint R v)"
    and sint_value: "mp_value (write_sint R s)"
    and read_write_uint: "read_int_u64 R (write_uint R v @ rest) = Some (v, rest)"
    and read_write_sint: "read_int_i64 R (write_sint R s @ rest) = Some (s, rest)"
begin

lemma read_uint_alone: "read_int_u64 R (write_uint R v) = Some (v, [])"
  using read_write_uint [of v "[]"] by simp

lemma write_uint_inj: "write_uint R v = write_uint R w \<longleftrightarrow> v = w"
  using read_uint_alone by (metis option.inject prod.inject)

end

text \<open>
  The container and scalar part: lengths are written as the head of a map, an array or a
  string that announces exactly that many entries, elements or bytes.
\<close>

locale rmp_contract = rmp_int +
  assumes map_len: "mp_map_head (write_map_len R n) (unat n)"
    and array_len: "mp_array_head (write_array_len R n) (unat n)"
    and str_len: "length p = unat n \<Longrightarrow> mp_node (write_str_len R n @ p) 0"
    and write_str_eq: "length s < 2 ^ 32 \<Longrightarrow>
      write_str R s = write_str_len R (of_nat (length s)) @ str_bytes s"
    and bool_value: "mp_node (write_bool R b) 0"
    and f64_value: "mp_node (write_f64 R x) 0"
    and ext_meta: "length p = unat n \<Longrightarrow> mp_node (write_ext_meta R n t @ p) 0"
    and read_write_str_len: "read_str_len R (write_str_len R n @ rest) = Some (n, rest)"
begin

lemma str_value:
  assumes "length s < 2 ^ 32"
  shows "mp_value (write_str R s)"
proof -
  have "unat (of_nat (length s) :: u32) = length s"
    using assms by (simp add: unat_of_nat)
  then have "mp_node (write_str_len R (of_nat (length s)) @ str_bytes s) 0"
    by (intro str_len) simp
  then show ?thesis
    using assms by (simp add: write_str_eq mp_value_atom)
qed

lemma bool_mp_value: "mp_value (write_bool R b)"
  by (rule mp_value_atom [OF bool_value])

lemma f64_mp_value: "mp_value (write_f64 R x)"
  by (rule mp_value_atom [OF f64_value])

end

text \<open>The accessors of \<open>rmpv::Value\<close>, on the values they are for.\<close>

locale rmpv_access =
  fixes V :: rmpv
  assumes as_u64_integer: "as_u64 V (VInteger (uint n)) = Some n"
    and as_str_string: "utf8_valid (str_bytes s) \<Longrightarrow> as_str V (VString (str_bytes s)) = Some s"
    and as_array_array: "as_array V (VArray vs) = Some vs"
    and as_map_map: "as_map V (VMap kvs) = Some kvs"

end
