(* ===== verification/Errors.thy ===== *)
theory Errors
  imports Rmp Rust_Std
begin

text \<open>
  \<^verbatim>\<open>src/src/error.rs\<close>: the one error type of the crate and the error a server sends.  A
  boxed \<open>dyn Error\<close> is kept as its displayed text, a duration as its nanoseconds, and
  the extra fields (a \<open>BTreeMap\<close>) as the association list of its entries in key order.
\<close>

type_synonym duration = nat

datatype server_error = ServerError
  (se_code: u32)
  (se_message: string)
  (se_kind: string)
  (se_file: "string option")
  (se_line: "u64 option")
  (se_errno: u64)
  (se_fields: "(string \<times> mpvalue) list")
  (se_cause: "server_error list")

datatype error =
    Io string
  | Server server_error
  | Auth string server_error
  | Protocol string
  | Encode string
  | Decode string
  | Closed
  | ShuttingDown
  | Timeout duration
  | Url string
  | Unsupported string

type_synonym 'a result = "(error, 'a) outcome"

definition from_message :: "u32 \<Rightarrow> string \<Rightarrow> server_error" where
  "from_message code message = ServerError code message ''ClientError'' None None 0 [] []"

fun as_server :: "error \<Rightarrow> server_error option" where
  "as_server (Server e) = Some e"
| "as_server (Auth user e) = Some e"
| "as_server _ = None"

fun is_transient :: "error \<Rightarrow> bool" where
  "is_transient (Io _) = True"
| "is_transient Closed = True"
| "is_transient (Timeout _) = True"
| "is_transient _ = False"

text \<open>\<open>Display\<close> of a server error is its message alone.\<close>

definition display_server_error :: "server_error \<Rightarrow> string" where
  "display_server_error e = se_message e"

abbreviation WRONG_QUERY_ID :: u32 where "WRONG_QUERY_ID \<equiv> 211"
abbreviation TUPLE_FOUND :: u32 where "TUPLE_FOUND \<equiv> 3"
abbreviation (input) ERC_UNKNOWN :: u32 where "ERC_UNKNOWN \<equiv> 0"
abbreviation (input) ERC_ILLEGAL_PARAMS :: u32 where "ERC_ILLEGAL_PARAMS \<equiv> 1"
abbreviation (input) ERC_UNSUPPORTED :: u32 where "ERC_UNSUPPORTED \<equiv> 5"
abbreviation (input) ERC_TUPLE_NOT_FOUND :: u32 where "ERC_TUPLE_NOT_FOUND \<equiv> 4"
abbreviation (input) ERC_READONLY :: u32 where "ERC_READONLY \<equiv> 7"
abbreviation (input) ERC_SPACE_EXISTS :: u32 where "ERC_SPACE_EXISTS \<equiv> 10"
abbreviation (input) ERC_FIELD_TYPE :: u32 where "ERC_FIELD_TYPE \<equiv> 23"
abbreviation (input) ERC_PROC_LUA :: u32 where "ERC_PROC_LUA \<equiv> 32"
abbreviation (input) ERC_NO_SUCH_PROC :: u32 where "ERC_NO_SUCH_PROC \<equiv> 33"
abbreviation (input) ERC_NO_SUCH_INDEX :: u32 where "ERC_NO_SUCH_INDEX \<equiv> 35"
abbreviation (input) ERC_NO_SUCH_SPACE :: u32 where "ERC_NO_SUCH_SPACE \<equiv> 36"
abbreviation (input) ERC_ACCESS_DENIED :: u32 where "ERC_ACCESS_DENIED \<equiv> 42"
abbreviation (input) ERC_NO_SUCH_USER :: u32 where "ERC_NO_SUCH_USER \<equiv> 45"
abbreviation (input) ERC_CREDS_MISMATCH :: u32 where "ERC_CREDS_MISMATCH \<equiv> 47"
abbreviation (input) ERC_TIMEOUT :: u32 where "ERC_TIMEOUT \<equiv> 78"
abbreviation (input) ERC_TRANSACTION_CONFLICT :: u32 where "ERC_TRANSACTION_CONFLICT \<equiv> 97"
abbreviation (input) ERC_NO_SUCH_FIELD_NAME_IN_SPACE :: u32 where "ERC_NO_SUCH_FIELD_NAME_IN_SPACE \<equiv> 153"
abbreviation (input) ERC_SQL_EXECUTE :: u32 where "ERC_SQL_EXECUTE \<equiv> 159"
abbreviation (input) ERC_SQL_PREPARE :: u32 where "ERC_SQL_PREPARE \<equiv> 210"
abbreviation (input) ERC_SYNC_QUORUM_TIMEOUT :: u32 where "ERC_SYNC_QUORUM_TIMEOUT \<equiv> 216"

definition display_error_code :: "u32 \<Rightarrow> string" where
  "display_error_code code = ''ER_'' @ fmt_nat (unat code)"

text \<open>\<open>Display\<close> of every variant; \<open>Debug\<close> of a duration is the parameter \<open>dbg\<close>.\<close>

fun display_error :: "(duration \<Rightarrow> string) \<Rightarrow> error \<Rightarrow> string" where
  "display_error dbg (Io m) = ''i/o error: '' @ m"
| "display_error dbg (Server e) = display_server_error e"
| "display_error dbg (Auth user e) = ''authentication failed for user `'' @ user @ ''`: '' @ display_server_error e"
| "display_error dbg (Protocol m) = ''protocol violation: '' @ m"
| "display_error dbg (Encode m) = ''failed to encode request: '' @ m"
| "display_error dbg (Decode m) = ''failed to decode response: '' @ m"
| "display_error dbg Closed = ''connection closed''"
| "display_error dbg ShuttingDown = ''server is shutting down''"
| "display_error dbg (Timeout d) = ''request timed out after '' @ dbg d"
| "display_error dbg (Url m) = ''invalid connection url: '' @ m"
| "display_error dbg (Unsupported m) = ''server does not support '' @ m"

text \<open>What a caller may retry is never what the server decided on purpose.\<close>

lemma transient_not_server: "is_transient e \<Longrightarrow> as_server e = None"
  by (cases e) auto

end
