(* ===== verification/Rmp_Reference.thy ===== *)
theory Rmp_Reference
  imports Rmp Rust_Std
begin

text \<open>
  A MessagePack encoder and decoder written from the format's specification, in the most
  compact form the \<open>rmp\<close> crate documents.  It is no model of that crate: it is the
  concrete instance on which the contracts of \<open>Rmp\<close> are discharged and on which the
  witnesses of the development are computed.
\<close>

definition uint_bytes :: "nat \<Rightarrow> bytes" where
  "uint_bytes n =
    (if n < 0x80 then [of_nat n]
     else if n < 2 ^ 8 then 0xcc # be_bytes 1 n
     else if n < 2 ^ 16 then 0xcd # be_bytes 2 n
     else if n < 2 ^ 32 then 0xce # be_bytes 4 n
     else 0xcf # be_bytes 8 n)"

definition ref_write_uint :: "u64 \<Rightarrow> bytes" where
  "ref_write_uint v = uint_bytes (unat v)"

definition sint_bytes :: "int \<Rightarrow> bytes" where
  "sint_bytes i =
    (if 0 \<le> i then uint_bytes (nat i)
     else if - 32 \<le> i then [word_of_int i]
     else if - (2 ^ 7) \<le> i then 0xd0 # be_bytes 1 (nat (i mod 2 ^ 8))
     else if - (2 ^ 15) \<le> i then 0xd1 # be_bytes 2 (nat (i mod 2 ^ 16))
     else if - (2 ^ 31) \<le> i then 0xd2 # be_bytes 4 (nat (i mod 2 ^ 32))
     else 0xd3 # be_bytes 8 (nat (i mod 2 ^ 64)))"

definition ref_write_sint :: "i64 \<Rightarrow> bytes" where
  "ref_write_sint s = sint_bytes (sint s)"

definition take_be :: "nat \<Rightarrow> bytes \<Rightarrow> (nat \<times> bytes) option" where
  "take_be w bs = (if w \<le> length bs then Some (be_nat (take w bs), drop w bs) else None)"

definition signed_of :: "nat \<Rightarrow> nat \<Rightarrow> int" where
  "signed_of w n = (if n < 2 ^ (w - 1) then int n else int n - 2 ^ w)"

fun ref_read_int :: "bytes \<Rightarrow> (int \<times> bytes) option" where
  "ref_read_int [] = None"
| "ref_read_int (m # bs) =
    (if m < 0x80 then Some (int (unat m), bs)
     else if 0xe0 \<le> m then Some (int (unat m) - 256, bs)
     else if m = 0xcc then map_option (apfst int) (take_be 1 bs)
     else if m = 0xcd then map_option (apfst int) (take_be 2 bs)
     else if m = 0xce then map_option (apfst int) (take_be 4 bs)
     else if m = 0xcf then map_option (apfst int) (take_be 8 bs)
     else if m = 0xd0 then map_option (apfst (signed_of 8)) (take_be 1 bs)
     else if m = 0xd1 then map_option (apfst (signed_of 16)) (take_be 2 bs)
     else if m = 0xd2 then map_option (apfst (signed_of 32)) (take_be 4 bs)
     else if m = 0xd3 then map_option (apfst (signed_of 64)) (take_be 8 bs)
     else None)"

definition ref_read_u64 :: "bytes \<Rightarrow> (u64 \<times> bytes) option" where
  "ref_read_u64 bs = (case ref_read_int bs of
     Some (i, r) \<Rightarrow> if 0 \<le> i \<and> i < 2 ^ 64 then Some (word_of_int i, r) else None
   | None \<Rightarrow> None)"

definition ref_read_i64 :: "bytes \<Rightarrow> (i64 \<times> bytes) option" where
  "ref_read_i64 bs = (case ref_read_int bs of
     Some (i, r) \<Rightarrow> if - (2 ^ 63) \<le> i \<and> i < 2 ^ 63 then Some (word_of_int i, r) else None
   | None \<Rightarrow> None)"

definition head_bytes :: "nat \<Rightarrow> nat \<Rightarrow> u8 option \<Rightarrow> u8 \<Rightarrow> u8 \<Rightarrow> nat \<Rightarrow> bytes" where
  "head_bytes limit base m8 m16 m32 n = (
     if n < limit then be_bytes 1 (base + n)
     else if n < 2 ^ 8 \<and> m8 \<noteq> None then the m8 # be_bytes 1 n
     else if n < 2 ^ 16 then m16 # be_bytes 2 n
     else m32 # be_bytes 4 n)"

definition ref_write_map_len :: "u32 \<Rightarrow> bytes" where
  "ref_write_map_len n = head_bytes 16 0x80 None 0xde 0xdf (unat n)"

definition ref_write_array_len :: "u32 \<Rightarrow> bytes" where
  "ref_write_array_len n = head_bytes 16 0x90 None 0xdc 0xdd (unat n)"

definition ref_write_str_len :: "u32 \<Rightarrow> bytes" where
  "ref_write_str_len n = head_bytes 32 0xa0 (Some 0xd9) 0xda 0xdb (unat n)"

definition ref_write_str :: "string \<Rightarrow> bytes" where
  "ref_write_str s = ref_write_str_len (of_nat (length s)) @ str_bytes s"

fun ref_read_str_len :: "bytes \<Rightarrow> (u32 \<times> bytes) option" where
  "ref_read_str_len [] = None"
| "ref_read_str_len (m # bs) =
    (if 0xa0 \<le> m \<and> m < 0xc0 then Some (of_nat (unat m - 0xa0), bs)
     else if m = 0xd9 then map_option (apfst of_nat) (take_be 1 bs)
     else if m = 0xda then map_option (apfst of_nat) (take_be 2 bs)
     else if m = 0xdb then map_option (apfst of_nat) (take_be 4 bs)
     else None)"

definition ref_ext_meta :: "nat \<Rightarrow> u8 \<Rightarrow> bytes" where
  "ref_ext_meta n ty = (
     if n = 1 then [0xd4, ty] else if n = 2 then [0xd5, ty] else if n = 4 then [0xd6, ty]
     else if n = 8 then [0xd7, ty] else if n = 16 then [0xd8, ty]
     else if n < 2 ^ 8 then 0xc7 # be_bytes 1 n @ [ty]
     else if n < 2 ^ 16 then 0xc8 # be_bytes 2 n @ [ty]
     else 0xc9 # be_bytes 4 n @ [ty])"

definition ref_write_ext_meta :: "u32 \<Rightarrow> u8 \<Rightarrow> bytes" where
  "ref_write_ext_meta n ty = ref_ext_meta (unat n) ty"

definition ref_rmp :: rmp where
  "ref_rmp = \<lparr>write_uint = ref_write_uint, write_sint = ref_write_sint,
     write_map_len = ref_write_map_len, write_array_len = ref_write_array_len,
     write_str = ref_write_str, write_str_len = ref_write_str_len,
     write_bool = (\<lambda>b. [if b then 0xc3 else 0xc2]),
     write_f64 = (\<lambda>x. 0xcb # be_bytes 8 (unat x)),
     write_ext_meta = ref_write_ext_meta,
     read_int_u64 = ref_read_u64, read_int_i64 = ref_read_i64, read_str_len = ref_read_str_len\<rparr>"

section \<open>Dynamic values\<close>

text \<open>
  The same for \<open>rmpv\<close>: the accessors of \<open>Value\<close> as documented, and a reader that decodes one
  value.  \<open>ref_read_values fuel n\<close> reads \<open>n\<close> values; every value takes at least one byte, so one
  more than the bytes of the input is fuel enough.
\<close>

datatype node = Leaf mpvalue | ArrayNode nat | MapNode nat

definition take_len :: "nat \<Rightarrow> bytes \<Rightarrow> (bytes \<times> bytes) option" where
  "take_len n bs = (if n \<le> length bs then Some (take n bs, drop n bs) else None)"

definition sized :: "(bytes \<Rightarrow> mpvalue) \<Rightarrow> nat \<Rightarrow> bytes \<Rightarrow> (node \<times> bytes) option" where
  "sized mk w bs = Option.bind (take_be w bs) (\<lambda>(n, r). map_option (apfst (Leaf \<circ> mk)) (take_len n r))"

definition ext_sized :: "nat \<Rightarrow> bytes \<Rightarrow> (node \<times> bytes) option" where
  "ext_sized n bs = (case bs of [] \<Rightarrow> None
   | t # r \<Rightarrow> map_option (apfst (Leaf \<circ> VExt t)) (take_len n r))"

fun ref_read_node :: "bytes \<Rightarrow> (node \<times> bytes) option" where
  "ref_read_node [] = None"
| "ref_read_node (m # bs) =
    (case ref_read_int (m # bs) of Some (i, r) \<Rightarrow> Some (Leaf (VInteger i), r)
     | None \<Rightarrow>
     if 0x80 \<le> m \<and> m < 0x90 then Some (MapNode (unat m - 0x80), bs)
     else if 0x90 \<le> m \<and> m < 0xa0 then Some (ArrayNode (unat m - 0x90), bs)
     else if 0xa0 \<le> m \<and> m < 0xc0 then map_option (apfst (Leaf \<circ> VString)) (take_len (unat m - 0xa0) bs)
     else if m = 0xc0 then Some (Leaf VNil, bs)
     else if m = 0xc2 then Some (Leaf (VBoolean False), bs)
     else if m = 0xc3 then Some (Leaf (VBoolean True), bs)
     else if m = 0xc4 then sized VBinary 1 bs
     else if m = 0xc5 then sized VBinary 2 bs
     else if m = 0xc6 then sized VBinary 4 bs
     else if m = 0xd9 then sized VString 1 bs
     else if m = 0xda then sized VString 2 bs
     else if m = 0xdb then sized VString 4 bs
     else if m = 0xca then map_option (apfst (Leaf \<circ> VF32 \<circ> of_nat)) (take_be 4 bs)
     else if m = 0xcb then map_option (apfst (Leaf \<circ> VF64 \<circ> of_nat)) (take_be 8 bs)
     else if m = 0xd4 then ext_sized 1 bs
     else if m = 0xd5 then ext_sized 2 bs
     else if m = 0xd6 then ext_sized 4 bs
     else if m = 0xd7 then ext_sized 8 bs
     else if m = 0xd8 then ext_sized 16 bs
     else if m = 0xc7 then Option.bind (take_be 1 bs) (\<lambda>(n, r). ext_sized n r)
     else if m = 0xc8 then Option.bind (take_be 2 bs) (\<lambda>(n, r). ext_sized n r)
     else if m = 0xc9 then Option.bind (take_be 4 bs) (\<lambda>(n, r). ext_sized n r)
     else if m = 0xdc then map_option (apfst ArrayNode) (take_be 2 bs)
     else if m = 0xdd then map_option (apfst ArrayNode) (take_be 4 bs)
     else if m = 0xde then map_option (apfst MapNode) (take_be 2 bs)
     else if m = 0xdf then map_option (apfst MapNode) (take_be 4 bs)
     else None)"

fun pairs :: "'a list \<Rightarrow> ('a \<times> 'a) list" where
  "pairs (x # y # zs) = (x, y) # pairs zs"
| "pairs _ = []"

fun ref_read_values :: "nat \<Rightarrow> nat \<Rightarrow> bytes \<Rightarrow> (mpvalue list \<times> bytes) option" where
  "ref_read_values fuel 0 bs = Some ([], bs)"
| "ref_read_values 0 (Suc n) bs = None"
| "ref_read_values (Suc fuel) (Suc n) bs =
    (case ref_read_node bs of
       None \<Rightarrow> None
     | Some (Leaf v, r) \<Rightarrow> map_option (apfst (Cons v)) (ref_read_values fuel n r)
     | Some (ArrayNode k, r) \<Rightarrow> Option.bind (ref_read_values fuel k r) (\<lambda>(vs, r').
         map_option (apfst (Cons (VArray vs))) (ref_read_values fuel n r'))
     | Some (MapNode k, r) \<Rightarrow> Option.bind (ref_read_values fuel (2 * k) r) (\<lambda>(vs, r').
         map_option (apfst (Cons (VMap (pairs vs)))) (ref_read_values fuel n r')))"

definition ref_read_value :: "bytes \<Rightarrow> string + mpvalue \<times> bytes" where
  "ref_read_value bs = (case ref_read_values (Suc (length bs)) 1 bs of
     Some ([v], r) \<Rightarrow> Inr (v, r)
   | _ \<Rightarrow> Inl ''malformed value'')"

fun ref_write_value :: "mpvalue \<Rightarrow> bytes" where
  "ref_write_value VNil = [0xc0]"
| "ref_write_value (VBoolean b) = [if b then 0xc3 else 0xc2]"
| "ref_write_value (VInteger i) = (if 2 ^ 63 \<le> i then uint_bytes (nat i) else sint_bytes i)"
| "ref_write_value (VF32 x) = 0xca # be_bytes 4 (unat x)"
| "ref_write_value (VF64 x) = 0xcb # be_bytes 8 (unat x)"
| "ref_write_value (VString s) = ref_write_str_len (of_nat (length s)) @ s"
| "ref_write_value (VBinary s) =
    (if length s < 2 ^ 8 then 0xc4 # be_bytes 1 (length s)
     else if length s < 2 ^ 16 then 0xc5 # be_bytes 2 (length s)
     else 0xc6 # be_bytes 4 (length s)) @ s"
| "ref_write_value (VArray vs) = ref_write_array_len (of_nat (length vs)) @ concat (map ref_write_value vs)"
| "ref_write_value (VMap kvs) =
    ref_write_map_len (of_nat (length kvs)) @
    concat (map (\<lambda>(k, v). ref_write_value k @ ref_write_value v) kvs)"
| "ref_write_value (VExt t p) = ref_write_ext_meta (of_nat (length p)) t @ p"

definition ref_rmpv :: rmpv where
  "ref_rmpv = \<lparr>read_value = ref_read_value, write_value = (\<lambda>v. Inr (ref_write_value v)),
     as_u64 = (\<lambda>v. case v of VInteger i \<Rightarrow> if 0 \<le> i \<and> i < 2 ^ 64 then Some (word_of_int i) else None | _ \<Rightarrow> None),
     as_bool = (\<lambda>v. case v of VBoolean b \<Rightarrow> Some b | _ \<Rightarrow> None),
     as_str = (\<lambda>v. case v of VString s \<Rightarrow> from_utf8 s | _ \<Rightarrow> None),
     as_array = (\<lambda>v. case v of VArray vs \<Rightarrow> Some vs | _ \<Rightarrow> None),
     as_map = (\<lambda>v. case v of VMap kvs \<Rightarrow> Some kvs | _ \<Rightarrow> None)\<rparr>"

section \<open>The reference instance honours the contracts\<close>

lemma unat_u64_lt: "unat (v :: u64) < 2 ^ 64"
  using unsigned_less [of v] by simp

lemma unat_u32_lt: "unat (v :: u32) < 2 ^ 32"
  using unsigned_less [of v] by simp

lemma take_be_append [simp]: "take_be w (be_bytes w n @ rest) = Some (n mod 256 ^ w, rest)"
  by (simp add: take_be_def byte_simps)

lemma number_node: "(m, w) \<in> {(0xcc, 1), (0xcd, 2), (0xce, 4), (0xcf, 8), (0xd0, 1), (0xd1, 2), (0xd2, 4), (0xd3, 8)}
  \<Longrightarrow> mp_value (m # be_bytes w n)"
  by (rule mp_value_atom, rule mp_node.number) auto

lemma uint_bytes_value: "mp_value (uint_bytes n)"
proof (cases "n < 0x80")
  case True
  then have "unat (of_nat n :: u8) < 0x80" by simp
  then show ?thesis
    using True by (simp add: uint_bytes_def mp_value_atom mp_node.positive_fixint del: unat_of_nat_byte)
next
  case False
  then show ?thesis unfolding uint_bytes_def by (simp add: number_node)
qed

lemma read_number:
  "ref_read_int (0xcc # be_bytes 1 n @ rest) = Some (int (n mod 2 ^ 8), rest)"
  "ref_read_int (0xcd # be_bytes 2 n @ rest) = Some (int (n mod 2 ^ 16), rest)"
  "ref_read_int (0xce # be_bytes 4 n @ rest) = Some (int (n mod 2 ^ 32), rest)"
  "ref_read_int (0xcf # be_bytes 8 n @ rest) = Some (int (n mod 2 ^ 64), rest)"
  "ref_read_int (0xd0 # be_bytes 1 n @ rest) = Some (signed_of 8 (n mod 2 ^ 8), rest)"
  "ref_read_int (0xd1 # be_bytes 2 n @ rest) = Some (signed_of 16 (n mod 2 ^ 16), rest)"
  "ref_read_int (0xd2 # be_bytes 4 n @ rest) = Some (signed_of 32 (n mod 2 ^ 32), rest)"
  "ref_read_int (0xd3 # be_bytes 8 n @ rest) = Some (signed_of 64 (n mod 2 ^ 64), rest)"
  by (simp_all add: zmod_int)

lemma read_uint_bytes: "n < 2 ^ 64 \<Longrightarrow> ref_read_int (uint_bytes n @ rest) = Some (int n, rest)"
proof (cases "n < 0x80")
  case True
  then have "(of_nat n :: u8) < 0x80" by (simp add: word_less_nat_alt)
  then show ?thesis using True by (simp add: uint_bytes_def)
next
  case False
  assume "n < 2 ^ 64"
  with False show ?thesis
    unfolding uint_bytes_def by (simp only: if_False if_True append_Cons read_number mod_less split: if_split) simp
qed

lemma neg_mod: "- (2 ^ w) \<le> i \<Longrightarrow> i < 0 \<Longrightarrow> i mod 2 ^ w = i + (2 ^ w :: int)"
  using mod_pos_pos_trivial [of "i + 2 ^ w" "2 ^ w"] by simp

lemma signed_of_neg:
  assumes "- (2 ^ (w - 1)) \<le> i" "i < 0" "0 < w"
  shows "signed_of w (nat (i mod 2 ^ w) mod 2 ^ w) = i"
proof -
  have w: "(2 :: int) ^ w = 2 * 2 ^ (w - 1)" using assms(3) by (cases w) auto
  have p: "(0 :: int) < 2 ^ (w - 1)" by simp
  have m: "i mod 2 ^ w = i + 2 ^ w" using assms(1,2) w p by (intro neg_mod) linarith+
  have "nat (i mod 2 ^ w) < 2 ^ w"
    using assms(2) m p w by (simp add: nat_less_iff)
  then have "nat (i mod 2 ^ w) mod 2 ^ w = nat (i + 2 ^ w)" using m by simp
  moreover have "\<not> nat (i + 2 ^ w) < 2 ^ (w - 1)"
    using assms(1) w p by (simp add: nat_less_iff)
  moreover have "int (nat (i + 2 ^ w)) = i + 2 ^ w"
  proof (rule nat_0_le)
    show "0 \<le> i + 2 ^ w" using assms(1) w p by linarith
  qed
  ultimately show ?thesis by (simp only: signed_of_def if_False)
qed

lemma unat_word_of_int_byte: "- 32 \<le> i \<Longrightarrow> i < 0 \<Longrightarrow> unat (word_of_int i :: u8) = nat (i + 256)"
  using neg_mod [of 8 i] by (simp add: unat_eq_nat_uint uint_word_of_int)

lemma sint_bytes_value: "mp_value (sint_bytes i)"
proof (cases "- 32 \<le> i \<and> i < 0")
  case True
  then have "0xe0 \<le> unat (word_of_int i :: u8)"
    using unat_word_of_int_byte [of i] by (simp add: nat_le_eq_zle le_nat_iff)
  then have "mp_value [word_of_int i]" by (intro mp_value_atom mp_node.negative_fixint)
  then show ?thesis using True by (simp add: sint_bytes_def)
next
  case False
  then show ?thesis
    unfolding sint_bytes_def by (auto simp: uint_bytes_value number_node)
qed

lemma read_sint_bytes:
  assumes "- (2 ^ 63) \<le> i" "i < 2 ^ 63"
  shows "ref_read_int (sint_bytes i @ rest) = Some (i, rest)"
proof -
  consider "0 \<le> i" | "- 32 \<le> i" "i < 0" | "- (2 ^ 7) \<le> i" "i < - 32" | "- (2 ^ 15) \<le> i" "i < - (2 ^ 7)"
    | "- (2 ^ 31) \<le> i" "i < - (2 ^ 15)" | "i < - (2 ^ 31)" by linarith
  then show ?thesis
  proof cases
    case 1
    then show ?thesis using assms read_uint_bytes [of "nat i"] by (simp add: sint_bytes_def)
  next
    case 2
    have "\<not> (word_of_int i :: u8) < 0x80" "0xe0 \<le> (word_of_int i :: u8)"
      using unat_word_of_int_byte [OF 2] 2 by (simp_all add: word_less_nat_alt word_le_nat_alt)
    then show ?thesis
      using unat_word_of_int_byte [OF 2] 2 by (simp add: sint_bytes_def)
  next
    case 3
    then have "sint_bytes i = 0xd0 # be_bytes 1 (nat (i mod 2 ^ 8))" by (simp add: sint_bytes_def)
    then show ?thesis using signed_of_neg [of 8 i] 3 by (simp only: append_Cons read_number) simp
  next
    case 4
    then have "sint_bytes i = 0xd1 # be_bytes 2 (nat (i mod 2 ^ 16))" by (simp add: sint_bytes_def)
    then show ?thesis using signed_of_neg [of 16 i] 4 by (simp only: append_Cons read_number) simp
  next
    case 5
    then have "sint_bytes i = 0xd2 # be_bytes 4 (nat (i mod 2 ^ 32))" by (simp add: sint_bytes_def)
    then show ?thesis using signed_of_neg [of 32 i] 5 by (simp only: append_Cons read_number) simp
  next
    case 6
    then have "sint_bytes i = 0xd3 # be_bytes 8 (nat (i mod 2 ^ 64))" by (simp add: sint_bytes_def)
    then show ?thesis using signed_of_neg [of 64 i] 6 assms by (simp only: append_Cons read_number) simp
  qed
qed

lemma ref_read_write_uint: "ref_read_u64 (ref_write_uint v @ rest) = Some (v, rest)"
proof -
  have v: "word_of_int (int (unat v)) = v" by simp
  have lt: "int (unat v) < 2 ^ 64" using unat_u64_lt [of v] by (metis of_nat_less_iff of_nat_numeral of_nat_power)
  show ?thesis
    unfolding ref_read_u64_def ref_write_uint_def read_uint_bytes [OF unat_u64_lt]
    using v lt by simp
qed

lemma ref_read_write_sint: "ref_read_i64 (ref_write_sint v @ rest) = Some (v, rest)"
  using read_sint_bytes [OF sint_i64_range [of v]] sint_i64_range [of v]
  by (simp add: ref_read_i64_def ref_write_sint_def)

interpretation ref_int: rmp_int ref_rmp
  by unfold_locales
    (simp_all add: ref_rmp_def ref_write_uint_def ref_write_sint_def uint_bytes_value sint_bytes_value
      ref_read_write_uint [unfolded ref_write_uint_def] ref_read_write_sint [unfolded ref_write_sint_def])

lemma be_bytes_one: "be_bytes 1 n = [of_nat n]" "be_bytes (Suc 0) n = [of_nat n]"
  by (simp_all add: be_bytes.simps)

lemma head_bytes_map: "n < 2 ^ 32 \<Longrightarrow> mp_map_head (head_bytes 16 0x80 None 0xde 0xdf n) n"
  unfolding head_bytes_def be_bytes_one
  by (auto intro!: mp_map_head.fixmap_head mp_map_head.map_head simp del: of_nat_add)

lemma head_bytes_array: "n < 2 ^ 32 \<Longrightarrow> mp_array_head (head_bytes 16 0x90 None 0xdc 0xdd n) n"
  unfolding head_bytes_def be_bytes_one
  by (auto intro!: mp_array_head.fixarray_head mp_array_head.array_head simp del: of_nat_add)

lemma head_bytes_str:
  assumes "length p < 2 ^ 32"
  shows "mp_node (head_bytes 32 0xa0 (Some 0xd9) 0xda 0xdb (length p) @ p) 0"
proof (cases "length p < 32")
  case True
  then have "mp_node (of_nat (0xa0 + length p) # p) 0"
    by (intro mp_node.fixstr) (simp_all del: of_nat_add)
  then show ?thesis using True by (simp add: head_bytes_def be_bytes_one del: of_nat_add)
next
  case False
  have "(m, w) \<in> {(0xd9, 1), (0xda, 2), (0xdb, 4)} \<Longrightarrow> length p < 256 ^ w \<Longrightarrow>
      mp_node (m # be_bytes w (length p) @ p) 0" for m w
    by (intro mp_node.str_or_bin) auto
  then show ?thesis using False assms unfolding head_bytes_def by simp
qed

lemma read_head_bytes_str:
  assumes "n < 2 ^ 32"
  shows "ref_read_str_len (head_bytes 32 0xa0 (Some 0xd9) 0xda 0xdb n @ rest) = Some (of_nat n, rest)"
proof (cases "n < 32")
  case True
  define m :: u8 where "m = of_nat (0xa0 + n)"
  have m: "unat m = 0xa0 + n" using True unfolding m_def by (simp del: of_nat_add)
  then have "0xa0 \<le> m" "m < 0xc0" using True by (simp_all add: word_less_nat_alt word_le_nat_alt)
  then show ?thesis
    using True m by (simp add: head_bytes_def be_bytes_one m_def [symmetric] del: of_nat_add)
next
  case False
  then show ?thesis using assms unfolding head_bytes_def by simp
qed

lemma ext_meta_node:
  assumes "length p = n" "n < 2 ^ 32"
  shows "mp_node (ref_ext_meta n t @ p) 0"
proof -
  have f: "(m, length p) \<in> {(0xd4, 1), (0xd5, 2), (0xd6, 4), (0xd7, 8), (0xd8, 16)} \<Longrightarrow>
      mp_node (m # t # p) 0" for m by (rule mp_node.fixext)
  have e: "(m, w) \<in> {(0xc7, 1), (0xc8, 2), (0xc9, 4)} \<Longrightarrow> length p < 256 ^ w \<Longrightarrow>
      mp_node (m # be_bytes w (length p) @ t # p) 0" for m w
    by (intro mp_node.ext) auto
  show ?thesis using assms f e unfolding ref_ext_meta_def by simp
qed

interpretation ref_full: rmp_contract ref_rmp
proof unfold_locales
  fix n :: u32 and p :: bytes and t :: u8 and s :: string and b :: bool and x :: u64 and rest :: bytes
  show "mp_map_head (write_map_len ref_rmp n) (unat n)"
    using head_bytes_map [OF unat_u32_lt] by (simp add: ref_rmp_def ref_write_map_len_def)
  show "mp_array_head (write_array_len ref_rmp n) (unat n)"
    using head_bytes_array [OF unat_u32_lt] by (simp add: ref_rmp_def ref_write_array_len_def)
  show "length p = unat n \<Longrightarrow> mp_node (write_str_len ref_rmp n @ p) 0"
    using head_bytes_str [of p] unat_u32_lt [of n] by (simp add: ref_rmp_def ref_write_str_len_def)
  show "length s < 2 ^ 32 \<Longrightarrow>
      write_str ref_rmp s = write_str_len ref_rmp (of_nat (length s)) @ str_bytes s"
    by (simp add: ref_rmp_def ref_write_str_def)
  show "mp_node (write_bool ref_rmp b) 0"
    by (simp add: ref_rmp_def mp_node.nil_or_bool)
  show "mp_node (write_f64 ref_rmp x) 0"
    by (simp add: ref_rmp_def mp_node.number)
  show "length p = unat n \<Longrightarrow> mp_node (write_ext_meta ref_rmp n t @ p) 0"
    using ext_meta_node [OF _ unat_u32_lt] by (simp add: ref_rmp_def ref_write_ext_meta_def)
  show "read_str_len ref_rmp (write_str_len ref_rmp n @ rest) = Some (n, rest)"
    using read_head_bytes_str [OF unat_u32_lt [of n]]
    by (simp add: ref_rmp_def ref_write_str_len_def)
qed

interpretation ref_access: rmpv_access ref_rmpv
proof
  show "as_u64 ref_rmpv (VInteger (uint n)) = Some n" for n :: u64
    using unsigned_less [of n, where 'a = int] by (simp add: ref_rmpv_def)
  show "as_str ref_rmpv (VString (str_bytes s)) = Some s" if "utf8_valid (str_bytes s)" for s
    using that by (simp add: ref_rmpv_def from_utf8_def)
qed (simp_all add: ref_rmpv_def)

end
