(* ===== verification/Msgpack.thy ===== *)
theory Msgpack
  imports Errors Rmp_Reference
begin

text \<open>
  \<^verbatim>\<open>src/src/msgpack.rs\<close>: the length of the value at the front of a buffer, and the cursor that
  walks the entries of a map without materialising it.  \<open>value_len\<close> is proved equal to
  the grammar of \<open>Mp_Format\<close>; the cursor is proved to visit exactly the entries of a
  well-formed map, never to leave the buffer and never to panic.
\<close>

section \<open>Lengths\<close>

definition truncated :: error where
  "truncated = Protocol ''MessagePack value is truncated''"

definition read_len :: "bytes \<Rightarrow> nat \<Rightarrow> nat \<Rightarrow> nat result" where
  "read_len buf pos width = map_ok be_nat (ok_or (get_range buf pos (pos + width)) truncated)"

definition length_prefix_width :: "u8 \<Rightarrow> nat" where
  "length_prefix_width marker =
    (if marker \<in> {0xc4, 0xc7, 0xd9} then 1
     else if marker \<in> {0xc5, 0xc8, 0xda, 0xdc, 0xde} then 2
     else if marker \<in> {0xc6, 0xc9, 0xdb, 0xdd, 0xdf} then 4
     else 0)"

text \<open>The \<open>match marker\<close> of the loop: bytes of payload, and values still to come.\<close>

definition marker_shape :: "bytes \<Rightarrow> nat \<Rightarrow> u8 \<Rightarrow> (nat \<times> nat) result" where
  "marker_shape buf pos marker =
    (if marker \<le> 0x7f \<or> marker = 0xc0 \<or> marker = 0xc2 \<or> marker = 0xc3 \<or> 0xe0 \<le> marker then Ok (0, 0)
     else if 0x80 \<le> marker \<and> marker \<le> 0x8f then Ok (0, 2 * unat (marker AND 0x0f))
     else if 0x90 \<le> marker \<and> marker \<le> 0x9f then Ok (0, unat (marker AND 0x0f))
     else if 0xa0 \<le> marker \<and> marker \<le> 0xbf then Ok (unat (marker AND 0x1f), 0)
     else if marker = 0xc1 then Err (Protocol ''reserved MessagePack marker 0xc1'')
     else if marker = 0xc4 \<or> marker = 0xd9 then map_ok (\<lambda>n. (n, 0)) (read_len buf pos 1)
     else if marker = 0xc5 \<or> marker = 0xda then map_ok (\<lambda>n. (n, 0)) (read_len buf pos 2)
     else if marker = 0xc6 \<or> marker = 0xdb then map_ok (\<lambda>n. (n, 0)) (read_len buf pos 4)
     else if marker = 0xc7 then map_ok (\<lambda>n. (1 + n, 0)) (read_len buf pos 1)
     else if marker = 0xc8 then map_ok (\<lambda>n. (1 + n, 0)) (read_len buf pos 2)
     else if marker = 0xc9 then map_ok (\<lambda>n. (1 + n, 0)) (read_len buf pos 4)
     else if marker = 0xca \<or> marker = 0xcc \<or> marker = 0xd0 then Ok (if marker = 0xca then 4 else 1, 0)
     else if marker = 0xcb \<or> marker = 0xcd \<or> marker = 0xd1 then Ok (if marker = 0xcb then 8 else 2, 0)
     else if marker = 0xce \<or> marker = 0xd2 then Ok (4, 0)
     else if marker = 0xcf \<or> marker = 0xd3 then Ok (8, 0)
     else if marker = 0xd4 then Ok (2, 0)
     else if marker = 0xd5 then Ok (3, 0)
     else if marker = 0xd6 then Ok (5, 0)
     else if marker = 0xd7 then Ok (9, 0)
     else if marker = 0xd8 then Ok (17, 0)
     else if marker = 0xdc then map_ok (\<lambda>n. (0, n)) (read_len buf pos 2)
     else if marker = 0xdd then map_ok (\<lambda>n. (0, n)) (read_len buf pos 4)
     else if marker = 0xde then map_ok (\<lambda>n. (0, 2 * n)) (read_len buf pos 2)
     else map_ok (\<lambda>n. (0, 2 * n)) (read_len buf pos 4))"

text \<open>The body of the \<open>while pending > 0\<close> loop: the next position and pending count.\<close>

definition value_len_step :: "bytes \<Rightarrow> nat \<Rightarrow> nat \<Rightarrow> (nat \<times> nat) result" where
  "value_len_step buf pos pending =
    and_then (ok_or (get buf pos) truncated) (\<lambda>marker.
    and_then (marker_shape buf (pos + 1) marker) (\<lambda>(payload, children).
    and_then (ok_or (checked_add_usize (pos + 1 + length_prefix_width marker) payload) truncated) (\<lambda>pos'.
    if pos' > length buf then Err truncated
    else map_ok (\<lambda>pending'. (pos', pending'))
           (ok_or (checked_add_usize (pending - 1) children) truncated))))"

lemma value_len_step_progress:
  "value_len_step buf pos pending = Ok (pos', pending') \<Longrightarrow> pos < pos' \<and> pos' \<le> length buf"
  by (auto simp: value_len_step_def checked_add_usize_def split: if_splits)

function value_len_loop :: "bytes \<Rightarrow> nat \<Rightarrow> nat \<Rightarrow> nat result" where
  "value_len_loop buf pos pending =
    (if pending = 0 then Ok pos
     else case value_len_step buf pos pending of
       Ok (pos', pending') \<Rightarrow> value_len_loop buf pos' pending'
     | Err e \<Rightarrow> Err e
     | Panic \<Rightarrow> Panic)"
  by pat_completeness auto
termination
  by (relation "measure (\<lambda>(buf, pos, pending). length buf - pos)")
    (auto dest: value_len_step_progress)

declare value_len_loop.simps [simp del]

definition value_len :: "bytes \<Rightarrow> nat result" where
  "value_len buf = value_len_loop buf 0 1"

section \<open>The map cursor\<close>

record map_cursor =
  mc_buf :: bytes
  mc_pos :: nat
  mc_remaining :: nat

definition map_cursor_new :: "bytes \<Rightarrow> (map_cursor \<times> nat) result" where
  "map_cursor_new buf =
    and_then (value_len buf) (\<lambda>total.
    and_then (expect (get buf 0)) (\<lambda>marker.
    and_then
      (if 0x80 \<le> marker \<and> marker \<le> 0x8f then Ok (unat (marker AND 0x0f), 1)
       else if marker = 0xde then map_ok (\<lambda>n. (n, 3)) (read_len buf 1 2)
       else if marker = 0xdf then map_ok (\<lambda>n. (n, 5)) (read_len buf 1 4)
       else Err (Protocol ''expected a MessagePack map'')) (\<lambda>(remaining, header).
    Ok (\<lparr>mc_buf = buf, mc_pos = header, mc_remaining = remaining\<rparr>, total))))"

definition read_uint :: "rmp \<Rightarrow> bytes \<Rightarrow> u64 result" where
  "read_uint R v =
    map_ok fst (ok_or (read_int_u64 R v) (Protocol ''expected an unsigned integer''))"

definition read_str :: "rmp \<Rightarrow> bytes \<Rightarrow> string result" where
  "read_str R v =
    and_then (ok_or (read_str_len R v) (Protocol ''expected a string'')) (\<lambda>(len, cursor).
    and_then (ok_or (get_range cursor 0 (unat len)) (Protocol ''string is truncated'')) (\<lambda>bytes.
    ok_or (from_utf8 bytes) (Protocol ''string is not UTF-8'')))"

type_synonym entry = "u64 \<times> nat \<times> bytes"

definition map_cursor_next :: "rmp \<Rightarrow> map_cursor \<Rightarrow> (map_cursor \<times> entry option) result" where
  "map_cursor_next R c =
    (if mc_remaining c = 0 then Ok (c, None)
     else
      and_then (slice_range (mc_buf c) (mc_pos c) (length (mc_buf c))) (\<lambda>tail.
      and_then (value_len tail) (\<lambda>key_len.
      and_then (slice_range (mc_buf c) (mc_pos c) (mc_pos c + key_len)) (\<lambda>key_bytes.
      and_then (read_uint R key_bytes) (\<lambda>key.
      and_then (slice_range (mc_buf c) (mc_pos c + key_len) (length (mc_buf c))) (\<lambda>tail'.
      and_then (value_len tail') (\<lambda>val_len.
      and_then (slice_range (mc_buf c) (mc_pos c + key_len) (mc_pos c + key_len + val_len)) (\<lambda>val.
      Ok (c\<lparr>mc_pos := mc_pos c + key_len + val_len, mc_remaining := mc_remaining c - 1\<rparr>,
          Some (key, mc_pos c + key_len, val))))))))))"

text \<open>
  \<open>while let Some(entry) = cursor.next()? { body }\<close>, with the loop's local variables as the
  state \<open>s\<close>.
\<close>

lemma map_cursor_next_remaining:
  "map_cursor_next R c = Ok (c', Some e) \<Longrightarrow> mc_remaining c' < mc_remaining c"
  by (auto simp: map_cursor_next_def split: if_splits)

function walk :: "rmp \<Rightarrow> ('s \<Rightarrow> entry \<Rightarrow> 's result) \<Rightarrow> map_cursor \<Rightarrow> 's \<Rightarrow> 's result" where
  "walk R body c s =
    (case map_cursor_next R c of
       Ok (c', None) \<Rightarrow> Ok s
     | Ok (c', Some e) \<Rightarrow> (case body s e of
           Ok s' \<Rightarrow> walk R body c' s'
         | Err err \<Rightarrow> Err err
         | Panic \<Rightarrow> Panic)
     | Err err \<Rightarrow> Err err
     | Panic \<Rightarrow> Panic)"
  by pat_completeness auto
termination
  by (relation "measure (\<lambda>(R, body, c, s). mc_remaining c)")
    (auto dest: map_cursor_next_remaining)

declare walk.simps [simp del]

section \<open>The shape of a marker, against the grammar\<close>

lemma unat_and_15: "unat (m AND 15 :: u8) = unat m mod 16"
  using arg_cong [OF take_bit_eq_mask [of 4 m], of unat]
  by (simp add: mask_eq_exp_minus_1 take_bit_eq_mod unat_mod)

lemma unat_and_31: "unat (m AND 31 :: u8) = unat m mod 32"
  using arg_cong [OF take_bit_eq_mask [of 5 m], of unat]
  by (simp add: mask_eq_exp_minus_1 take_bit_eq_mod unat_mod)

lemma base_plus_mod: "k * b \<le> x \<Longrightarrow> x \<le> k * b + (b - 1) \<Longrightarrow> 0 < b \<Longrightarrow> x = k * b + x mod (b :: nat)"
proof -
  assume a: "k * b \<le> x" "x \<le> k * b + (b - 1)" "0 < b"
  then obtain r where r: "x = k * b + r" by (metis le_Suc_ex)
  with a have "r < b" by linarith
  then show ?thesis using r by simp
qed

lemma read_len_Ok: "read_len buf pos w = Ok n \<longleftrightarrow> pos + w \<le> length buf \<and> n = be_nat (take w (drop pos buf))"
  by (auto simp: read_len_def get_range_def)

lemma read_len_no_panic [simp]: "read_len buf pos w \<noteq> Panic"
  by (simp add: read_len_def)

lemma be_bytes_prefix: "w \<le> length t \<Longrightarrow> be_bytes w (be_nat (take w t)) = take w t"
  using be_bytes_be_nat [of "take w t"] by (simp add: min_absorb2)

lemma be_nat_prefix_less: "w \<le> length t \<Longrightarrow> be_nat (take w t) < 256 ^ w"
  using be_nat_less [of "take w t"] by (simp add: min_absorb2)

lemma node_sized:
  assumes "(m, w) \<in> {(0xc4, 1), (0xc5, 2), (0xc6, 4), (0xd9, 1), (0xda, 2), (0xdb, 4)}"
    and "w + be_nat (take w t) \<le> length t"
  shows "mp_node (m # take (w + be_nat (take w t)) t) 0"
proof -
  let ?p = "take (be_nat (take w t)) (drop w t)"
  have "length ?p = be_nat (take w t)" using assms(2) by simp
  moreover have "length ?p < 256 ^ w" using assms(2) be_nat_prefix_less [of w t] by simp
  ultimately show ?thesis
    using mp_node.str_or_bin [OF assms(1), of ?p] assms(2) by (simp add: be_bytes_prefix take_add)
qed

lemma node_ext:
  assumes "(m, w) \<in> {(0xc7, 1), (0xc8, 2), (0xc9, 4)}"
    and "w + (1 + be_nat (take w t)) \<le> length t"
  shows "mp_node (m # take (w + (1 + be_nat (take w t))) t) 0"
proof -
  let ?n = "be_nat (take w t)"
  obtain x r where d: "drop w t = x # r" using assms(2) by (cases "drop w t") auto
  then have len: "length r = length t - w - 1" by (metis length_drop length_tl list.sel(3))
  let ?p = "take ?n r"
  have "length ?p = ?n" using assms(2) len by simp
  moreover have "length ?p < 256 ^ w" using assms(2) len be_nat_prefix_less [of w t] by simp
  ultimately show ?thesis
    using mp_node.ext [OF assms(1), of ?p x] assms(2) d
    by (simp add: be_bytes_prefix take_add [of w "Suc _"] flip: add_Suc_right)
qed

lemma node_array:
  assumes "(m, w) \<in> {(0xdc, 2), (0xdd, 4)}" and "w \<le> length t"
  shows "mp_node (m # take w t) (be_nat (take w t))"
  using mp_node.array [OF assms(1) be_nat_prefix_less [OF assms(2)]] assms(2) by (simp add: be_bytes_prefix)

lemma node_map:
  assumes "(m, w) \<in> {(0xde, 2), (0xdf, 4)}" and "w \<le> length t"
  shows "mp_node (m # take w t) (2 * be_nat (take w t))"
  using mp_node.map [OF assms(1) be_nat_prefix_less [OF assms(2)]] assms(2) by (simp add: be_bytes_prefix)

lemma node_number:
  assumes "(m, k) \<in> {(0xca, 4), (0xcb, 8), (0xcc, 1), (0xcd, 2), (0xce, 4), (0xcf, 8),
     (0xd0, 1), (0xd1, 2), (0xd2, 4), (0xd3, 8)}" and "k \<le> length t"
  shows "mp_node (m # take k t) 0"
  using assms by (intro mp_node.number) (simp add: min_absorb2)

lemma node_fixext:
  assumes "(m, k) \<in> {(0xd4, 1), (0xd5, 2), (0xd6, 4), (0xd7, 8), (0xd8, 16)}" and "Suc k \<le> length t"
  shows "mp_node (m # take (Suc k) t) 0"
proof -
  obtain x r where t: "t = x # r" using assms(2) by (cases t) auto
  have "mp_node (m # x # take k r) 0"
    using assms t by (intro mp_node.fixext) (simp add: min_absorb2)
  then show ?thesis using t by simp
qed

lemma node_fixstr:
  assumes "0xa0 \<le> m" "m \<le> 0xbf" "unat (m AND 0x1f) \<le> length t"
  shows "mp_node (m # take (unat (m AND 0x1f)) t) 0"
proof -
  from assms(1,2) have "160 \<le> unat m" "unat m \<le> 191" by (simp_all add: word_le_nat_alt)
  then have "unat m = 0xa0 + unat m mod 32" by (rule base_plus_mod [of 5 32, simplified])
  then show ?thesis using assms(3)
    by (intro mp_node.fixstr) (simp_all add: unat_and_31 min_absorb2)
qed

lemma node_fixmap: "0x80 \<le> m \<Longrightarrow> m \<le> 0x8f \<Longrightarrow> mp_node [m] (2 * unat (m AND 0x0f))"
proof (rule mp_node.fixmap)
  assume "0x80 \<le> m" "m \<le> 0x8f"
  then have "128 \<le> unat m" "unat m \<le> 143" by (simp_all add: word_le_nat_alt)
  then show "unat m = 0x80 + unat (m AND 0x0f)" unfolding unat_and_15
    by (rule base_plus_mod [of 8 16, simplified])
qed (simp add: unat_and_15)

lemma node_fixarray: "0x90 \<le> m \<Longrightarrow> m \<le> 0x9f \<Longrightarrow> mp_node [m] (unat (m AND 0x0f))"
proof (rule mp_node.fixarray)
  assume "0x90 \<le> m" "m \<le> 0x9f"
  then have "144 \<le> unat m" "unat m \<le> 159" by (simp_all add: word_le_nat_alt)
  then show "unat m = 0x90 + unat (m AND 0x0f)" unfolding unat_and_15
    by (rule base_plus_mod [of 9 16, simplified])
qed (simp add: unat_and_15)

lemma node_single:
  "m \<le> 0x7f \<or> m = 0xc0 \<or> m = 0xc2 \<or> m = 0xc3 \<or> 0xe0 \<le> m \<Longrightarrow> mp_node [m] 0"
  by (auto intro: mp_node.positive_fixint mp_node.negative_fixint mp_node.nil_or_bool simp: word_le_nat_alt)

abbreviation sized_markers :: "(u8 \<times> nat) set" where
  "sized_markers \<equiv> {(0xc4, 1), (0xc5, 2), (0xc6, 4), (0xd9, 1), (0xda, 2), (0xdb, 4)}"
abbreviation ext_markers :: "(u8 \<times> nat) set" where
  "ext_markers \<equiv> {(0xc7, 1), (0xc8, 2), (0xc9, 4)}"
abbreviation number_markers :: "(u8 \<times> nat) set" where
  "number_markers \<equiv> {(0xca, 4), (0xcb, 8), (0xcc, 1), (0xcd, 2), (0xce, 4), (0xcf, 8),
     (0xd0, 1), (0xd1, 2), (0xd2, 4), (0xd3, 8)}"
abbreviation fixext_markers :: "(u8 \<times> nat) set" where
  "fixext_markers \<equiv> {(0xd4, 1), (0xd5, 2), (0xd6, 4), (0xd7, 8), (0xd8, 16)}"

abbreviation array_markers :: "(u8 \<times> nat) set" where
  "array_markers \<equiv> {(0xdc, 2), (0xdd, 4)}"
abbreviation map_markers :: "(u8 \<times> nat) set" where
  "map_markers \<equiv> {(0xde, 2), (0xdf, 4)}"

lemma upper_markers:
  assumes "0xc0 \<le> unat (m :: u8)" and "unat m < 0xe0"
  shows "m \<in> {0xc0, 0xc1, 0xc2, 0xc3, 0xc4, 0xc5, 0xc6, 0xc7, 0xc8, 0xc9, 0xca, 0xcb, 0xcc, 0xcd, 0xce, 0xcf,
              0xd0, 0xd1, 0xd2, 0xd3, 0xd4, 0xd5, 0xd6, 0xd7, 0xd8, 0xd9, 0xda, 0xdb, 0xdc, 0xdd, 0xde, 0xdf}"
proof -
  have "unat m \<in> {0xc0..<0xe0}" using assms by simp
  then show ?thesis
    by (simp add: atLeastLessThan_nat_numeral word_unat_eq_iff del: atLeastLessThan_iff) blast
qed

lemma marker_cases:
  fixes m :: u8
  obtains (single) "m \<le> 0x7f \<or> m = 0xc0 \<or> m = 0xc2 \<or> m = 0xc3 \<or> 0xe0 \<le> m"
    | (fixmap) "0x80 \<le> m" "m \<le> 0x8f" | (fixarray) "0x90 \<le> m" "m \<le> 0x9f" | (fixstr) "0xa0 \<le> m" "m \<le> 0xbf"
    | (reserved) "m = 0xc1"
    | (sized) w where "(m, w) \<in> sized_markers"
    | (ext) w where "(m, w) \<in> ext_markers"
    | (number) k where "(m, k) \<in> number_markers"
    | (fixext) k where "(m, k) \<in> fixext_markers"
    | (array) w where "(m, w) \<in> array_markers"
    | (map) w where "(m, w) \<in> map_markers"
proof (cases "0xc0 \<le> unat m \<and> unat m < 0xe0")
  case True
  then show ?thesis
    using upper_markers [of m] that by (simp only: insert_iff empty_iff) (elim disjE FalseE conjE; metis)
next
  case False
  have "unat m \<le> 0x7f \<or> 0xe0 \<le> unat m \<or> (0x80 \<le> unat m \<and> unat m \<le> 0x8f)
     \<or> (0x90 \<le> unat m \<and> unat m \<le> 0x9f) \<or> (0xa0 \<le> unat m \<and> unat m \<le> 0xbf)"
    using False by linarith
  then show ?thesis
    using single fixmap fixarray fixstr by (simp only: word_le_nat_alt) auto
qed

lemma shape_single:
  assumes "m \<le> 0x7f \<or> m = 0xc0 \<or> m = 0xc2 \<or> m = 0xc3 \<or> 0xe0 \<le> m"
  shows "marker_shape buf pos m = Ok (0, 0) \<and> length_prefix_width m = 0"
proof
  show "marker_shape buf pos m = Ok (0, 0)"
    unfolding marker_shape_def by (rule if_P) (use assms in blast)
  show "length_prefix_width m = 0"
    using assms by (auto simp: length_prefix_width_def)
qed

lemma shape_fixmap:
  assumes "0x80 \<le> m" "m \<le> 0x8f"
  shows "marker_shape buf pos m = Ok (0, 2 * unat (m AND 0x0f)) \<and> length_prefix_width m = 0"
proof -
  have "\<not> m \<le> 0x7f" "\<not> 0xe0 \<le> m" using assms by (simp_all add: word_le_nat_alt)
  then show ?thesis using assms by (auto simp: marker_shape_def length_prefix_width_def)
qed

lemma shape_fixarray:
  assumes "0x90 \<le> m" "m \<le> 0x9f"
  shows "marker_shape buf pos m = Ok (0, unat (m AND 0x0f)) \<and> length_prefix_width m = 0"
proof -
  have "\<not> m \<le> 0x7f" "\<not> 0xe0 \<le> m" "\<not> m \<le> 0x8f" using assms by (simp_all add: word_le_nat_alt)
  then show ?thesis using assms by (auto simp: marker_shape_def length_prefix_width_def)
qed

lemma shape_fixstr:
  assumes "0xa0 \<le> m" "m \<le> 0xbf"
  shows "marker_shape buf pos m = Ok (unat (m AND 0x1f), 0) \<and> length_prefix_width m = 0"
proof -
  have "\<not> m \<le> 0x7f" "\<not> 0xe0 \<le> m" "\<not> m \<le> 0x8f" "\<not> m \<le> 0x9f" using assms by (simp_all add: word_le_nat_alt)
  then show ?thesis using assms by (auto simp: marker_shape_def length_prefix_width_def)
qed

lemma shape_reserved:
  "marker_shape buf pos 0xc1 = Err (Protocol ''reserved MessagePack marker 0xc1'')"
  by (simp add: marker_shape_def)

lemma shape_sized: "(m, w) \<in> sized_markers \<Longrightarrow>
  marker_shape buf pos m = map_ok (\<lambda>n. (n, 0)) (read_len buf pos w) \<and> length_prefix_width m = w"
  by (simp only: insert_iff empty_iff prod.inject, elim disjE FalseE conjE)
    (hypsubst, simp add: marker_shape_def length_prefix_width_def)+

lemma shape_ext: "(m, w) \<in> ext_markers \<Longrightarrow>
  marker_shape buf pos m = map_ok (\<lambda>n. (1 + n, 0)) (read_len buf pos w) \<and> length_prefix_width m = w"
  by (simp only: insert_iff empty_iff prod.inject, elim disjE FalseE conjE)
    (hypsubst, simp add: marker_shape_def length_prefix_width_def)+

lemma shape_number: "(m, k) \<in> number_markers \<Longrightarrow>
  marker_shape buf pos m = Ok (k, 0) \<and> length_prefix_width m = 0"
  by (simp only: insert_iff empty_iff prod.inject, elim disjE FalseE conjE)
    (hypsubst, simp add: marker_shape_def length_prefix_width_def)+

lemma shape_fixext: "(m, k) \<in> fixext_markers \<Longrightarrow>
  marker_shape buf pos m = Ok (Suc k, 0) \<and> length_prefix_width m = 0"
  by (simp only: insert_iff empty_iff prod.inject, elim disjE FalseE conjE)
    (hypsubst, simp add: marker_shape_def length_prefix_width_def)+

lemma shape_array: "(m, w) \<in> array_markers \<Longrightarrow>
  marker_shape buf pos m = map_ok (\<lambda>n. (0, n)) (read_len buf pos w) \<and> length_prefix_width m = w"
  by (simp only: insert_iff empty_iff prod.inject, elim disjE FalseE conjE)
    (hypsubst, simp add: marker_shape_def length_prefix_width_def)+

lemma shape_map: "(m, w) \<in> map_markers \<Longrightarrow>
  marker_shape buf pos m = map_ok (\<lambda>n. (0, 2 * n)) (read_len buf pos w) \<and> length_prefix_width m = w"
  by (simp only: insert_iff empty_iff prod.inject, elim disjE FalseE conjE)
    (hypsubst, simp add: marker_shape_def length_prefix_width_def)+

lemma marker_shape_node:
  assumes "drop pos buf = marker # t"
    and "marker_shape buf (pos + 1) marker = Ok (payload, children)"
    and "length_prefix_width marker + payload \<le> length t"
  shows "mp_node (marker # take (length_prefix_width marker + payload) t) children"
proof -
  have t: "drop (Suc pos) buf = t" using assms(1) by (metis drop_Suc drop_tl list.sel(3))
  note a = assms(2,3)
  show ?thesis
  proof (cases marker rule: marker_cases)
    case single
    with a show ?thesis by (simp add: shape_single node_single)
  next
    case fixmap
    with a show ?thesis using node_fixmap by (auto simp: shape_fixmap)
  next
    case fixarray
    with a show ?thesis using node_fixarray by (auto simp: shape_fixarray)
  next
    case fixstr
    with a show ?thesis using node_fixstr [of marker t] by (auto simp: shape_fixstr)
  next
    case reserved
    with a show ?thesis by (simp add: shape_reserved)
  next
    case (sized w)
    from a have "payload = be_nat (take w t)" "children = 0"
      by (simp_all add: shape_sized [OF sized] read_len_Ok t)
    then show ?thesis using a node_sized [OF sized, of t] by (simp add: shape_sized [OF sized])
  next
    case (ext w)
    from a have "payload = 1 + be_nat (take w t)" "children = 0"
      by (simp_all add: shape_ext [OF ext] read_len_Ok t)
    then show ?thesis using a node_ext [OF ext, of t] by (simp add: shape_ext [OF ext])
  next
    case (number k)
    from a have "payload = k" "children = 0" by (simp_all add: shape_number [OF number])
    then show ?thesis using a node_number [OF number, of t] by (simp add: shape_number [OF number])
  next
    case (fixext k)
    from a have "payload = Suc k" "children = 0" by (simp_all add: shape_fixext [OF fixext])
    then show ?thesis using a node_fixext [OF fixext, of t] by (simp add: shape_fixext [OF fixext])
  next
    case (array w)
    from a have "payload = 0" "children = be_nat (take w t)"
      by (simp_all add: shape_array [OF array] read_len_Ok t)
    then show ?thesis using a node_array [OF array, of t] by (simp add: shape_array [OF array])
  next
    case (map w)
    from a have "payload = 0" "children = 2 * be_nat (take w t)"
      by (simp_all add: shape_map [OF map] read_len_Ok t)
    then show ?thesis using a node_map [OF map, of t] by (simp add: shape_map [OF map])
  qed
qed

lemma mod_base: "n < b \<Longrightarrow> (k * b + n) mod b = (n :: nat)"
  by simp

text \<open>Conversely, the code reads the shape of every node the grammar has.\<close>

lemma node_marker_shape:
  assumes "mp_node h c" and "drop pos buf = h @ rest"
  shows "\<exists>payload. marker_shape buf (pos + 1) (hd h) = Ok (payload, c) \<and>
           length h = 1 + length_prefix_width (hd h) + payload"
proof -
  have t: "drop (Suc pos) buf = tl h @ rest"
    using assms by (metis drop_Suc drop_tl mp_node_nonempty tl_append2)
  have len: "length buf = pos + length h + length rest" if "h \<noteq> []"
    using arg_cong [OF assms(2), of length] that by (cases "pos \<le> length buf") auto
  have rl: "read_len buf (pos + 1) w = Ok n" if "tl h = be_bytes w n @ p" "n < 256 ^ w" for w n p
    using that t len mp_node_nonempty [OF assms(1)] arg_cong [OF that(1), of length]
    by (cases h) (auto simp: read_len_Ok byte_simps)
  show ?thesis
    using assms(1)
  proof cases
    case (positive_fixint m)
    then show ?thesis using shape_single [of m] by (auto simp: word_less_nat_alt word_le_nat_alt)
  next
    case (negative_fixint m)
    then show ?thesis using shape_single [of m] by (auto simp: word_le_nat_alt)
  next
    case (nil_or_bool m)
    then show ?thesis using shape_single [of m] by auto
  next
    case (number m p)
    then show ?thesis using shape_number [OF number(3)] by simp
  next
    case (fixstr p m)
    then have "0xa0 \<le> m" "m \<le> 0xbf" by (simp_all add: word_le_nat_alt)
    moreover have "unat (m AND 0x1f) = length p" using fixstr mod_base [of "length p" 32 5] by (simp add: unat_and_31)
    ultimately show ?thesis using shape_fixstr [of m] fixstr by simp
  next
    case (str_or_bin m w p)
    then show ?thesis using shape_sized [OF str_or_bin(3)] rl [of w "length p" p] by simp
  next
    case (ext m w p t)
    then show ?thesis using shape_ext [OF ext(3)] rl [of w "length p" "t # p"] by simp
  next
    case (fixext m p t)
    then show ?thesis using shape_fixext [OF fixext(3)] by simp
  next
    case (fixmap n m)
    then have "0x80 \<le> m" "m \<le> 0x8f" by (simp_all add: word_le_nat_alt)
    moreover have "unat (m AND 0x0f) = n" using fixmap mod_base [of n 16 8] by (simp add: unat_and_15)
    ultimately show ?thesis using shape_fixmap [of m] fixmap by simp
  next
    case (fixarray m)
    then have "0x90 \<le> m" "m \<le> 0x9f" by (simp_all add: word_le_nat_alt)
    moreover have "unat (m AND 0x0f) = c" using fixarray mod_base [of c 16 9] by (simp add: unat_and_15)
    ultimately show ?thesis using shape_fixarray [of m] fixarray by simp
  next
    case (array m w)
    then show ?thesis using shape_array [OF array(2)] rl [of w c "[]"] by simp
  next
    case (map m w n)
    then show ?thesis using shape_map [OF map(3)] rl [of w n "[]"] by simp
  qed
qed

lemma node_children_bound: "mp_node h c \<Longrightarrow> c \<le> 2 ^ 33 - 2"
  by (induction rule: mp_node.induct) auto

lemma marker_shape_no_panic: "marker_shape buf pos m \<noteq> Panic"
  unfolding marker_shape_def by (simp split: if_split)

lemma value_len_step_no_panic: "value_len_step buf pos pending \<noteq> Panic"
  by (auto simp: value_len_step_def and_then_eq_Panic marker_shape_no_panic split: prod.splits)

lemma value_len_step_node:
  assumes "value_len_step buf pos pending = Ok (pos', pending')"
  obtains h c where "mp_node h c" "take (pos' - pos) (drop pos buf) = h"
    "pos' = pos + length h" "pos' \<le> length buf" "pending' = pending - 1 + c"
proof -
  from assms obtain m payload children where
    m: "pos < length buf" "m = buf ! pos" and
    sh: "marker_shape buf (pos + 1) m = Ok (payload, children)" and
    pos': "pos' = pos + 1 + length_prefix_width m + payload" "pos' \<le> length buf" and
    pend: "pending' = pending - 1 + children"
    by (auto simp: value_len_step_def checked_add_usize_def split: if_splits prod.splits)
  obtain t where t: "drop pos buf = m # t"
    using m by (metis Cons_nth_drop_Suc)
  then have lt: "length t = length buf - pos - 1" by (metis length_drop length_tl list.sel(3))
  let ?h = "m # take (length_prefix_width m + payload) t"
  have "mp_node ?h children"
    using marker_shape_node [OF t sh] pos' lt m by simp
  moreover have "take (pos' - pos) (drop pos buf) = ?h" using t pos' by simp
  moreover have "length ?h = pos' - pos" using pos' lt m by simp
  ultimately show thesis using that pos' pend m by auto
qed

lemma node_value_len_step:
  assumes "mp_node h c" and "drop pos buf = h @ rest"
    and "pending - 1 + c < usize_bound" and "length buf < usize_bound"
  shows "value_len_step buf pos pending = Ok (pos + length h, pending - 1 + c)"
proof -
  from node_marker_shape [OF assms(1,2)] obtain payload where
    sh: "marker_shape buf (pos + 1) (hd h) = Ok (payload, c)" and
    lh: "length h = 1 + length_prefix_width (hd h) + payload" by blast
  have ne: "h \<noteq> []" using assms(1) by simp
  then have "pos < length buf" using assms(2) by (metis append_is_Nil_conv drop_eq_Nil leI)
  moreover from this have "buf ! pos = hd h"
    using assms(2) ne by (metis hd_append2 hd_drop_conv_nth)
  moreover have "pos + length h \<le> length buf"
    using arg_cong [OF assms(2), of length] \<open>pos < length buf\<close> by simp
  ultimately show ?thesis
    using sh lh assms(3,4) by (auto simp: value_len_step_def checked_add_usize_def get_def)
qed

text \<open>Soundness: what the loop accepts is a sequence of values of the grammar.\<close>

lemma value_len_loop_sound:
  "value_len_loop buf pos pending = Ok n \<Longrightarrow> pos \<le> length buf \<Longrightarrow>
     pos \<le> n \<and> n \<le> length buf \<and> mp_values pending (take (n - pos) (drop pos buf))"
proof (induction buf pos pending rule: value_len_loop.induct)
  case (1 buf pos pending)
  show ?case
  proof (cases "pending = 0")
    case True
    with 1 show ?thesis by (auto simp: value_len_loop.simps [of buf pos])
  next
    case False
    then obtain pos' pending' where
      step: "value_len_step buf pos pending = Ok (pos', pending')" and
      rest: "value_len_loop buf pos' pending' = Ok n"
      using "1.prems"(1)
      by (auto simp: value_len_loop.simps [of buf pos] split: outcome.splits)
    from step obtain h c where
      h: "mp_node h c" "take (pos' - pos) (drop pos buf) = h" "pos' = pos + length h"
      "pos' \<le> length buf" "pending' = pending - 1 + c"
      by (rule value_len_step_node)
    from "1.IH" [OF False step refl rest h(4)]
    have n: "pos' \<le> n" "n \<le> length buf" "mp_values pending' (take (n - pos') (drop pos' buf))"
      by auto
    have "take (n - pos) (drop pos buf) = h @ take (n - pos') (drop pos' buf)"
      using h n take_add [of "length h" "n - pos'" "drop pos buf"] by (simp add: add.commute)
    moreover have "mp_values (Suc (pending - 1)) (h @ take (n - pos') (drop pos' buf))"
      using mp_values_step [OF h(1)] n(3) h(5) by (simp add: add.commute)
    ultimately show ?thesis using False n h by simp
  qed
qed

text \<open>Completeness: every value of the grammar is consumed exactly.\<close>

abbreviation packet_bound :: nat where "packet_bound \<equiv> 2 ^ 31"

lemma value_len_loop_complete:
  "mp_value v \<Longrightarrow> (\<And>buf pos rest k. drop pos buf = v @ rest \<Longrightarrow> length buf \<le> packet_bound \<Longrightarrow>
      Suc k \<le> 1 + 8589934590 * pos \<Longrightarrow>
      value_len_loop buf pos (Suc k) = value_len_loop buf (pos + length v) k)"
  "mp_values n vs \<Longrightarrow> (\<And>buf pos rest k. drop pos buf = vs @ rest \<Longrightarrow> length buf \<le> packet_bound \<Longrightarrow>
      n + k \<le> 1 + 8589934590 * pos \<Longrightarrow>
      value_len_loop buf pos (n + k) = value_len_loop buf (pos + length vs) k)"
proof (induction rule: mp_value_mp_values.inducts)
  case (node h c cs)
  have c: "c \<le> 8589934590" using node_children_bound [OF node.hyps(1)] by simp
  have h0: "0 < length h" using mp_node_nonempty [OF node.hyps(1)] by simp
  have d: "drop pos buf = h @ cs @ rest" using node.prems(1) by simp
  have d': "drop (pos + length h) buf = cs @ rest"
    using arg_cong [OF d, of "drop (length h)"] by (simp add: add.commute)
  have "pos + length h \<le> length buf"
    using arg_cong [OF d, of length] h0 by (cases "pos \<le> length buf") auto
  moreover have "length buf \<le> 2147483648" using node.prems(2) by simp
  moreover have l: "c + k \<le> 1 + 8589934590 * (pos + length h)"
  proof -
    obtain l where "length h = Suc l" using h0 by (cases "length h") auto
    then show ?thesis using c node.prems(3) by simp
  qed
  ultimately have "c + k < 18446744073709551616" "length buf < 18446744073709551616"
    by auto
  with l have lim: "c + k \<le> 1 + 8589934590 * (pos + length h)" "c + k < usize_bound" "length buf < usize_bound"
    by simp_all
  have "value_len_loop buf pos (Suc k) = value_len_loop buf (pos + length h) (c + k)"
    using node_value_len_step [OF node.hyps(1) d, of "Suc k"] lim
    by (subst value_len_loop.simps) (simp add: add.commute)
  also have "\<dots> = value_len_loop buf (pos + length h + length cs) k"
    using node.IH [OF d' node.prems(2) lim(1)] .
  finally show ?case by (simp add: add.assoc)
next
  case none
  then show ?case by simp
next
  case (more v n vs)
  have d: "drop pos buf = v @ vs @ rest" using more.prems(1) by simp
  have d': "drop (pos + length v) buf = vs @ rest"
    using arg_cong [OF d, of "drop (length v)"] by (simp add: add.commute)
  have "value_len_loop buf pos (Suc (n + k)) = value_len_loop buf (pos + length v) (n + k)"
    using more.IH(1) [OF d more.prems(2)] more.prems(3) by simp
  also have "\<dots> = value_len_loop buf (pos + length v + length vs) k"
    using more.IH(2) [OF d' more.prems(2)] more.prems(3) by simp
  finally show ?case by (simp add: add.assoc)
qed

lemma value_len_loop_no_panic: "value_len_loop buf pos pending \<noteq> Panic"
proof (induction buf pos pending rule: value_len_loop.induct)
  case (1 buf pos pending)
  then show ?case
    using value_len_step_no_panic [of buf pos pending]
    by (subst value_len_loop.simps) (auto split: outcome.splits)
qed

lemma value_len_no_panic [simp]: "value_len buf \<noteq> Panic"
  by (simp add: value_len_def value_len_loop_no_panic)

lemma value_len_sound:
  assumes "value_len buf = Ok n"
  shows "n \<le> length buf" "mp_value (take n buf)"
  using value_len_loop_sound [of buf 0 1 n] assms by (simp_all add: value_len_def)

lemma value_len_value:
  assumes "mp_value v" "length (v @ rest) \<le> packet_bound"
  shows "value_len (v @ rest) = Ok (length v)"
  using value_len_loop_complete(1) [OF assms(1), of 0 "v @ rest" rest 0] assms(2)
  by (simp add: value_len_def value_len_loop.simps [of _ "length v"])

lemma value_len_correct:
  assumes "length buf \<le> packet_bound"
  shows "value_len buf = Ok n \<longleftrightarrow> n \<le> length buf \<and> mp_value (take n buf)"
proof
  assume "value_len buf = Ok n"
  then show "n \<le> length buf \<and> mp_value (take n buf)" by (simp add: value_len_sound)
next
  assume "n \<le> length buf \<and> mp_value (take n buf)"
  then show "value_len buf = Ok n"
    using value_len_value [of "take n buf" "drop n buf"] assms by (simp add: min_absorb2)
qed

lemma value_len_pos: "value_len buf = Ok n \<Longrightarrow> 0 < n"
  using value_len_sound [of buf n] mp_value_nonempty by fastforce

text \<open>No value is a proper prefix of another one.\<close>

lemma mp_value_prefix_free:
  assumes "mp_value v" "mp_value w" "v @ x = w @ y" "length (v @ x) \<le> packet_bound"
  shows "v = w"
  using value_len_value [of v x] value_len_value [of w y] assms by (metis append_eq_append_conv outcome.inject(1))

section \<open>Correctness of the cursor\<close>

definition cursor_inv :: "map_cursor \<Rightarrow> nat \<Rightarrow> bool" where
  "cursor_inv c fin \<longleftrightarrow> mc_pos c \<le> fin \<and> fin \<le> length (mc_buf c) \<and>
     length (mc_buf c) \<le> packet_bound \<and>
     mp_values (2 * mc_remaining c) (take (fin - mc_pos c) (drop (mc_pos c) (mc_buf c)))"

lemma node_fixmap_conv:
  assumes "mp_node h c" "0x80 \<le> hd h" "hd h \<le> 0x8f"
  shows "length h = 1 \<and> c = 2 * unat (hd h AND 0x0f)"
  using node_marker_shape [OF assms(1), of 0 h "[]"] shape_fixmap [OF assms(2,3)] by auto

lemma node_map_conv:
  assumes "mp_node h c" "(hd h, w) \<in> map_markers"
  shows "length h = 1 + w \<and> c = 2 * be_nat (take w (drop 1 h))"
  using node_marker_shape [OF assms(1), of 0 h "[]"] shape_map [OF assms(2)] by (auto simp: read_len_Ok)

lemma cursor_new_fixmap:
  "value_len buf = Ok fin \<Longrightarrow> get buf 0 = Some m \<Longrightarrow> 0x80 \<le> m \<Longrightarrow> m \<le> 0x8f \<Longrightarrow>
   map_cursor_new buf = Ok (\<lparr>mc_buf = buf, mc_pos = 1, mc_remaining = unat (m AND 0x0f)\<rparr>, fin)"
  by (simp add: map_cursor_new_def del: get_Some and_then_eq_Ok)

lemma cursor_new_map:
  assumes "value_len buf = Ok fin" "get buf 0 = Some m" "(m, w) \<in> map_markers" "read_len buf 1 w = Ok n"
  shows "map_cursor_new buf = Ok (\<lparr>mc_buf = buf, mc_pos = 1 + w, mc_remaining = n\<rparr>, fin)"
  using assms by (auto simp: map_cursor_new_def simp del: get_Some and_then_eq_Ok)

lemma cursor_new_inv:
  assumes "map_cursor_new buf = Ok (c, fin)" "length buf \<le> packet_bound"
  shows "cursor_inv c fin" "mc_buf c = buf" "value_len buf = Ok fin"
proof -
  from assms(1) show vl: "value_len buf = Ok fin"
    by (auto simp: map_cursor_new_def)
  from assms(1) show b: "mc_buf c = buf"
    by (auto simp: map_cursor_new_def split: if_splits)
  from value_len_sound [OF vl] have "fin \<le> length buf" "mp_value (take fin buf)" by auto
  then obtain h k cs where h: "take fin buf = h @ cs" "mp_node h k" "mp_values k cs"
    by (auto elim: mp_value.cases)
  have ne: "h \<noteq> []" using h by simp
  have fin: "fin = length h + length cs"
    using arg_cong [OF h(1), of length] \<open>fin \<le> length buf\<close> by simp
  have m: "buf ! 0 = hd h"
    using h(1) ne by (metis append_take_drop_id hd_append2 hd_conv_nth append_is_Nil_conv)
  have buf: "buf = h @ cs @ drop fin buf"
    using h(1) append_take_drop_id [of fin buf] by simp
  have g: "get buf 0 = Some (hd h)" using buf ne m by (cases buf) auto
  define x where "x = cs @ drop fin buf"
  have bx: "buf = h @ x" using buf by (simp add: x_def)
  have "mc_pos c = length h \<and> 2 * mc_remaining c = k"
  proof -
    have "0x80 \<le> hd h \<and> hd h \<le> 0x8f \<or> (\<exists>w. (hd h, w) \<in> map_markers)"
      using assms(1) by (auto simp: map_cursor_new_def get_def m split: if_splits)
    then consider "0x80 \<le> hd h" "hd h \<le> 0x8f" | w where "(hd h, w) \<in> map_markers"
      by blast
    then show ?thesis
    proof cases
      case 1
      then show ?thesis
        using cursor_new_fixmap [OF vl g] assms(1) node_fixmap_conv [OF h(2)] by auto
    next
      case 2
      have "read_len buf 1 w = Ok (be_nat (take w (drop 1 h)))"
        using node_map_conv [OF h(2) 2] bx by (auto simp: read_len_Ok)
      from cursor_new_map [OF vl g 2 this] show ?thesis
        using assms(1) node_map_conv [OF h(2) 2] by simp
    qed
  qed
  moreover have "take (fin - length h) (drop (length h) buf) = cs"
    using fin by (subst buf) simp
  ultimately show "cursor_inv c fin"
    using h(3) fin \<open>fin \<le> length buf\<close> assms(2) b by (simp add: cursor_inv_def)
qed


lemma cursor_new_no_panic [simp]: "map_cursor_new buf \<noteq> Panic"
proof (cases "value_len buf")
  case (Ok n)
  then have "buf \<noteq> []" using value_len_pos [of buf n] value_len_sound(1) [of buf n] by auto
  then have g: "get buf 0 = Some (buf ! 0)" by simp
  show ?thesis
    using Ok g by (simp add: map_cursor_new_def outcome_simps del: get_Some and_then_eq_Ok split: if_split)
qed (simp_all add: map_cursor_new_def)

lemma drop_step: "drop p xs = ys @ zs \<Longrightarrow> drop (p + length ys) xs = zs"
  using drop_drop [of "length ys" p xs] by (simp add: add.commute)

lemma value_len_drop:
  assumes "mp_value v" "drop p buf = v @ rest" "length buf \<le> packet_bound"
  shows "value_len (drop p buf) = Ok (length v)"
proof -
  have "length (v @ rest) \<le> length buf" using arg_cong [OF assms(2), of length] by simp
  then show ?thesis using value_len_value [OF assms(1), of rest] assms(2,3) by simp
qed

lemma cursor_next_entry:
  assumes "mp_value kb" "mp_value v" "drop (mc_pos c) (mc_buf c) = kb @ v @ rest"
    and "0 < mc_remaining c" "length (mc_buf c) \<le> packet_bound"
  shows "map_cursor_next R c =
    map_ok (\<lambda>key. (c\<lparr>mc_pos := mc_pos c + length kb + length v, mc_remaining := mc_remaining c - 1\<rparr>,
      Some (key, mc_pos c + length kb, v))) (read_uint R kb)"
proof -
  let ?buf = "mc_buf c" and ?p = "mc_pos c"
  have d: "drop (?p + length kb) ?buf = v @ rest" by (rule drop_step [OF assms(3)])
  have len: "?p + length kb + length v \<le> length ?buf"
    using arg_cong [OF assms(3), of length] mp_value_nonempty [OF assms(1)] by (cases "?p \<le> length ?buf") auto
  have lr: "length rest = length ?buf - (?p + length kb + length v)"
    using arg_cong [OF drop_step [OF d], of length] by simp
  have sl: "slice_range ?buf ?p (length ?buf) = Ok (kb @ v @ rest)"
    "slice_range ?buf ?p (?p + length kb) = Ok kb"
    "slice_range ?buf (?p + length kb) (length ?buf) = Ok (v @ rest)"
    "slice_range ?buf (?p + length kb) (?p + length kb + length v) = Ok v"
    using len assms(3) d lr by (simp_all add: slice_range_def get_range_def)
  show ?thesis
    using assms(3,4) d value_len_drop [OF assms(1,3,5)] value_len_drop [OF assms(2) d assms(5)]
    by (cases "read_uint R kb") (simp_all add: map_cursor_next_def sl del: and_then_eq_Ok slice_range_Ok slice_to_end)
qed

text \<open>
  One step of the cursor: it stays inside the map, hands out a value of the grammar together
  with its place in the buffer, and the only way it can fail is a key that is not an integer.
\<close>

lemma cursor_next_cases:
  assumes "cursor_inv c fin"
  obtains (finished) "mc_remaining c = 0" "mc_pos c = fin" "map_cursor_next R c = Ok (c, None)"
    | (yields) kb v c' where "0 < mc_remaining c" "mp_value kb" "mp_value v"
        "take (length kb + length v) (drop (mc_pos c) (mc_buf c)) = kb @ v"
        "c' = c\<lparr>mc_pos := mc_pos c + length kb + length v, mc_remaining := mc_remaining c - 1\<rparr>"
        "cursor_inv c' fin"
        "map_cursor_next R c =
           map_ok (\<lambda>key. (c', Some (key, mc_pos c + length kb, v))) (read_uint R kb)"
proof (cases "mc_remaining c")
  case 0
  with assms have "mc_pos c = fin" by (auto simp: cursor_inv_def)
  with 0 show ?thesis by (intro finished) (simp_all add: map_cursor_next_def)
next
  case (Suc n)
  let ?buf = "mc_buf c" and ?p = "mc_pos c"
  from assms have inv: "?p \<le> fin" "fin \<le> length ?buf" "length ?buf \<le> packet_bound"
    and vals: "mp_values (Suc (Suc (2 * n))) (take (fin - ?p) (drop ?p ?buf))"
    using Suc by (simp_all add: cursor_inv_def)
  from vals obtain kb v vs where
    sp: "take (fin - ?p) (drop ?p ?buf) = kb @ v @ vs" "mp_value kb" "mp_value v" "mp_values (2 * n) vs"
    by (auto elim!: mp_values_SucE)
  have len: "fin = ?p + length kb + length v + length vs"
    using arg_cong [OF sp(1), of length] inv by simp
  define rest where "rest = drop fin ?buf"
  have d: "drop ?p ?buf = kb @ v @ vs @ rest"
    using sp(1) append_take_drop_id [of "fin - ?p" "drop ?p ?buf"] inv(1) by (simp add: rest_def)
  have d'': "drop (?p + length kb + length v) ?buf = vs @ rest"
    by (rule drop_step [OF drop_step [OF d]])
  let ?c = "c\<lparr>mc_pos := ?p + length kb + length v, mc_remaining := mc_remaining c - 1\<rparr>"
  have "map_cursor_next R c =
      map_ok (\<lambda>key. (?c, Some (key, ?p + length kb, v))) (read_uint R kb)"
    using cursor_next_entry [OF sp(2,3) d] Suc inv(3) by simp
  moreover have "cursor_inv ?c fin"
    using inv len Suc d'' sp(4) by (simp add: cursor_inv_def)
  moreover have "take (length kb + length v) (drop ?p ?buf) = kb @ v" using d by simp
  ultimately show ?thesis
    using Suc sp(2,3) by (intro yields [of kb v ?c]) simp_all
qed

lemma cursor_next_no_panic: "cursor_inv c fin \<Longrightarrow> map_cursor_next R c \<noteq> Panic"
  by (erule cursor_next_cases [of c fin R]) (simp_all add: read_uint_def)

lemma walk_no_panic:
  "cursor_inv c fin \<Longrightarrow> (\<And>s e. body s e \<noteq> Panic) \<Longrightarrow> walk R body c s \<noteq> Panic"
proof (induction R body c s rule: walk.induct)
  case (1 R body c s)
  show ?case
  proof (rule cursor_next_cases [OF "1.prems"(1), of R])
    assume "map_cursor_next R c = Ok (c, None)"
    then show ?thesis by (simp add: walk.simps [of R body c])
  next
    fix kb v c'
    assume inv: "cursor_inv c' fin" and
      nx: "map_cursor_next R c = map_ok (\<lambda>key. (c', Some (key, mc_pos c + length kb, v))) (read_uint R kb)"
    show ?thesis
    proof (cases "read_uint R kb")
      case (Ok key)
      then have n: "map_cursor_next R c = Ok (c', Some (key, mc_pos c + length kb, v))" using nx by simp
      show ?thesis
        using "1.IH" [OF n refl refl] inv "1.prems"(2) [of s]
        by (simp add: walk.simps [of R body c] n "1.prems"(2) split: outcome.split)
    qed (use nx in \<open>simp_all add: walk.simps [of R body c] read_uint_def\<close>)
  qed
qed

text \<open>
  On the entries \<open>kvs\<close> (encoded key, encoded value) of a well-formed map, \<open>walk\<close> is the
  left-to-right fold of its body over the decoded keys.
\<close>

fun run_entries :: "rmp \<Rightarrow> ('s \<Rightarrow> entry \<Rightarrow> 's result) \<Rightarrow> nat \<Rightarrow> (bytes \<times> bytes) list \<Rightarrow> 's \<Rightarrow> 's result" where
  "run_entries R body off [] s = Ok s"
| "run_entries R body off ((kb, v) # kvs) s =
    and_then (read_uint R kb) (\<lambda>key.
    and_then (body s (key, off + length kb, v)) (\<lambda>s'.
    run_entries R body (off + length kb + length v) kvs s'))"

abbreviation entry_bytes :: "(bytes \<times> bytes) list \<Rightarrow> bytes" where
  "entry_bytes kvs \<equiv> concat (map (\<lambda>(k, v). k @ v) kvs)"

lemma mp_values_entries:
  "\<forall>(k, v) \<in> set kvs. mp_value k \<and> mp_value v \<Longrightarrow> mp_values (2 * length kvs) (entry_bytes kvs)"
proof (induction kvs)
  case Nil
  then show ?case by simp
next
  case (Cons kv kvs)
  then show ?case
    using mp_values_append [of 1 "fst kv"] mp_values_append [of 1 "snd kv" "2 * length kvs" "entry_bytes kvs"]
    by (auto split: prod.splits)
qed

lemma walk_run_entries:
  assumes "\<forall>(k, v) \<in> set kvs. mp_value k \<and> mp_value v" "length buf \<le> packet_bound"
    and "drop pos buf = entry_bytes kvs @ rest"
  shows "walk R body \<lparr>mc_buf = buf, mc_pos = pos, mc_remaining = length kvs\<rparr> s = run_entries R body pos kvs s"
  using assms(1,3)
proof (induction kvs arbitrary: pos s)
  case Nil
  then show ?case by (simp add: walk.simps map_cursor_next_def)
next
  case (Cons kv kvs)
  obtain kb v where kv: "kv = (kb, v)" by (cases kv)
  have vals: "mp_value kb" "mp_value v" using Cons.prems kv by auto
  have d: "drop pos buf = kb @ v @ entry_bytes kvs @ rest" using Cons.prems kv by simp
  have d2: "drop (pos + length kb + length v) buf = entry_bytes kvs @ rest"
    by (rule drop_step [OF drop_step [OF d]])
  let ?c = "\<lparr>mc_buf = buf, mc_pos = pos, mc_remaining = length (kv # kvs)\<rparr>"
  let ?c' = "\<lparr>mc_buf = buf, mc_pos = pos + length kb + length v, mc_remaining = length kvs\<rparr>"
  have nx: "map_cursor_next R ?c =
      map_ok (\<lambda>key. (?c', Some (key, pos + length kb, v))) (read_uint R kb)"
    using cursor_next_entry [OF vals, of ?c] d assms(2) by simp
  have IH: "walk R body ?c' s' = run_entries R body (pos + length kb + length v) kvs s'" for s'
    using Cons.IH [OF _ d2] Cons.prems(1) by simp
  show ?case
    using nx IH kv by (subst walk.simps, cases "read_uint R kb")
      (simp_all del: and_then_eq_Ok split: outcome.split)
qed

lemma cursor_new_head:
  assumes "mp_map_head h n" "mp_values (2 * n) es" "length (h @ es @ rest) \<le> packet_bound"
  shows "map_cursor_new (h @ es @ rest) =
    Ok (\<lparr>mc_buf = h @ es @ rest, mc_pos = length h, mc_remaining = n\<rparr>, length (h @ es))"
proof -
  have vl: "value_len (h @ es @ rest) = Ok (length (h @ es))"
    using value_len_value [OF mp_value_map [OF assms(1,2)], of rest] assms(3) by simp
  from assms(1) show ?thesis
  proof cases
    case (fixmap_head m)
    have "0x80 \<le> m" "m \<le> 0x8f" using fixmap_head by (simp_all add: word_le_nat_alt)
    moreover have "unat (m AND 0x0f) = n" using fixmap_head mod_base [of n 16 8] by (simp add: unat_and_15)
    ultimately show ?thesis
      using cursor_new_fixmap [OF vl, of m] fixmap_head by (simp add: get_def)
  next
    case (map_head m w)
    have "read_len (h @ es @ rest) 1 w = Ok n"
      using map_head by (simp add: read_len_Ok byte_simps)
    from cursor_new_map [OF vl _ map_head(2) this] show ?thesis using map_head by (simp add: get_def)
  qed
qed

text \<open>Whatever the loop body keeps on well-formed entries inside the map holds at the end.\<close>

lemma walk_invariant:
  assumes "cursor_inv c fin" "P s" "walk R body c s = Ok s'"
    and "\<And>s k st v s'. P s \<Longrightarrow> st + length v \<le> fin \<Longrightarrow> mp_value v \<Longrightarrow>
      take (length v) (drop st (mc_buf c)) = v \<Longrightarrow> body s (k, st, v) = Ok s' \<Longrightarrow> P s'"
  shows "P s'"
  using assms
proof (induction R body c s rule: walk.induct)
  case (1 R body c s)
  show ?case
  proof (rule cursor_next_cases [OF "1.prems"(1), of R])
    assume "map_cursor_next R c = Ok (c, None)"
    then show ?thesis using "1.prems" by (simp add: walk.simps [of R body c])
  next
    fix kb v c'
    assume v: "mp_value v" and cut: "take (length kb + length v) (drop (mc_pos c) (mc_buf c)) = kb @ v"
      and c': "c' = c\<lparr>mc_pos := mc_pos c + length kb + length v, mc_remaining := mc_remaining c - 1\<rparr>"
      and inv: "cursor_inv c' fin"
      and nx: "map_cursor_next R c = map_ok (\<lambda>key. (c', Some (key, mc_pos c + length kb, v))) (read_uint R kb)"
    obtain key where key: "read_uint R kb = Ok key"
      using "1.prems"(3) nx by (cases "read_uint R kb") (simp_all add: walk.simps [of R body c])
    then have n: "map_cursor_next R c = Ok (c', Some (key, mc_pos c + length kb, v))" using nx by simp
    obtain s1 where s1: "body s (key, mc_pos c + length kb, v) = Ok s1" and rest: "walk R body c' s1 = Ok s'"
      using "1.prems"(3) by (auto simp: walk.simps [of R body c] n split: outcome.splits)
    have at: "take (length v) (drop (mc_pos c + length kb) (mc_buf c)) = v"
      using arg_cong [OF cut, of "drop (length kb)"] by (simp add: drop_take add.commute)
    have "P s1"
      using "1.prems"(4) [OF "1.prems"(2) _ v at s1] inv c' by (simp add: cursor_inv_def)
    then show ?thesis
      using "1.IH" [OF n refl refl s1] inv rest "1.prems"(4) c' by simp
  qed
qed

lemma run_entries_no_panic:
  "(\<And>s e. body s e \<noteq> Panic) \<Longrightarrow> run_entries R body off kvs s \<noteq> Panic"
  by (induction kvs arbitrary: off s) (auto simp: outcome_simps read_uint_def)

section \<open>Properties\<close>

text \<open>
  C6: On every buffer up to the 2 GiB packet limit, \<open>value_len\<close> succeeds exactly when the
  buffer starts with a MessagePack value of the grammar, the number it returns is that
  value's length in bytes, and it never panics, whatever the bytes are.
\<close>

theorem value_len_grammar:
  assumes "length buf \<le> 2 ^ 31"
  shows "value_len buf \<noteq> Panic \<and>
    (value_len buf = Ok n \<longleftrightarrow> n \<le> length buf \<and> mp_value (take n buf))"
  using value_len_correct [OF assms] by simp_all

theorem value_len_grammar_witness:
  "value_len [0x92, 0x01, 0xa1, 0x61, 0xff] = Ok 4 \<and> mp_value [0x92, 0x01, 0xa1, 0x61]"
proof -
  have "value_len [0x92, 0x01, 0xa1, 0x61, 0xff] = Ok 4" by code_simp
  then show ?thesis using value_len_grammar [of "[0x92, 0x01, 0xa1, 0x61, 0xff]" 4] by simp
qed

text \<open>
  The loop \<open>while let Some(entry) = cursor.next()?\<close> over a well-formed map followed by
  anything is the left fold of its body over the map's entries, each with its decoded key, the
  offset of its value in the buffer and the value's bytes; the constructor reports the
  map's length in bytes.
\<close>

theorem cursor_visits_entries:
  assumes "mp_map_head h (length kvs)" "\<forall>(k, v) \<in> set kvs. mp_value k \<and> mp_value v"
    and "length (h @ entry_bytes kvs @ rest) \<le> 2 ^ 31"
  shows "and_then (map_cursor_new (h @ entry_bytes kvs @ rest))
           (\<lambda>(c, len). map_ok (Pair len) (walk R body c s)) =
         map_ok (Pair (length (h @ entry_bytes kvs))) (run_entries R body (length h) kvs s)"
  using cursor_new_head [OF assms(1) mp_values_entries [OF assms(2)] assms(3)]
    walk_run_entries [OF assms(2,3), of "length h" rest R body s]
  by (simp del: and_then_eq_Ok)

definition collect_keys :: "(u64 \<times> nat) list \<Rightarrow> entry \<Rightarrow> (u64 \<times> nat) list result" where
  "collect_keys acc e = Ok (acc @ [(fst e, fst (snd e))])"

theorem cursor_visits_entries_witness:
  "and_then (map_cursor_new ([0x82] @ entry_bytes [([0x00], [0x05]), ([0xcc, 0xff], [0xa1, 0x61])] @ [0xff]))
     (\<lambda>(c, len). map_ok (Pair len) (walk ref_rmp collect_keys c [])) = Ok (7, [(0, 2), (255, 5)])"
proof -
  have h: "mp_map_head [0x82] (length [([0x00], [0x05]), ([0xcc, 0xff], [0xa1, 0x61 :: u8])])"
    by (rule mp_map_head.fixmap_head) simp_all
  have v: "mp_value [0x00]" "mp_value [0x05]" "mp_value [0xcc, 0xff]" "mp_value [0xa1, 0x61]"
    by (auto intro!: mp_value_atom intro: mp_node.positive_fixint mp_node.number mp_node.fixstr)
  have r: "run_entries ref_rmp collect_keys (length [0x82 :: u8])
      [([0x00], [0x05]), ([0xcc, 0xff], [0xa1, 0x61])] [] = Ok [(0, 2), (255, 5)]" by code_simp
  show ?thesis
    using cursor_visits_entries [OF h, of "[0xff]" ref_rmp collect_keys "[]"] v r by simp
qed

text \<open>
  No byte sequence a peer can send makes the cursor panic: opening it, and walking it to the
  end with a loop body that does not panic, ends in a value or an error, although the code slices
  the buffer with computed offsets.
\<close>

theorem cursor_never_panics:
  assumes "length buf \<le> 2 ^ 31" "\<And>s e. body s e \<noteq> Panic"
  shows "and_then (map_cursor_new buf) (\<lambda>(c, len). walk R body c s) \<noteq> Panic"
  using cursor_new_no_panic cursor_new_inv(1) [OF _ assms(1)] walk_no_panic [OF _ assms(2)]
  by (fastforce simp: outcome_simps)

theorem cursor_never_panics_witness:
  "and_then (map_cursor_new [0x81, 0x00, 0xdf]) (\<lambda>(c, len). walk ref_rmp collect_keys c []) \<noteq> Panic \<and>
   map_cursor_new [0x81, 0x00, 0xdf] = Err truncated"
proof
  show "and_then (map_cursor_new [0x81, 0x00, 0xdf]) (\<lambda>(c, len). walk ref_rmp collect_keys c []) \<noteq> Panic"
    by (rule cursor_never_panics) (simp_all add: collect_keys_def)
  show "map_cursor_new [0x81, 0x00, 0xdf] = Err truncated" by code_simp
qed

end
