(* ===== verification/Iproto.thy ===== *)
theory Iproto
  imports Rmp_Reference
begin

text \<open>
  \<^verbatim>\<open>src/src/iproto.rs\<close>: the vocabulary of the protocol.  The numbers of the wire keep the names
  of the source with the name of their module in front; extension tags are \<open>i8\<close> bytes.
\<close>

section \<open>Numbers of the wire\<close>

subsection \<open>Keys of the header and body maps\<close>

abbreviation (input) KEY_REQUEST_TYPE :: u8 where "KEY_REQUEST_TYPE \<equiv> 0x00"
abbreviation (input) KEY_SYNC :: u8 where "KEY_SYNC \<equiv> 0x01"
abbreviation (input) KEY_SCHEMA_VERSION :: u8 where "KEY_SCHEMA_VERSION \<equiv> 0x05"
abbreviation (input) KEY_STREAM_ID :: u8 where "KEY_STREAM_ID \<equiv> 0x0a"
abbreviation (input) KEY_SPACE_ID :: u8 where "KEY_SPACE_ID \<equiv> 0x10"
abbreviation (input) KEY_INDEX_ID :: u8 where "KEY_INDEX_ID \<equiv> 0x11"
abbreviation (input) KEY_LIMIT :: u8 where "KEY_LIMIT \<equiv> 0x12"
abbreviation (input) KEY_OFFSET :: u8 where "KEY_OFFSET \<equiv> 0x13"
abbreviation (input) KEY_ITERATOR :: u8 where "KEY_ITERATOR \<equiv> 0x14"
abbreviation (input) KEY_INDEX_BASE :: u8 where "KEY_INDEX_BASE \<equiv> 0x15"
abbreviation (input) KEY_FETCH_POSITION :: u8 where "KEY_FETCH_POSITION \<equiv> 0x1f"
abbreviation (input) KEY_KEY :: u8 where "KEY_KEY \<equiv> 0x20"
abbreviation (input) KEY_TUPLE :: u8 where "KEY_TUPLE \<equiv> 0x21"
abbreviation (input) KEY_FUNCTION_NAME :: u8 where "KEY_FUNCTION_NAME \<equiv> 0x22"
abbreviation (input) KEY_USER_NAME :: u8 where "KEY_USER_NAME \<equiv> 0x23"
abbreviation (input) KEY_EXPR :: u8 where "KEY_EXPR \<equiv> 0x27"
abbreviation (input) KEY_OPS :: u8 where "KEY_OPS \<equiv> 0x28"
abbreviation (input) KEY_OPTIONS :: u8 where "KEY_OPTIONS \<equiv> 0x2b"
abbreviation (input) KEY_AFTER_POSITION :: u8 where "KEY_AFTER_POSITION \<equiv> 0x2e"
abbreviation (input) KEY_AFTER_TUPLE :: u8 where "KEY_AFTER_TUPLE \<equiv> 0x2f"
abbreviation (input) KEY_DATA :: u8 where "KEY_DATA \<equiv> 0x30"
abbreviation (input) KEY_ERROR_24 :: u8 where "KEY_ERROR_24 \<equiv> 0x31"
abbreviation (input) KEY_METADATA :: u8 where "KEY_METADATA \<equiv> 0x32"
abbreviation (input) KEY_BIND_METADATA :: u8 where "KEY_BIND_METADATA \<equiv> 0x33"
abbreviation (input) KEY_BIND_COUNT :: u8 where "KEY_BIND_COUNT \<equiv> 0x34"
abbreviation (input) KEY_POSITION :: u8 where "KEY_POSITION \<equiv> 0x35"
abbreviation (input) KEY_ARROW :: u8 where "KEY_ARROW \<equiv> 0x36"
abbreviation (input) KEY_SQL_TEXT :: u8 where "KEY_SQL_TEXT \<equiv> 0x40"
abbreviation (input) KEY_SQL_BIND :: u8 where "KEY_SQL_BIND \<equiv> 0x41"
abbreviation (input) KEY_SQL_INFO :: u8 where "KEY_SQL_INFO \<equiv> 0x42"
abbreviation (input) KEY_STMT_ID :: u8 where "KEY_STMT_ID \<equiv> 0x43"
abbreviation (input) KEY_ERROR :: u8 where "KEY_ERROR \<equiv> 0x52"
abbreviation (input) KEY_VERSION :: u8 where "KEY_VERSION \<equiv> 0x54"
abbreviation (input) KEY_FEATURES :: u8 where "KEY_FEATURES \<equiv> 0x55"
abbreviation (input) KEY_TIMEOUT :: u8 where "KEY_TIMEOUT \<equiv> 0x56"
abbreviation (input) KEY_EVENT_KEY :: u8 where "KEY_EVENT_KEY \<equiv> 0x57"
abbreviation (input) KEY_EVENT_DATA :: u8 where "KEY_EVENT_DATA \<equiv> 0x58"
abbreviation (input) KEY_TXN_ISOLATION :: u8 where "KEY_TXN_ISOLATION \<equiv> 0x59"
abbreviation (input) KEY_AUTH_TYPE :: u8 where "KEY_AUTH_TYPE \<equiv> 0x5b"
abbreviation (input) KEY_SPACE_NAME :: u8 where "KEY_SPACE_NAME \<equiv> 0x5e"
abbreviation (input) KEY_INDEX_NAME :: u8 where "KEY_INDEX_NAME \<equiv> 0x5f"
abbreviation (input) KEY_TUPLE_FORMATS :: u8 where "KEY_TUPLE_FORMATS \<equiv> 0x60"
abbreviation (input) KEY_IS_SYNC :: u8 where "KEY_IS_SYNC \<equiv> 0x61"

subsection \<open>Keys of column descriptions and of the SQL info map\<close>

abbreviation (input) SQL_FIELD_NAME :: u8 where "SQL_FIELD_NAME \<equiv> 0x00"
abbreviation (input) SQL_FIELD_TYPE :: u8 where "SQL_FIELD_TYPE \<equiv> 0x01"
abbreviation (input) SQL_FIELD_COLL :: u8 where "SQL_FIELD_COLL \<equiv> 0x02"
abbreviation (input) SQL_FIELD_IS_NULLABLE :: u8 where "SQL_FIELD_IS_NULLABLE \<equiv> 0x03"
abbreviation (input) SQL_FIELD_IS_AUTOINCREMENT :: u8 where "SQL_FIELD_IS_AUTOINCREMENT \<equiv> 0x04"
abbreviation (input) SQL_FIELD_SPAN :: u8 where "SQL_FIELD_SPAN \<equiv> 0x05"
abbreviation (input) SQL_INFO_ROW_COUNT :: u8 where "SQL_INFO_ROW_COUNT \<equiv> 0x00"
abbreviation (input) SQL_INFO_AUTOINCREMENT_IDS :: u8 where "SQL_INFO_AUTOINCREMENT_IDS \<equiv> 0x01"

subsection \<open>Request types\<close>

abbreviation (input) REQ_SELECT :: u64 where "REQ_SELECT \<equiv> 0x01"
abbreviation (input) REQ_INSERT :: u64 where "REQ_INSERT \<equiv> 0x02"
abbreviation (input) REQ_REPLACE :: u64 where "REQ_REPLACE \<equiv> 0x03"
abbreviation (input) REQ_UPDATE :: u64 where "REQ_UPDATE \<equiv> 0x04"
abbreviation (input) REQ_DELETE :: u64 where "REQ_DELETE \<equiv> 0x05"
abbreviation (input) REQ_AUTH :: u64 where "REQ_AUTH \<equiv> 0x07"
abbreviation (input) REQ_EVAL :: u64 where "REQ_EVAL \<equiv> 0x08"
abbreviation (input) REQ_UPSERT :: u64 where "REQ_UPSERT \<equiv> 0x09"
abbreviation (input) REQ_CALL :: u64 where "REQ_CALL \<equiv> 0x0a"
abbreviation (input) REQ_EXECUTE :: u64 where "REQ_EXECUTE \<equiv> 0x0b"
abbreviation (input) REQ_PREPARE :: u64 where "REQ_PREPARE \<equiv> 0x0d"
abbreviation (input) REQ_BEGIN :: u64 where "REQ_BEGIN \<equiv> 0x0e"
abbreviation (input) REQ_COMMIT :: u64 where "REQ_COMMIT \<equiv> 0x0f"
abbreviation (input) REQ_ROLLBACK :: u64 where "REQ_ROLLBACK \<equiv> 0x10"
abbreviation (input) REQ_INSERT_ARROW :: u64 where "REQ_INSERT_ARROW \<equiv> 0x11"
abbreviation (input) REQ_PING :: u64 where "REQ_PING \<equiv> 0x40"
abbreviation (input) REQ_ID :: u64 where "REQ_ID \<equiv> 0x49"
abbreviation (input) REQ_WATCH :: u64 where "REQ_WATCH \<equiv> 0x4a"
abbreviation (input) REQ_UNWATCH :: u64 where "REQ_UNWATCH \<equiv> 0x4b"
abbreviation (input) REQ_WATCH_ONCE :: u64 where "REQ_WATCH_ONCE \<equiv> 0x4d"

subsection \<open>Response types\<close>

abbreviation (input) RESP_OK :: u64 where "RESP_OK \<equiv> 0x00"
abbreviation (input) RESP_CHUNK :: u64 where "RESP_CHUNK \<equiv> 0x80"
abbreviation (input) RESP_EVENT :: u64 where "RESP_EVENT \<equiv> 0x4c"
abbreviation (input) RESP_ERROR_FLAG :: u64 where "RESP_ERROR_FLAG \<equiv> 0x8000"

subsection \<open>Keys of the error map and of a frame\<close>

abbreviation (input) ERR_STACK :: u8 where "ERR_STACK \<equiv> 0x00"
abbreviation (input) ERR_TYPE :: u8 where "ERR_TYPE \<equiv> 0x00"
abbreviation (input) ERR_FILE :: u8 where "ERR_FILE \<equiv> 0x01"
abbreviation (input) ERR_LINE :: u8 where "ERR_LINE \<equiv> 0x02"
abbreviation (input) ERR_MESSAGE :: u8 where "ERR_MESSAGE \<equiv> 0x03"
abbreviation (input) ERR_ERRNO :: u8 where "ERR_ERRNO \<equiv> 0x04"
abbreviation (input) ERR_ERRCODE :: u8 where "ERR_ERRCODE \<equiv> 0x05"
abbreviation (input) ERR_FIELDS :: u8 where "ERR_FIELDS \<equiv> 0x06"

subsection \<open>Extension type tags\<close>

abbreviation (input) EXT_DECIMAL :: u8 where "EXT_DECIMAL \<equiv> 1"
abbreviation (input) EXT_UUID :: u8 where "EXT_UUID \<equiv> 2"
abbreviation (input) EXT_ERROR :: u8 where "EXT_ERROR \<equiv> 3"
abbreviation (input) EXT_DATETIME :: u8 where "EXT_DATETIME \<equiv> 4"
abbreviation (input) EXT_COMPRESSION :: u8 where "EXT_COMPRESSION \<equiv> 5"
abbreviation (input) EXT_INTERVAL :: u8 where "EXT_INTERVAL \<equiv> 6"
abbreviation (input) EXT_TUPLE :: u8 where "EXT_TUPLE \<equiv> 7"
abbreviation (input) EXT_ARROW :: u8 where "EXT_ARROW \<equiv> 8"

abbreviation (input) PROTOCOL_VERSION :: u64 where "PROTOCOL_VERSION \<equiv> 10"

section \<open>Features, iterators, isolation levels\<close>

datatype feature = Streams | Transactions | ErrorExtension | Watchers | Pagination | SpaceAndIndexNames | WatchOnce
  | DmlTupleExtension | CallRetTupleExtension | CallArgTupleExtension | FetchSnapshotCursor | IsSync | InsertArrow

definition ANNOUNCED :: "feature list" where
  "ANNOUNCED = [Streams, Transactions, ErrorExtension, Watchers, Pagination, SpaceAndIndexNames, WatchOnce, IsSync, InsertArrow]"

definition ALL_FEATURES :: "feature list" where
  "ALL_FEATURES = [Streams, Transactions, ErrorExtension, Watchers, Pagination, SpaceAndIndexNames, WatchOnce,
    DmlTupleExtension, CallRetTupleExtension, CallArgTupleExtension, FetchSnapshotCursor, IsSync, InsertArrow]"

primrec feature_code :: "feature \<Rightarrow> u64" where
  "feature_code Streams = 0"
| "feature_code Transactions = 1"
| "feature_code ErrorExtension = 2"
| "feature_code Watchers = 3"
| "feature_code Pagination = 4"
| "feature_code SpaceAndIndexNames = 5"
| "feature_code WatchOnce = 6"
| "feature_code DmlTupleExtension = 7"
| "feature_code CallRetTupleExtension = 8"
| "feature_code CallArgTupleExtension = 9"
| "feature_code FetchSnapshotCursor = 10"
| "feature_code IsSync = 11"
| "feature_code InsertArrow = 12"

definition from_code :: "u64 \<Rightarrow> feature option" where
  "from_code c = find (\<lambda>f. feature_code f = c) ALL_FEATURES"

datatype iter = IterEq | IterReq | IterAll | IterLt | IterLe | IterGe | IterGt | IterBitsAllSet | IterBitsAnySet | IterBitsAllNotSet | IterOverlaps | IterNeighbor

primrec iter_code :: "iter \<Rightarrow> u64" where
  "iter_code IterEq = 0"
| "iter_code IterReq = 1"
| "iter_code IterAll = 2"
| "iter_code IterLt = 3"
| "iter_code IterLe = 4"
| "iter_code IterGe = 5"
| "iter_code IterGt = 6"
| "iter_code IterBitsAllSet = 7"
| "iter_code IterBitsAnySet = 8"
| "iter_code IterBitsAllNotSet = 9"
| "iter_code IterOverlaps = 10"
| "iter_code IterNeighbor = 11"

datatype isolation = DefaultIsolation | ReadCommitted | ReadConfirmed | BestEffort

primrec isolation_code :: "isolation \<Rightarrow> u64" where
  "isolation_code DefaultIsolation = 0"
| "isolation_code ReadCommitted = 1"
| "isolation_code ReadConfirmed = 2"
| "isolation_code BestEffort = 3"

section \<open>The numbers identify what they stand for\<close>

lemma feature_code_inj: "feature_code f = feature_code g \<longleftrightarrow> f = g"
  by (cases f; cases g) simp_all

lemma iter_code_inj: "iter_code f = iter_code g \<longleftrightarrow> f = g"
  by (cases f; cases g) simp_all

lemma isolation_code_inj: "isolation_code f = isolation_code g \<longleftrightarrow> f = g"
  by (cases f; cases g) simp_all

lemma from_code_code [simp]: "from_code (feature_code f) = Some f"
  by (cases f) (simp_all add: from_code_def ALL_FEATURES_def)

lemma from_code_Some: "from_code c = Some f \<longleftrightarrow> feature_code f = c"
proof
  assume "from_code c = Some f"
  then show "feature_code f = c" by (simp add: from_code_def find_Some_iff) metis
qed auto

lemma known_codes: "c \<in> set (map feature_code ALL_FEATURES) \<longleftrightarrow> c \<le> 12"
proof -
  have all: "map feature_code ALL_FEATURES = map of_nat [0..<13]" by code_simp
  have "c \<in> of_nat ` {0..<13} \<longleftrightarrow> unat c < 13"
  proof
    assume "unat c < 13"
    then show "c \<in> of_nat ` {0..<13}" by (intro image_eqI [of _ _ "unat c"]) simp_all
  next
    assume "c \<in> of_nat ` {0..<13}"
    then obtain k where k: "c = of_nat k" "k < 13" by auto
    have "unat (of_nat k :: u64) = k" using k(2) by (intro unat_of_nat_u64) simp
    then show "unat c < 13" using k by simp
  qed
  then show ?thesis unfolding all set_map set_upt word_le_nat_alt by (simp add: less_Suc_eq_le [symmetric])
qed

text \<open>
  Feature numbers round-trip: \<open>from_code\<close> returns a feature exactly for that feature's own
  number, so every number outside 0..12 is unknown; the announced list has no duplicates
  and leaves out only the tuple extensions and the snapshot cursor.
\<close>

theorem feature_codes_round_trip:
  "(from_code c = Some f \<longleftrightarrow> feature_code f = c) \<and>
   (from_code c = None \<longleftrightarrow> 12 < c) \<and> distinct (map feature_code ANNOUNCED) \<and>
   set ANNOUNCED = - {DmlTupleExtension, CallRetTupleExtension, CallArgTupleExtension, FetchSnapshotCursor}"
proof (intro conjI)
  show "from_code c = Some f \<longleftrightarrow> feature_code f = c" by (rule from_code_Some)
  have "c \<in> set (map feature_code ALL_FEATURES) \<longleftrightarrow> c \<le> 12" by (rule known_codes)
  then show "from_code c = None \<longleftrightarrow> 12 < c"
    by (auto simp: from_code_def find_None_iff not_le [symmetric])
  show "distinct (map feature_code ANNOUNCED)" by (simp add: ANNOUNCED_def)
  show "set ANNOUNCED =
      - {DmlTupleExtension, CallRetTupleExtension, CallArgTupleExtension, FetchSnapshotCursor}"
  proof (rule set_eqI)
    fix g
    show "g \<in> set ANNOUNCED \<longleftrightarrow> g \<in>
        - {DmlTupleExtension, CallRetTupleExtension, CallArgTupleExtension, FetchSnapshotCursor}"
      by (cases g) (simp_all add: ANNOUNCED_def)
  qed
qed

end
