(* ===== verification/Framing.thy ===== *)
theory Framing
  imports Errors
begin

text \<open>
  The interface between the packet codec and the byte stream: a decoder of length-prefixed frames,
  the laws it promises, and what a client that feeds it chunk by chunk gets from them.

  What \<open>tokio_util::codec::Framed\<close> does with a decoder: append what was read to the buffer and call
  the decoder until it asks for more.  \<open>fuel\<close> bounds the calls; one more than the bytes
  in the buffer is enough for a decoder that consumes something with every item.
\<close>

type_synonym 'a decoder = "bytes \<Rightarrow> bytes \<times> 'a option result"

fun drain :: "'a decoder \<Rightarrow> nat \<Rightarrow> bytes \<Rightarrow> 'a result list \<times> bytes" where
  "drain dec 0 buf = ([], buf)"
| "drain dec (Suc fuel) buf = (case dec buf of
     (buf', Ok (Some x)) \<Rightarrow> apfst (Cons (Ok x)) (drain dec fuel buf')
   | (buf', Ok None) \<Rightarrow> ([], buf')
   | (buf', Err e) \<Rightarrow> ([Err e], buf')
   | (buf', Panic) \<Rightarrow> ([Panic], buf'))"

fun feed :: "'a decoder \<Rightarrow> bytes \<Rightarrow> bytes list \<Rightarrow> 'a result list \<times> bytes" where
  "feed dec buf [] = ([], buf)"
| "feed dec buf (chunk # chunks) =
    (case drain dec (Suc (length (buf @ chunk))) (buf @ chunk) of
       (items, buf') \<Rightarrow> apfst (append items) (feed dec buf' chunks))"

locale framing =
  fixes dec :: "'a decoder" and frame :: "bytes \<Rightarrow> bytes" and parse :: "bytes \<Rightarrow> 'a result"
    and fits :: "bytes \<Rightarrow> bool"
  assumes dec_empty: "dec [] = ([], Ok None)"
    and dec_whole: "fits p \<Longrightarrow> dec (frame p @ rest) = (rest, map_ok Some (parse p))"
    and dec_partial: "fits p \<Longrightarrow> frame p = x @ y \<Longrightarrow> y \<noteq> [] \<Longrightarrow> dec x = (x, Ok None)"
begin

lemma frame_nonempty: "fits p \<Longrightarrow> parse p = Ok r \<Longrightarrow> frame p \<noteq> []"
  using dec_whole [of p "[]"] dec_empty by auto

lemma drain_prefix:
  assumes "\<forall>p \<in> set ps. fits p \<and> parse p = Ok (f p)"
    and "x @ y = concat (map frame ps)" "length x < fuel"
  shows "\<exists>qs rs part. ps = qs @ rs \<and> drain dec fuel x = (map (\<lambda>p. Ok (f p)) qs, part) \<and>
    part @ y = concat (map frame rs) \<and> (y = [] \<longrightarrow> rs = [] \<and> part = [])"
  using assms
proof (induction ps arbitrary: x fuel)
  case Nil
  then show ?case by (cases fuel) (simp_all add: dec_empty)
next
  case (Cons p ps)
  obtain n where n: "fuel = Suc n" using Cons.prems(3) by (cases fuel) auto
  have p: "fits p" "parse p = Ok (f p)" using Cons.prems(1) by auto
  show ?case
  proof (cases "length x < length (frame p)")
    case True
    have "frame p = x @ take (length (frame p) - length x) y"
      using arg_cong [OF Cons.prems(2), of "take (length (frame p))"] True by simp
    then have "dec x = (x, Ok None)"
      using True by (intro dec_partial [OF p(1)]) auto
    moreover have "y \<noteq> []" using arg_cong [OF Cons.prems(2), of length] True by auto
    ultimately show ?thesis using n Cons.prems(2)
      by (intro exI [of _ "[]"] exI [of _ "p # ps"] exI [of _ x]) simp
  next
    case False
    define x' where "x' = drop (length (frame p)) x"
    have "take (length (frame p)) x = frame p"
      using arg_cong [OF Cons.prems(2), of "take (length (frame p))"] False by simp
    then have x: "x = frame p @ x'" unfolding x'_def by (metis append_take_drop_id)
    then have y: "x' @ y = concat (map frame ps)" using Cons.prems(2) by simp
    have "length x' < n" using Cons.prems(3) n x frame_nonempty [OF p] by (cases "frame p") auto
    from Cons.IH [OF _ y this] obtain qs rs part where "ps = qs @ rs" "drain dec n x' = (map (\<lambda>p. Ok (f p)) qs, part)"
        "part @ y = concat (map frame rs)" "y = [] \<longrightarrow> rs = [] \<and> part = []"
      using Cons.prems(1) by auto
    then show ?thesis
      using n x p dec_whole [OF p(1), of x'] by (intro exI [of _ "p # qs"] exI [of _ rs] exI [of _ part]) simp
  qed
qed

text \<open>However the transport cuts the stream, every packet is delivered once, in order, and nothing is left.\<close>

lemma feed_chunks:
  assumes "\<forall>p \<in> set ps. fits p \<and> parse p = Ok (f p)" and "buf @ concat chunks = concat (map frame ps)"
    and "chunks \<noteq> []"
  shows "feed dec buf chunks = (map (\<lambda>p. Ok (f p)) ps, [])"
  using assms
proof (induction chunks arbitrary: buf ps)
  case Nil
  then show ?case by simp
next
  case (Cons c cs)
  have "(buf @ c) @ concat cs = concat (map frame ps)" using Cons.prems(2) by simp
  from drain_prefix [OF Cons.prems(1) this, of "Suc (length (buf @ c))"] obtain qs rs part where
    d: "ps = qs @ rs" "drain dec (Suc (length (buf @ c))) (buf @ c) = (map (\<lambda>p. Ok (f p)) qs, part)"
       "part @ concat cs = concat (map frame rs)" "concat cs = [] \<longrightarrow> rs = [] \<and> part = []" by auto
  have rs: "\<forall>p \<in> set rs. fits p \<and> parse p = Ok (f p)" using Cons.prems(1) d(1) by simp
  show ?case
  proof (cases "cs = []")
    case True
    then show ?thesis using d by simp
  next
    case False
    then show ?thesis using Cons.IH [OF rs d(3)] d by simp
  qed
qed

end

end
