(* ===== verification/Codec.thy ===== *)
theory Codec
  imports Msgpack Iproto Framing
begin

text \<open>
  \<^verbatim>\<open>src/src/codec.rs\<close>: framing (\<open>Codec\<close>), the request builder (\<open>Request\<close>), and the parsed packet
  (\<open>Response\<close>).  The decoder is a function of the receive buffer that returns the buffer it
  leaves behind.  Serialisation with serde is the parameter \<open>ser\<close> of the operations
  that take a \<open>T: Serialize\<close>: what \<open>rmp_serde\<close> appends, or the text of its error.
\<close>

section \<open>Framing\<close>

definition MAX_PACKET_LEN :: nat where
  "MAX_PACKET_LEN = 2 * 1024 * 1024 * 1024"

definition frame_prefix :: "u8 \<Rightarrow> nat result" where
  "frame_prefix marker =
    (if marker \<le> 0x7f then Ok 1
     else if marker = 0xcc then Ok 2
     else if marker = 0xcd then Ok 3
     else if marker = 0xce then Ok 5
     else if marker = 0xcf then Ok 9
     else Err (Protocol (''bad packet length marker '' @ fmt_hex04 (unat marker))))"

definition frame_len :: "bytes \<Rightarrow> u8 \<Rightarrow> nat \<Rightarrow> nat result" where
  "frame_len src marker prefix =
    (if prefix = 1 then Ok (unat marker)
     else map_ok be_nat (slice_range src 1 prefix))"

section \<open>Building requests\<close>

record request =
  rq_header :: bytes
  rq_body :: bytes
  rq_entries :: u32

definition put_uint :: "rmp \<Rightarrow> u8 \<Rightarrow> u64 \<Rightarrow> bytes" where
  "put_uint R k v = write_uint R (ucast k) @ write_uint R v"

definition request_new :: "rmp \<Rightarrow> u64 \<Rightarrow> u64 \<Rightarrow> u64 option \<Rightarrow> request" where
  "request_new R ty sync stream_id =
    (let header_len = 2 + (if stream_id \<noteq> None then 1 else 0);
         header = write_map_len R header_len @ put_uint R KEY_REQUEST_TYPE ty @ put_uint R KEY_SYNC sync @
           (case stream_id of Some s \<Rightarrow> put_uint R KEY_STREAM_ID s | None \<Rightarrow> [])
     in \<lparr>rq_header = header, rq_body = [], rq_entries = 0\<rparr>)"

text \<open>\<open>entries += 1\<close> on a \<open>u32\<close> overflows into a panic.\<close>

definition request_key :: "rmp \<Rightarrow> u8 \<Rightarrow> request \<Rightarrow> request result" where
  "request_key R k q =
    (if rq_entries q = - 1 then Panic
     else Ok (q\<lparr>rq_entries := rq_entries q + 1, rq_body := rq_body q @ write_uint R (ucast k)\<rparr>))"

definition push_body :: "bytes \<Rightarrow> request \<Rightarrow> request" where
  "push_body bs q = q\<lparr>rq_body := rq_body q @ bs\<rparr>"

definition request_uint :: "rmp \<Rightarrow> u8 \<Rightarrow> u64 \<Rightarrow> request \<Rightarrow> request result" where
  "request_uint R k v q = map_ok (push_body (write_uint R v)) (request_key R k q)"

definition request_str :: "rmp \<Rightarrow> u8 \<Rightarrow> string \<Rightarrow> request \<Rightarrow> request result" where
  "request_str R k v q = map_ok (push_body (write_str R v)) (request_key R k q)"

definition request_bool :: "rmp \<Rightarrow> u8 \<Rightarrow> bool \<Rightarrow> request \<Rightarrow> request result" where
  "request_bool R k v q = map_ok (push_body (write_bool R v)) (request_key R k q)"

definition request_f64 :: "rmp \<Rightarrow> u8 \<Rightarrow> u64 \<Rightarrow> request \<Rightarrow> request result" where
  "request_f64 R k v q = map_ok (push_body (write_f64 R v)) (request_key R k q)"

definition is_array_marker :: "u8 option \<Rightarrow> bool" where
  "is_array_marker marker = (case marker of
     Some m \<Rightarrow> 0x90 \<le> m \<and> m \<le> 0x9f \<or> m = 0xdc \<or> m = 0xdd
   | None \<Rightarrow> False)"

definition NotAnArray :: string where
  "NotAnArray = ''value must serialize to a MessagePack array (a tuple, a struct, a Vec or a slice); '' @
     ''a bare scalar is not a tuple '' @ bytes_str [0xe2, 0x80, 0x94] @ '' wrap it: `(value,)`''"

definition request_serialized :: "rmp \<Rightarrow> u8 \<Rightarrow> (string, bytes) outcome \<Rightarrow> bool \<Rightarrow> request \<Rightarrow> request result" where
  "request_serialized R k ser expect_array q =
    and_then (request_key R k q) (\<lambda>q.
    let start = length (rq_body q) in
    and_then (map_ok (\<lambda>bs. push_body bs q) (map_err Encode ser)) (\<lambda>q.
    if expect_array \<and> \<not> is_array_marker (get (rq_body q) start)
    then Err (Encode NotAnArray)
    else Ok q))"

definition request_ext :: "rmp \<Rightarrow> u8 \<Rightarrow> u8 \<Rightarrow> bytes \<Rightarrow> request \<Rightarrow> request result" where
  "request_ext R k tag payload q =
    and_then (request_key R k q) (\<lambda>q.
    if length payload < 2 ^ 32
    then Ok (push_body payload (push_body (write_ext_meta R (of_nat (length payload)) tag) q))
    else Err (Protocol ''extension payload exceeds 4 GiB''))"

text \<open>\<open>ArrayLike::encode\<close> appends to the body or fails; see \<open>Tuple\<close>.\<close>

definition request_array :: "rmp \<Rightarrow> u8 \<Rightarrow> bytes result \<Rightarrow> request \<Rightarrow> request result" where
  "request_array R k encoded q =
    and_then (request_key R k q) (\<lambda>q. map_ok (\<lambda>bs. push_body bs q) encoded)"

definition request_raw :: "rmp \<Rightarrow> u8 \<Rightarrow> bytes \<Rightarrow> request \<Rightarrow> request result" where
  "request_raw R k msgpack q = map_ok (push_body msgpack) (request_key R k q)"

definition request_raw_array :: "rmp \<Rightarrow> u8 \<Rightarrow> bytes list \<Rightarrow> request \<Rightarrow> request result" where
  "request_raw_array R k elements q =
    and_then (request_key R k q) (\<lambda>q.
    if length elements < 2 ^ 32
    then Ok (push_body (concat elements) (push_body (write_array_len R (of_nat (length elements))) q))
    else Panic)"

definition request_finish :: "rmp \<Rightarrow> request \<Rightarrow> bytes" where
  "request_finish R q = rq_header q @ write_map_len R (rq_entries q) @ rq_body q"

definition to_msgpack :: "(string, bytes) outcome \<Rightarrow> bytes result" where
  "to_msgpack ser = map_err Encode ser"

definition to_msgpack_array :: "(string, bytes) outcome \<Rightarrow> bytes result" where
  "to_msgpack_array ser =
    and_then (to_msgpack ser) (\<lambda>buf.
    if is_array_marker (get buf 0) then Ok buf else Err (Encode NotAnArray))"

section \<open>Reading error maps\<close>

definition u8_of_u64 :: "u64 \<Rightarrow> u8 option" where
  "u8_of_u64 k = (if k < 256 then Some (ucast k) else None)"

definition u32_of_u64 :: "u64 \<Rightarrow> u32 option" where
  "u32_of_u64 k = (if unat k < 2 ^ 32 then Some (ucast k) else None)"

text \<open>\<open>v.as_str().unwrap_or_default()\<close>, \<open>v.as_u64().unwrap_or(0)\<close>.\<close>

definition unwrap_or :: "'a option \<Rightarrow> 'a \<Rightarrow> 'a" where
  "unwrap_or v d = (case v of Some x \<Rightarrow> x | None \<Rightarrow> d)"

definition error_fields :: "rmpv \<Rightarrow> mpvalue \<Rightarrow> (string \<times> mpvalue) list" where
  "error_fields V v = (case as_map V v of
     Some flds \<Rightarrow> fold (\<lambda>(k, v) m. btree_insert k v m)
       (List.map_filter (\<lambda>(k, v). map_option (\<lambda>s. (s, v)) (as_str V k)) flds) []
   | None \<Rightarrow> [])"

definition error_frame_entry :: "rmpv \<Rightarrow> mpvalue \<times> mpvalue \<Rightarrow> server_error \<Rightarrow> server_error" where
  "error_frame_entry V kv err = (case kv of (k, v) \<Rightarrow>
    (case err of ServerError code message kind file line errno flds cause \<Rightarrow>
    (case Option.bind (as_u64 V k) u8_of_u64 of
       None \<Rightarrow> err
     | Some t \<Rightarrow>
        if t = ERR_TYPE then ServerError code message (unwrap_or (as_str V v) []) file line errno flds cause
        else if t = ERR_FILE then ServerError code message kind (as_str V v) line errno flds cause
        else if t = ERR_LINE then ServerError code message kind file (as_u64 V v) errno flds cause
        else if t = ERR_MESSAGE then ServerError code (unwrap_or (as_str V v) []) kind file line errno flds cause
        else if t = ERR_ERRNO then ServerError code message kind file line (unwrap_or (as_u64 V v) 0) flds cause
        else if t = ERR_ERRCODE then
          ServerError (unwrap_or (Option.bind (as_u64 V v) u32_of_u64) 0) message kind file line errno flds cause
        else if t = ERR_FIELDS then ServerError code message kind file line errno (error_fields V v) cause
        else err)))"

definition decode_error_frame :: "rmpv \<Rightarrow> mpvalue \<Rightarrow> server_error result" where
  "decode_error_frame V frame =
    map_ok (\<lambda>entries. fold (error_frame_entry V) entries (from_message 0 []))
      (ok_or (as_map V frame) (Protocol ''MP_ERROR frame is not a map''))"

definition error_stack :: "rmpv \<Rightarrow> mpvalue \<Rightarrow> mpvalue list option" where
  "error_stack V v =
    Option.bind (as_map V v) (\<lambda>entries.
    Option.bind (find (\<lambda>(k, _). as_u64 V k = Some (ucast ERR_STACK)) entries) (\<lambda>(_, s).
    as_array V s))"

definition with_cause :: "server_error list \<Rightarrow> server_error \<Rightarrow> server_error" where
  "with_cause causes e = (case e of ServerError code message kind file line errno flds _ \<Rightarrow>
     ServerError code message kind file line errno flds causes)"

definition decode_error_map :: "rmpv \<Rightarrow> bytes \<Rightarrow> u32 \<Rightarrow> server_error result" where
  "decode_error_map V bs code =
    (case read_value V bs of
       Inl e \<Rightarrow> Err (Protocol (''malformed MP_ERROR: '' @ e))
     | Inr (v, _) \<Rightarrow>
        and_then (ok_or (error_stack V v) (Protocol ''MP_ERROR without a stack'')) (\<lambda>stack.
        and_then (collect (decode_error_frame V) stack) (\<lambda>frames.
        case frames of
          [] \<Rightarrow> Ok (from_message code ''empty error stack'')
        | outer # rest \<Rightarrow> Ok (with_cause rest outer))))"

section \<open>Reading packets\<close>

datatype kind = KOk | KChunk | KError | KEvent

record response =
  rs_kind :: kind
  rs_sync :: u64
  rs_schema_version :: "u64 option"
  rs_body :: bytes
  rs_data :: "(nat \<times> nat) option"
  rs_position :: "string option"
  rs_error :: "server_error option"
  rs_event_key :: "string option"
  rs_event_data :: "(nat \<times> nat) option"
  rs_metadata :: "(nat \<times> nat) option"
  rs_bind_metadata :: "(nat \<times> nat) option"
  rs_sql_info :: "(nat \<times> nat) option"
  rs_bind_count :: "u64 option"
  rs_stmt_id :: "u64 option"

text \<open>The local variables of the header loop and of the body loop of \<open>parse\<close>.\<close>

record header_vars =
  hv_request_type :: "u64 option"
  hv_sync :: u64
  hv_schema_version :: "u64 option"

record body_vars =
  bv_this :: response
  bv_error_24 :: "string option"
  bv_error_ext :: "bytes option"

definition narrow_key :: "u64 \<Rightarrow> u8" where
  "narrow_key k = unwrap_or (u8_of_u64 k) 0xff"

definition header_entry :: "rmp \<Rightarrow> header_vars \<Rightarrow> entry \<Rightarrow> header_vars result" where
  "header_entry R h e = (case e of (k, _, v) \<Rightarrow>
    (let k = narrow_key k in
     if k = KEY_REQUEST_TYPE then map_ok (\<lambda>n. h\<lparr>hv_request_type := Some n\<rparr>) (read_uint R v)
     else if k = KEY_SYNC then map_ok (\<lambda>n. h\<lparr>hv_sync := n\<rparr>) (read_uint R v)
     else if k = KEY_SCHEMA_VERSION then map_ok (\<lambda>n. h\<lparr>hv_schema_version := Some n\<rparr>) (read_uint R v)
     else Ok h))"

definition kind_of_type :: "u64 \<Rightarrow> kind result" where
  "kind_of_type t =
    (if t = RESP_OK then Ok KOk
     else if t = RESP_CHUNK then Ok KChunk
     else if t = RESP_EVENT then Ok KEvent
     else if t AND RESP_ERROR_FLAG \<noteq> 0 then Ok KError
     else Err (Protocol (''unknown response type '' @ fmt_hex (unat t))))"

definition on_this :: "(response \<Rightarrow> response) \<Rightarrow> body_vars \<Rightarrow> body_vars" where
  "on_this f b = b\<lparr>bv_this := f (bv_this b)\<rparr>"

definition body_entry :: "rmp \<Rightarrow> body_vars \<Rightarrow> entry \<Rightarrow> body_vars result" where
  "body_entry R b e = (case e of (k, start, v) \<Rightarrow>
    (let rng = (start, start + length v); k = narrow_key k in
     if k = KEY_DATA then Ok (on_this (rs_data_update (\<lambda>_. Some rng)) b)
     else if k = KEY_POSITION then map_ok (\<lambda>s. on_this (rs_position_update (\<lambda>_. Some s)) b) (read_str R v)
     else if k = KEY_ERROR_24 then map_ok (\<lambda>s. b\<lparr>bv_error_24 := Some s\<rparr>) (read_str R v)
     else if k = KEY_ERROR then Ok (b\<lparr>bv_error_ext := Some v\<rparr>)
     else if k = KEY_EVENT_KEY then map_ok (\<lambda>s. on_this (rs_event_key_update (\<lambda>_. Some s)) b) (read_str R v)
     else if k = KEY_EVENT_DATA then Ok (on_this (rs_event_data_update (\<lambda>_. Some rng)) b)
     else if k = KEY_METADATA then Ok (on_this (rs_metadata_update (\<lambda>_. Some rng)) b)
     else if k = KEY_BIND_METADATA then Ok (on_this (rs_bind_metadata_update (\<lambda>_. Some rng)) b)
     else if k = KEY_SQL_INFO then Ok (on_this (rs_sql_info_update (\<lambda>_. Some rng)) b)
     else if k = KEY_BIND_COUNT then map_ok (\<lambda>n. on_this (rs_bind_count_update (\<lambda>_. Some n)) b) (read_uint R v)
     else if k = KEY_STMT_ID then map_ok (\<lambda>n. on_this (rs_stmt_id_update (\<lambda>_. Some n)) b) (read_uint R v)
     else Ok b))"

definition empty_response :: "kind \<Rightarrow> u64 \<Rightarrow> u64 option \<Rightarrow> bytes \<Rightarrow> response" where
  "empty_response k sync schema body =
    \<lparr>rs_kind = k, rs_sync = sync, rs_schema_version = schema, rs_body = body, rs_data = None,
     rs_position = None, rs_error = None, rs_event_key = None, rs_event_data = None, rs_metadata = None,
     rs_bind_metadata = None, rs_sql_info = None, rs_bind_count = None, rs_stmt_id = None\<rparr>"

definition parse_header :: "rmp \<Rightarrow> bytes \<Rightarrow> (u64 \<times> response) result" where
  "parse_header R packet =
    and_then (map_cursor_new packet) (\<lambda>(header, header_len).
    and_then (walk R (header_entry R) header
        \<lparr>hv_request_type = None, hv_sync = 0, hv_schema_version = None\<rparr>) (\<lambda>h.
    and_then (ok_or (hv_request_type h) (Protocol ''response header has no request type'')) (\<lambda>request_type.
    and_then (kind_of_type request_type) (\<lambda>k.
    and_then (slice_range packet header_len (length packet)) (\<lambda>body.
    Ok (request_type, empty_response k (hv_sync h) (hv_schema_version h) body))))))"

definition attach_error :: "rmpv \<Rightarrow> u64 \<Rightarrow> body_vars \<Rightarrow> response result" where
  "attach_error V request_type b =
    (if rs_kind (bv_this b) = KError
     then let code = unwrap_or (u32_of_u64 (request_type AND NOT RESP_ERROR_FLAG)) 0 in
       map_ok (\<lambda>e. (bv_this b)\<lparr>rs_error := Some e\<rparr>)
         (case bv_error_ext b of
            Some bs \<Rightarrow> decode_error_map V bs code
          | None \<Rightarrow> Ok (from_message code (unwrap_or (bv_error_24 b) [])))
     else Ok (bv_this b))"

definition response_parse :: "rmp \<Rightarrow> rmpv \<Rightarrow> bytes \<Rightarrow> response result" where
  "response_parse R V packet =
    and_then (parse_header R packet) (\<lambda>(request_type, this).
    if rs_body this = [] then Ok this
    else
      and_then (map_cursor_new (rs_body this)) (\<lambda>(body, _).
      and_then (walk R (body_entry R) body
          \<lparr>bv_this = this, bv_error_24 = None, bv_error_ext = None\<rparr>) (\<lambda>b.
      attach_error V request_type b)))"

definition response_slice :: "response \<Rightarrow> (nat \<times> nat) option \<Rightarrow> bytes option result" where
  "response_slice r rng = (case rng of
     None \<Rightarrow> Ok None
   | Some (s, e) \<Rightarrow> map_ok Some (slice_range (rs_body r) s e))"

definition data_bytes :: "response \<Rightarrow> bytes result" where
  "data_bytes r = map_ok (\<lambda>bs. unwrap_or bs [0xc0]) (response_slice r (rs_data r))"

definition has_data :: "response \<Rightarrow> bool" where
  "has_data r = (rs_data r \<noteq> None)"

definition metadata_bytes :: "response \<Rightarrow> bytes option result" where
  "metadata_bytes r = response_slice r (rs_metadata r)"

definition bind_metadata_bytes :: "response \<Rightarrow> bytes option result" where
  "bind_metadata_bytes r = response_slice r (rs_bind_metadata r)"

definition sql_info_bytes :: "response \<Rightarrow> bytes option result" where
  "sql_info_bytes r = response_slice r (rs_sql_info r)"

text \<open>\<open>data::<T>()\<close>: the parameter \<open>de\<close> is \<open>rmp_serde::from_slice::<T>\<close>.\<close>

definition response_data :: "(bytes \<Rightarrow> (string, 'a) outcome) \<Rightarrow> response \<Rightarrow> 'a result" where
  "response_data de r = and_then (data_bytes r) (\<lambda>bs. map_err Decode (de bs))"

definition event :: "response \<Rightarrow> (string \<times> bytes) option result" where
  "event r = (case rs_event_key r of
     None \<Rightarrow> Ok None
   | Some key \<Rightarrow> map_ok (\<lambda>bs. Some (key, unwrap_or bs [0xc0])) (response_slice r (rs_event_data r)))"

definition into_error :: "response \<Rightarrow> server_error" where
  "into_error r = unwrap_or (rs_error r) (from_message 0 ''unknown server error'')"

definition body_map_entry :: "rmpv \<Rightarrow> (u64 \<rightharpoonup> mpvalue) \<Rightarrow> entry \<Rightarrow> (u64 \<rightharpoonup> mpvalue) result" where
  "body_map_entry V m e = (case e of (k, _, v) \<Rightarrow>
    (case read_value V v of
       Inl err \<Rightarrow> Err (Protocol (''malformed body value: '' @ err))
     | Inr (value, _) \<Rightarrow> Ok (m(k \<mapsto> value))))"

definition body_map :: "rmp \<Rightarrow> rmpv \<Rightarrow> response \<Rightarrow> (u64 \<rightharpoonup> mpvalue) result" where
  "body_map R V r =
    (if rs_body r = [] then Ok Map.empty
     else and_then (map_cursor_new (rs_body r)) (\<lambda>(cursor, _).
       walk R (body_map_entry V) cursor Map.empty))"

section \<open>The decoder and the encoder\<close>

text \<open>\<open>decode\<close> returns the buffer it leaves and what it yields; on an error the buffer is left as stated.\<close>

definition decode :: "rmp \<Rightarrow> rmpv \<Rightarrow> bytes \<Rightarrow> bytes \<times> response option result" where
  "decode R V src = (case src of
     [] \<Rightarrow> (src, Ok None)
   | marker # _ \<Rightarrow> (case frame_prefix marker of
       Ok prefix \<Rightarrow>
         if length src < prefix then (src, Ok None)
         else (case frame_len src marker prefix of
             Ok len \<Rightarrow>
               if len > MAX_PACKET_LEN
               then (src, Err (Protocol (''packet of '' @ fmt_nat len @ '' bytes exceeds the 2 GiB limit'')))
               else if length src < prefix + len then (src, Ok None)
               else (drop (prefix + len) src,
                     map_ok Some (response_parse R V (take len (drop prefix src))))
           | Err e \<Rightarrow> (src, Err e)
           | Panic \<Rightarrow> (src, Panic))
     | Err e \<Rightarrow> (src, Err e)
     | Panic \<Rightarrow> (src, Panic)))"

definition encode :: "bytes \<Rightarrow> bytes \<Rightarrow> bytes result" where
  "encode packet dst =
    (if length packet < 2 ^ 32 then Ok (dst @ 0xce # be_bytes 4 (length packet) @ packet)
     else Err (Protocol ''request exceeds the 4 GiB packet limit''))"

section \<open>Correctness of the framing\<close>

lemma frame_prefix_no_panic [simp]: "frame_prefix m \<noteq> Panic"
  by (simp add: frame_prefix_def)

lemma frame_prefix_Ok:
  "frame_prefix m = Ok k \<Longrightarrow> k = 1 \<and> m \<le> 0x7f \<or> (m, k) \<in> {(0xcc, 2), (0xcd, 3), (0xce, 5), (0xcf, 9)}"
  unfolding frame_prefix_def by (simp split: if_splits)

lemma frame_prefix_bounds: "frame_prefix m = Ok k \<Longrightarrow> 1 \<le> k \<and> k \<le> 9"
  by (drule frame_prefix_Ok) auto

text \<open>A length of any legal width in front of a packet.\<close>

definition length_prefix :: "bytes \<Rightarrow> nat \<Rightarrow> bool" where
  "length_prefix hdr n \<longleftrightarrow> (case hdr of
     [] \<Rightarrow> False
   | m # t \<Rightarrow> frame_prefix m = Ok (length hdr) \<and> n = (if t = [] then unat m else be_nat t))"

lemma frame_len_prefix:
  assumes "length_prefix (m # t) n"
  shows "frame_prefix m = Ok (Suc (length t))" "frame_len (m # t @ rest) m (Suc (length t)) = Ok n"
  using assms by (auto simp: length_prefix_def frame_len_def slice_range_def get_range_def)

lemma decode_prefix:
  assumes "length_prefix hdr n"
  shows "decode R V (hdr @ rest) =
    (if n > MAX_PACKET_LEN
     then (hdr @ rest, Err (Protocol (''packet of '' @ fmt_nat n @ '' bytes exceeds the 2 GiB limit'')))
     else if length rest < n then (hdr @ rest, Ok None)
     else (drop n rest, map_ok Some (response_parse R V (take n rest))))"
proof -
  from assms obtain m t where h: "hdr = m # t" by (cases hdr) (auto simp: length_prefix_def)
  note f = frame_len_prefix [OF assms [unfolded h]]
  show ?thesis by (simp add: decode_def h f)
qed

lemma decode_short:
  assumes "length_prefix hdr n" "hdr = x @ y" "y \<noteq> []"
  shows "decode R V x = (x, Ok None)"
proof (cases x)
  case (Cons m t)
  have "hdr = m # t @ y" using assms(2) Cons by simp
  then have "frame_prefix m = Ok (length hdr)" using assms(1) by (simp add: length_prefix_def)
  moreover have "length x < length hdr" using assms(2,3) by simp
  ultimately show ?thesis using Cons by (simp add: decode_def)
qed (simp add: decode_def)

definition frame :: "bytes \<Rightarrow> bytes" where
  "frame packet = 0xce # be_bytes 4 (length packet) @ packet"

lemma encode_frame: "length packet < 2 ^ 32 \<Longrightarrow> encode packet dst = Ok (dst @ frame packet)"
  by (simp add: encode_def frame_def)

lemma length_prefix_wide: "n < 2 ^ 32 \<Longrightarrow> length_prefix (0xce # be_bytes 4 n) n"
  by (simp add: length_prefix_def frame_prefix_def byte_simps) (metis length_be_bytes list.size(3) zero_neq_numeral)

interpretation wire: framing "decode R V" frame "response_parse R V" "\<lambda>p. length p \<le> MAX_PACKET_LEN"
  for R :: rmp and V :: rmpv
proof unfold_locales
  show "decode R V [] = ([], Ok None)" by (simp add: decode_def)
next
  fix p rest :: bytes
  assume p: "length p \<le> MAX_PACKET_LEN"
  then have h: "length_prefix (0xce # be_bytes 4 (length p)) (length p)"
    by (intro length_prefix_wide) (simp add: MAX_PACKET_LEN_def)
  show "decode R V (frame p @ rest) = (rest, map_ok Some (response_parse R V p))"
    using decode_prefix [OF h, of R V "p @ rest"] p by (simp add: frame_def)
next
  fix p x y :: bytes
  assume p: "length p \<le> MAX_PACKET_LEN" "frame p = x @ y" "y \<noteq> []"
  let ?h = "0xce # be_bytes 4 (length p) :: bytes"
  have h: "length_prefix ?h (length p)"
    using p(1) by (intro length_prefix_wide) (simp add: MAX_PACKET_LEN_def)
  have hp: "?h @ p = x @ y" using p(2) by (simp add: frame_def)
  consider (short) z where "?h = x @ z" "z \<noteq> []" | (long) z where "x = ?h @ z" "p = z @ y"
    using hp by (auto simp only: append_eq_append_conv2) (metis append_Nil append_Nil2)+
  then show "decode R V x = (x, Ok None)"
  proof cases
    case short
    then show ?thesis by (rule decode_short [OF h])
  next
    case long
    then have "length z < length p" using p(3) by simp
    then show ?thesis using decode_prefix [OF h, of R V z] p(1) long by simp
  qed
qed

lemma decode_cases:
  obtains (wait) "decode R V src = (src, Ok None)" "length src < MAX_PACKET_LEN + 9"
    | (bad) e where "decode R V src = (src, Err e)"
    | (packet) hdr p rest where "src = hdr @ p @ rest" "length_prefix hdr (length p)"
        "length p \<le> MAX_PACKET_LEN" "decode R V src = (rest, map_ok Some (response_parse R V p))"
proof (cases src)
  case Nil
  then show ?thesis by (intro wait) (simp_all add: decode_def MAX_PACKET_LEN_def)
next
  case (Cons m t)
  show ?thesis
  proof (cases "frame_prefix m")
    case (Ok k)
    note k = frame_prefix_bounds [OF Ok]
    show ?thesis
    proof (cases "length src < k")
      case True
      then show ?thesis using Ok Cons k by (intro wait) (simp_all add: decode_def)
    next
      case False
      define hdr where "hdr = take k src"
      define rest where "rest = drop k src"
      have s: "src = hdr @ rest" "length hdr = k" using False by (simp_all add: hdr_def rest_def)
      obtain n where n: "length_prefix hdr n"
        using s Ok Cons k by (cases hdr) (auto simp: length_prefix_def)
      note d = decode_prefix [OF n, of R V rest, folded s(1)]
      consider "n > MAX_PACKET_LEN" | "n \<le> MAX_PACKET_LEN" "length rest < n" | "n \<le> MAX_PACKET_LEN" "n \<le> length rest"
        by linarith
      then show ?thesis
      proof cases
        case 1
        then show ?thesis using d by (intro bad) simp
      next
        case 2
        then show ?thesis using d s k by (intro wait) simp_all
      next
        case 3
        then show ?thesis using d s(1) n by (intro packet [of hdr "take n rest" "drop n rest"]) simp_all
      qed
    qed
  next
    case (Err e)
    then show ?thesis using Cons by (intro bad [of e]) (simp add: decode_def)
  qed simp
qed

section \<open>Parsing is safe and locates values\<close>

lemma read_uint_no_panic [simp]: "read_uint R v \<noteq> Panic"
  by (simp add: read_uint_def)

lemma read_str_no_panic [simp]: "read_str R v \<noteq> Panic"
  by (auto simp: read_str_def outcome_simps split: prod.splits)

lemma header_entry_no_panic: "header_entry R h e \<noteq> Panic"
  by (simp add: header_entry_def Let_def split: prod.split)

lemma body_entry_no_panic: "body_entry R b e \<noteq> Panic"
  by (simp add: body_entry_def Let_def split: prod.split)

lemma decode_error_map_no_panic [simp]: "decode_error_map V bs code \<noteq> Panic"
proof -
  have "decode_error_frame V f \<noteq> Panic" for f by (simp add: decode_error_frame_def)
  then have "collect (decode_error_frame V) fs \<noteq> Panic" for fs by (intro collect_no_panic)
  then show ?thesis
    by (auto simp: decode_error_map_def outcome_simps split: sum.splits list.splits)
qed

lemma attach_error_no_panic: "attach_error V t b \<noteq> Panic"
  by (simp add: attach_error_def Let_def split: option.split)

text \<open>Every located range is one MessagePack value inside the body.\<close>

definition range_value :: "bytes \<Rightarrow> (nat \<times> nat) option \<Rightarrow> bool" where
  "range_value body rng = (case rng of
     None \<Rightarrow> True
   | Some (s, e) \<Rightarrow> s \<le> e \<and> e \<le> length body \<and> mp_value (take (e - s) (drop s body)))"

definition response_inv :: "response \<Rightarrow> bool" where
  "response_inv r \<longleftrightarrow> range_value (rs_body r) (rs_data r) \<and> range_value (rs_body r) (rs_event_data r) \<and>
     range_value (rs_body r) (rs_metadata r) \<and> range_value (rs_body r) (rs_bind_metadata r) \<and>
     range_value (rs_body r) (rs_sql_info r)"

lemma response_slice_value:
  "range_value (rs_body r) rng \<Longrightarrow> \<exists>bs. response_slice r rng = Ok bs \<and> (\<forall>v. bs = Some v \<longrightarrow> mp_value v)"
  by (auto simp: range_value_def response_slice_def split: option.splits)

lemma empty_response_inv: "response_inv (empty_response k s sv body)"
  by (simp add: response_inv_def empty_response_def range_value_def)

lemma body_entry_inv:
  assumes "response_inv (bv_this b)" "rs_body (bv_this b) = body" "rs_kind (bv_this b) = k0"
    and "st + length v \<le> length body" "mp_value v" "take (length v) (drop st body) = v"
    and "body_entry R b (k, st, v) = Ok b'"
  shows "response_inv (bv_this b') \<and> rs_body (bv_this b') = body \<and> rs_kind (bv_this b') = k0"
proof -
  have "range_value body (Some (st, st + length v))" using assms(4-6) by (simp add: range_value_def)
  then show ?thesis
    using assms(1-3,7) unfolding body_entry_def Let_def
    by (auto simp: response_inv_def on_this_def split: if_splits)
qed

lemma attach_error_inv: "attach_error V t b = Ok r \<Longrightarrow> response_inv (bv_this b) \<Longrightarrow> response_inv r"
  by (auto simp: attach_error_def response_inv_def Let_def split: if_splits)

lemma parse_header_Ok:
  assumes "parse_header R packet = Ok (t, r)"
  shows "response_inv r" "length (rs_body r) \<le> length packet" "rs_error r = None"
  using assms by (auto simp: parse_header_def slice_range_def get_range_def empty_response_inv empty_response_def
      response_inv_def range_value_def split: if_splits)

lemma parse_header_no_panic:
  assumes "length packet \<le> packet_bound"
  shows "parse_header R packet \<noteq> Panic"
proof -
  have "kind_of_type t \<noteq> Panic" for t by (simp add: kind_of_type_def)
  moreover have "slice_range packet n (length packet) \<noteq> Panic" if "map_cursor_new packet = Ok (c, n)" for c n
    using cursor_new_inv [OF that assms] by (auto simp: cursor_inv_def)
  ultimately show ?thesis
    using cursor_new_inv(1) [OF _ assms] walk_no_panic [OF _ header_entry_no_panic]
    by (fastforce simp: parse_header_def outcome_simps split: prod.splits)
qed

lemma response_parse_no_panic:
  assumes "length packet \<le> packet_bound"
  shows "response_parse R V packet \<noteq> Panic"
proof -
  have "walk R (body_entry R) c b \<noteq> Panic"
    if "map_cursor_new body = Ok (c, n)" "length body \<le> packet_bound" for body c n b
    by (rule walk_no_panic [OF cursor_new_inv(1) [OF that] body_entry_no_panic])
  then show ?thesis
    using parse_header_no_panic [OF assms] parse_header_Ok(2) assms
    by (fastforce simp: response_parse_def outcome_simps attach_error_no_panic split: prod.splits if_splits)
qed

lemma response_parse_inv:
  assumes "length packet \<le> packet_bound" "response_parse R V packet = Ok r"
  shows "response_inv r"
proof -
  from assms(2) obtain t this where h: "parse_header R packet = Ok (t, this)"
    by (auto simp: response_parse_def)
  show ?thesis
  proof (cases "rs_body this = []")
    case True
    then show ?thesis using assms(2) h parse_header_Ok(1) by (simp add: response_parse_def)
  next
    case False
    with assms(2) h obtain c n b where
      c: "map_cursor_new (rs_body this) = Ok (c, n)" and
      w: "walk R (body_entry R) c \<lparr>bv_this = this, bv_error_24 = None, bv_error_ext = None\<rparr> = Ok b" and
      a: "attach_error V t b = Ok r"
      by (auto simp: response_parse_def)
    have len: "length (rs_body this) \<le> packet_bound" using parse_header_Ok(2) [OF h] assms(1) by simp
    note inv = cursor_new_inv [OF c len]
    have "response_inv (bv_this b) \<and> rs_body (bv_this b) = rs_body this \<and> rs_kind (bv_this b) = rs_kind this"
    proof (rule walk_invariant [OF inv(1) _ w])
      show "response_inv (bv_this \<lparr>bv_this = this, bv_error_24 = None, bv_error_ext = None\<rparr>) \<and>
        rs_body (bv_this \<lparr>bv_this = this, bv_error_24 = None, bv_error_ext = None\<rparr>) = rs_body this \<and>
        rs_kind (bv_this \<lparr>bv_this = this, bv_error_24 = None, bv_error_ext = None\<rparr>) = rs_kind this"
        using parse_header_Ok(1) [OF h] by simp
    qed (use inv in \<open>auto simp: cursor_inv_def dest!: body_entry_inv [rotated 6]\<close>)
    then show ?thesis using attach_error_inv [OF a] by simp
  qed
qed

section \<open>Packets of two maps\<close>

text \<open>On a header map and a body map, \<open>parse\<close> is the fold of its two loop bodies over their entries.\<close>

abbreviation all_values :: "(bytes \<times> bytes) list \<Rightarrow> bool" where
  "all_values kvs \<equiv> \<forall>(k, v) \<in> set kvs. mp_value k \<and> mp_value v"

lemma mp_map_head_nonempty: "mp_map_head h n \<Longrightarrow> h \<noteq> []"
  by (auto elim: mp_map_head.cases)

lemma walk_map:
  assumes "mp_map_head h (length kvs)" "all_values kvs" "length (h @ entry_bytes kvs @ rest) \<le> packet_bound"
  shows "map_cursor_new (h @ entry_bytes kvs @ rest) =
      Ok (\<lparr>mc_buf = h @ entry_bytes kvs @ rest, mc_pos = length h, mc_remaining = length kvs\<rparr>,
          length (h @ entry_bytes kvs))"
    and "walk R body \<lparr>mc_buf = h @ entry_bytes kvs @ rest, mc_pos = length h, mc_remaining = length kvs\<rparr> s =
      run_entries R body (length h) kvs s"
  using cursor_new_head [OF assms(1) mp_values_entries [OF assms(2)] assms(3)]
    walk_run_entries [OF assms(2,3), of "length h" rest R body s] by simp_all

lemma parse_two_maps:
  assumes "mp_map_head h (length hs)" "all_values hs" "mp_map_head b (length bs)" "all_values bs"
    and "length (h @ entry_bytes hs @ b @ entry_bytes bs) \<le> packet_bound"
  shows "response_parse R V (h @ entry_bytes hs @ b @ entry_bytes bs) =
    and_then (run_entries R (header_entry R) (length h) hs
      \<lparr>hv_request_type = None, hv_sync = 0, hv_schema_version = None\<rparr>) (\<lambda>hv.
    and_then (ok_or (hv_request_type hv) (Protocol ''response header has no request type'')) (\<lambda>t.
    and_then (kind_of_type t) (\<lambda>k.
    and_then (run_entries R (body_entry R) (length b) bs
      \<lparr>bv_this = empty_response k (hv_sync hv) (hv_schema_version hv) (b @ entry_bytes bs),
       bv_error_24 = None, bv_error_ext = None\<rparr>) (attach_error V t))))"
proof -
  let ?p = "h @ entry_bytes hs @ b @ entry_bytes bs" and ?b = "b @ entry_bytes bs"
  note hd = walk_map [OF assms(1,2,5)]
  have bl: "length (b @ entry_bytes bs @ []) \<le> packet_bound" using assms(5) by simp
  note bd = walk_map [OF assms(3,4) bl, simplified]
  have sl: "slice_range ?p (length (h @ entry_bytes hs)) (length ?p) = Ok ?b"
    by (simp add: slice_range_def get_range_def)
  have "b \<noteq> []" using mp_map_head_nonempty [OF assms(3)] .
  then show ?thesis
    unfolding response_parse_def parse_header_def hd and_then.simps and_then_assoc prod.case sl
    by (simp add: bd empty_response_def and_then_assoc del: and_then_eq_Ok)
qed

context rmp_contract
begin

lemma read_uint_write [simp]: "read_uint R (write_uint R v) = Ok v"
  by (simp add: read_uint_def read_uint_alone)

lemma read_str_write:
  assumes "length s < 2 ^ 32" "utf8_valid (str_bytes s)"
  shows "read_str R (write_str R s) = Ok s"
proof -
  have "unat (of_nat (length s) :: u32) = length s" using assms(1) by (rule unat_of_nat_u32)
  then have "get_range (str_bytes s) 0 (unat (of_nat (length s) :: u32)) = Some (str_bytes s)"
    by (simp add: get_range_def)
  then show ?thesis
    using assms by (simp add: read_str_def write_str_eq read_write_str_len from_utf8_def)
qed

lemma unat_write_map_len: "n < 2 ^ 32 \<Longrightarrow> mp_map_head (write_map_len R (of_nat n)) n"
  using map_len [of "of_nat n"] by (simp add: unat_of_nat_u32)

lemmas writer_values = uint_value sint_value str_value bool_mp_value f64_mp_value

end

definition entry_of :: "rmp \<Rightarrow> u8 \<Rightarrow> bytes \<Rightarrow> bytes \<times> bytes" where
  "entry_of R k v = (write_uint R (ucast k), v)"

lemma put_uint_entry: "put_uint R k v = entry_bytes [entry_of R k (write_uint R v)]"
  by (simp add: put_uint_def entry_of_def)

definition mp_map :: "rmp \<Rightarrow> (u8 \<times> bytes) list \<Rightarrow> bytes" where
  "mp_map R kvs = write_map_len R (of_nat (length kvs)) @ entry_bytes (map (\<lambda>(k, v). entry_of R k v) kvs)"

text \<open>A header and a body with one-byte keys, as the server writes them.\<close>

definition two_maps :: "rmp \<Rightarrow> (u8 \<times> bytes) list \<Rightarrow> (u8 \<times> bytes) list \<Rightarrow> bytes" where
  "two_maps R hs bs = mp_map R hs @ mp_map R bs"

fun run_keys :: "('s \<Rightarrow> entry \<Rightarrow> 's result) \<Rightarrow> rmp \<Rightarrow> nat \<Rightarrow> (u8 \<times> bytes) list \<Rightarrow> 's \<Rightarrow> 's result" where
  "run_keys body R off [] s = Ok s"
| "run_keys body R off ((k, v) # kvs) s =
    (let st = off + length (write_uint R (ucast k)) in
     and_then (body s (ucast k, st, v)) (run_keys body R (st + length v) kvs))"

context rmp_contract
begin

lemma run_entries_keys:
  "run_entries R body off (map (\<lambda>(k, v). entry_of R k v) kvs) = run_keys body R off kvs"
proof (induction kvs arbitrary: off)
  case Nil
  then show ?case by (simp add: fun_eq_iff)
next
  case (Cons kv kvs)
  obtain k v where kv: "kv = (k, v)" by (cases kv)
  show ?case
    by (rule HOL.ext) (simp add: kv entry_of_def [of R k v] Let_def Cons.IH del: and_then_eq_Ok)
qed

lemma entries_of_values: "\<forall>v \<in> snd ` set kvs. mp_value v \<Longrightarrow> all_values (map (\<lambda>(k, v). entry_of R k v) kvs)"
  by (auto simp: entry_of_def uint_value)

lemma mp_map_value: "length kvs < 2 ^ 32 \<Longrightarrow> \<forall>v \<in> snd ` set kvs. mp_value v \<Longrightarrow> mp_value (mp_map R kvs)"
  unfolding mp_map_def using mp_values_entries [OF entries_of_values]
  by (intro mp_value_map [OF unat_write_map_len]) simp_all

lemma parse_packet:
  assumes "\<forall>v \<in> snd ` set (hs @ bs). mp_value v" "length hs < 2 ^ 32" "length bs < 2 ^ 32"
    and "length (two_maps R hs bs) \<le> packet_bound"
  shows "response_parse R V (two_maps R hs bs) =
    and_then (run_keys (header_entry R) R (length (write_map_len R (of_nat (length hs)))) hs
      \<lparr>hv_request_type = None, hv_sync = 0, hv_schema_version = None\<rparr>) (\<lambda>hv.
    and_then (ok_or (hv_request_type hv) (Protocol ''response header has no request type'')) (\<lambda>t.
    and_then (kind_of_type t) (\<lambda>k.
    and_then (run_keys (body_entry R) R (length (write_map_len R (of_nat (length bs)))) bs
      \<lparr>bv_this = empty_response k (hv_sync hv) (hv_schema_version hv) (mp_map R bs),
       bv_error_24 = None, bv_error_ext = None\<rparr>) (attach_error V t))))"
proof -
  let ?e = "map (\<lambda>(k, v). entry_of R k v)"
  have v: "all_values (?e hs)" by (rule entries_of_values) (use assms(1) in auto)
  have w: "all_values (?e bs)" by (rule entries_of_values) (use assms(1) in auto)
  have m: "mp_map_head (write_map_len R (of_nat (length hs))) (length (?e hs))"
      "mp_map_head (write_map_len R (of_nat (length bs))) (length (?e bs))"
    using assms(2,3) by (auto intro: unat_write_map_len)
  show ?thesis
    using parse_two_maps [OF m(1) v m(2) w, of R V] assms(4)
    unfolding run_entries_keys by (simp add: two_maps_def mp_map_def del: and_then_eq_Ok)
qed

end

section \<open>The packets a server sends\<close>

definition ok_packet :: "rmp \<Rightarrow> u64 \<Rightarrow> u64 \<Rightarrow> bytes \<Rightarrow> bytes" where
  "ok_packet R sync schema d =
    two_maps R [(KEY_REQUEST_TYPE, write_uint R RESP_OK), (KEY_SYNC, write_uint R sync),
                (KEY_SCHEMA_VERSION, write_uint R schema)]
      [(KEY_DATA, d)]"

definition error_packet :: "rmp \<Rightarrow> u64 \<Rightarrow> u64 \<Rightarrow> string \<Rightarrow> bytes" where
  "error_packet R sync code message =
    two_maps R [(KEY_REQUEST_TYPE, write_uint R (RESP_ERROR_FLAG OR code)), (KEY_SYNC, write_uint R sync)]
      [(KEY_ERROR_24, write_str R message)]"

definition event_packet :: "rmp \<Rightarrow> string \<Rightarrow> bytes \<Rightarrow> bytes" where
  "event_packet R key d =
    two_maps R [(KEY_REQUEST_TYPE, write_uint R RESP_EVENT)]
      [(KEY_EVENT_KEY, write_str R key), (KEY_EVENT_DATA, d)]"

lemma header_keys:
  "header_entry R h (0x00, st, v) = map_ok (\<lambda>n. h\<lparr>hv_request_type := Some n\<rparr>) (read_uint R v)"
  "header_entry R h (0x01, st, v) = map_ok (\<lambda>n. h\<lparr>hv_sync := n\<rparr>) (read_uint R v)"
  "header_entry R h (0x05, st, v) = map_ok (\<lambda>n. h\<lparr>hv_schema_version := Some n\<rparr>) (read_uint R v)"
  "header_entry R h (0x0a, st, v) = Ok h"
  by (simp_all add: header_entry_def narrow_key_def u8_of_u64_def unwrap_or_def)

lemma body_keys:
  "body_entry R b (0x30, st, v) = Ok (on_this (rs_data_update (\<lambda>_. Some (st, st + length v))) b)"
  "body_entry R b (0x31, st, v) = map_ok (\<lambda>s. b\<lparr>bv_error_24 := Some s\<rparr>) (read_str R v)"
  "body_entry R b (0x57, st, v) = map_ok (\<lambda>s. on_this (rs_event_key_update (\<lambda>_. Some s)) b) (read_str R v)"
  "body_entry R b (0x58, st, v) = Ok (on_this (rs_event_data_update (\<lambda>_. Some (st, st + length v))) b)"
  by (simp_all add: body_entry_def narrow_key_def u8_of_u64_def unwrap_or_def)

lemma mp_map_slice:
  fixes R :: rmp and kvs post :: "(u8 \<times> bytes) list" and k :: u8 and v :: bytes
  defines "body \<equiv> mp_map R (kvs @ (k, v) # post)"
  defines "s \<equiv> length body - length (v @ entry_bytes (map (\<lambda>(k, v). entry_of R k v) post))"
  shows "slice_range body s (s + length v) = Ok v"
proof -
  let ?e = "\<lambda>kvs. entry_bytes (map (\<lambda>(k, v). entry_of R k v) kvs)"
  obtain pre where b: "body = pre @ v @ ?e post"
    by (auto simp: body_def mp_map_def entry_of_def)
  then have "s = length pre" by (simp add: s_def)
  then show ?thesis using b by (simp add: slice_range_def get_range_def)
qed

lemma error_code_bits:
  assumes "code < 0x8000"
  shows "(RESP_ERROR_FLAG OR code) AND NOT RESP_ERROR_FLAG = code" "(RESP_ERROR_FLAG OR code) AND - 32769 = code"
    and "(RESP_ERROR_FLAG OR code) AND RESP_ERROR_FLAG \<noteq> 0"
    and "RESP_ERROR_FLAG OR code \<noteq> RESP_OK" "RESP_ERROR_FLAG OR code \<noteq> RESP_CHUNK" "RESP_ERROR_FLAG OR code \<noteq> RESP_EVENT"
proof -
  have f: "bit RESP_ERROR_FLAG n \<longleftrightarrow> n = 15" for n using bit_exp_iff [where 'a = "64 word", of 15 n] by auto
  have "unat code < 2 ^ 15" using assms by (simp add: word_less_nat_alt)
  then have t: "take_bit 15 code = code"
    by (simp add: take_bit_eq_mod word_unat_eq_iff unat_mod del: unat_mod_distrib)
  have b: "\<not> bit code 15" by (subst t [symmetric]) (simp add: bit_take_bit_iff)
  show 1: "(RESP_ERROR_FLAG OR code) AND NOT RESP_ERROR_FLAG = code"
  proof (rule bit_word_eqI)
    fix n assume "n < LENGTH(64)"
    then show "bit ((RESP_ERROR_FLAG OR code) AND NOT RESP_ERROR_FLAG) n \<longleftrightarrow> bit code n"
      using b by (simp only: bit_and_iff bit_or_iff bit_not_iff f possible_bit_word) auto
  qed
  from 1 show "(RESP_ERROR_FLAG OR code) AND - 32769 = code" by simp
  have set: "bit (RESP_ERROR_FLAG OR code) 15" by (simp add: f bit_or_iff)
  show "(RESP_ERROR_FLAG OR code) AND RESP_ERROR_FLAG \<noteq> 0"
  proof
    assume "(RESP_ERROR_FLAG OR code) AND RESP_ERROR_FLAG = 0"
    then have "\<not> bit ((RESP_ERROR_FLAG OR code) AND RESP_ERROR_FLAG) 15" by simp
    then show False using set f [of 15] by (simp only: bit_and_iff simp_thms)
  qed
  have "\<not> bit RESP_OK 15" "\<not> bit RESP_CHUNK 15" "\<not> bit RESP_EVENT 15" by simp_all
  then show "RESP_ERROR_FLAG OR code \<noteq> RESP_OK" "RESP_ERROR_FLAG OR code \<noteq> RESP_CHUNK"
      "RESP_ERROR_FLAG OR code \<noteq> RESP_EVENT" using set by metis+
qed

context rmp_contract
begin

lemma parse_ok_packet:
  assumes "mp_value d" "length (ok_packet R sync schema d) \<le> packet_bound"
  shows "\<exists>r. response_parse R V (ok_packet R sync schema d) = Ok r \<and> rs_kind r = KOk \<and> rs_sync r = sync \<and>
    rs_schema_version r = Some schema \<and> rs_error r = None \<and> data_bytes r = Ok d"
proof -
  let ?r = "\<lambda>st. (empty_response KOk sync (Some schema) (mp_map R [(KEY_DATA, d)]))\<lparr>rs_data := Some (st, st + length d)\<rparr>"
  define st where "st = length (mp_map R [(KEY_DATA, d)]) - length d"
  have p: "response_parse R V (ok_packet R sync schema d) = Ok (?r st)"
    unfolding ok_packet_def
    by (subst parse_packet)
      (use assms in \<open>simp_all add: ok_packet_def uint_value header_keys body_keys kind_of_type_def
         attach_error_def on_this_def empty_response_def st_def mp_map_def entry_of_def Let_def
         del: and_then_eq_Ok\<close>)
  have "slice_range (mp_map R [(KEY_DATA, d)]) st (st + length d) = (Ok d :: bytes result)"
    using mp_map_slice [of R "[]" KEY_DATA d "[]"] by (simp add: st_def)
  then show ?thesis
    using p by (simp add: empty_response_def data_bytes_def response_slice_def unwrap_or_def del: map_ok_eq_Ok)
qed

lemma parse_error_packet:
  assumes "code < 0x8000" "length message < 2 ^ 32" "utf8_valid (str_bytes message)"
    and "length (error_packet R sync code message) \<le> packet_bound"
  shows "\<exists>r. response_parse R V (error_packet R sync code message) = Ok r \<and> rs_kind r = KError \<and> rs_sync r = sync \<and>
    into_error r = from_message (ucast code) message"
proof -
  have c: "u32_of_u64 code = Some (ucast code)"
    using assms(1) by (simp add: u32_of_u64_def word_less_nat_alt)
  show ?thesis
    unfolding error_packet_def
    by (subst parse_packet)
      (use assms c in \<open>simp_all add: error_packet_def uint_value str_value header_keys body_keys kind_of_type_def
         error_code_bits read_str_write attach_error_def on_this_def empty_response_def into_error_def unwrap_or_def
         Let_def del: and_then_eq_Ok\<close>)
qed

lemma parse_event_packet:
  assumes "mp_value d" "length key < 2 ^ 32" "utf8_valid (str_bytes key)"
    and "length (event_packet R key d) \<le> packet_bound"
  shows "\<exists>r. response_parse R V (event_packet R key d) = Ok r \<and> rs_kind r = KEvent \<and>
    event r = Ok (Some (key, d))"
proof -
  let ?m = "mp_map R [(KEY_EVENT_KEY, write_str R key), (KEY_EVENT_DATA, d)]"
  let ?r = "\<lambda>st. (empty_response KEvent 0 None ?m)\<lparr>rs_event_key := Some key, rs_event_data := Some (st, st + length d)\<rparr>"
  define st where "st = length ?m - length d"
  have p: "response_parse R V (event_packet R key d) = Ok (?r st)"
    unfolding event_packet_def
    by (subst parse_packet)
      (use assms in \<open>simp_all add: event_packet_def uint_value str_value read_str_write header_keys body_keys
         kind_of_type_def attach_error_def on_this_def empty_response_def st_def mp_map_def entry_of_def Let_def
         del: and_then_eq_Ok\<close>)
  have "slice_range ?m st (st + length d) = (Ok d :: bytes result)"
    using mp_map_slice [of R "[(KEY_EVENT_KEY, write_str R key)]" KEY_EVENT_DATA d "[]"] by (simp add: st_def)
  then show ?thesis
    using p by (simp add: empty_response_def event_def response_slice_def unwrap_or_def del: map_ok_eq_Ok)
qed

end

subsection \<open>Rejections\<close>

text \<open>What a server means by a rejection: the error, with the ones it was raised from.\<close>

record sent_frame =
  sf_type :: string
  sf_file :: string
  sf_line :: u64
  sf_message :: string
  sf_errno :: u64
  sf_code :: u32
  sf_fields :: "(string \<times> mpvalue) list"

definition frame_texts :: "sent_frame \<Rightarrow> string list" where
  "frame_texts f = [sf_type f, sf_file f, sf_message f] @ map fst (sf_fields f)"

definition frame_valid :: "sent_frame \<Rightarrow> bool" where
  "frame_valid f \<longleftrightarrow> list_all (\<lambda>s. utf8_valid (str_bytes s)) (frame_texts f) \<and> sorted_wrt str_less (map fst (sf_fields f))"

definition frame_value :: "sent_frame \<Rightarrow> mpvalue" where
  "frame_value f = VMap
    [(VInteger 0, VString (str_bytes (sf_type f))), (VInteger 1, VString (str_bytes (sf_file f))),
     (VInteger 2, VInteger (uint (sf_line f))), (VInteger 3, VString (str_bytes (sf_message f))),
     (VInteger 4, VInteger (uint (sf_errno f))), (VInteger 5, VInteger (uint (sf_code f))),
     (VInteger 6, VMap (map (\<lambda>(k, v). (VString (str_bytes k), v)) (sf_fields f)))]"

definition frame_error :: "sent_frame \<Rightarrow> server_error list \<Rightarrow> server_error" where
  "frame_error f causes = ServerError (sf_code f) (sf_message f) (sf_type f) (Some (sf_file f)) (Some (sf_line f))
    (sf_errno f) (sf_fields f) causes"

definition stack_value :: "sent_frame list \<Rightarrow> mpvalue" where
  "stack_value fs = VMap [(VInteger 0, VArray (map frame_value fs))]"

context rmpv_access
begin

lemma as_u64_small:
  "as_u64 V (VInteger 0) = Some 0" "as_u64 V (VInteger 1) = Some 1" "as_u64 V (VInteger 2) = Some 2"
  "as_u64 V (VInteger 3) = Some 3" "as_u64 V (VInteger 4) = Some 4" "as_u64 V (VInteger 5) = Some 5"
  "as_u64 V (VInteger 6) = Some 6"
  using as_u64_integer [of 0] as_u64_integer [of 1] as_u64_integer [of 2] as_u64_integer [of 3] as_u64_integer [of 4]
    as_u64_integer [of 5] as_u64_integer [of 6] by simp_all

lemma as_u64_code: "as_u64 V (VInteger (uint (c :: u32))) = Some (ucast c)"
proof -
  have "uint (ucast c :: u64) = uint c"
    using unsigned_less [of c, where 'a = int] by (simp add: unsigned_ucast_eq take_bit_int_eq_self)
  then show ?thesis using as_u64_integer [of "ucast c"] by simp
qed

lemma frame_decoded:
  assumes "frame_valid f"
  shows "decode_error_frame V (frame_value f) = Ok (frame_error f [])"
proof -
  have u: "utf8_valid (str_bytes (sf_type f))" "utf8_valid (str_bytes (sf_file f))" "utf8_valid (str_bytes (sf_message f))"
      "\<forall>(k, v) \<in> set (sf_fields f). utf8_valid (str_bytes k)" and s: "sorted_wrt str_less (map fst (sf_fields f))"
    using assms by (auto simp: frame_valid_def frame_texts_def list_all_iff)
  have "List.map_filter (\<lambda>(k, v). map_option (\<lambda>s. (s, v)) (as_str V k)) (map (\<lambda>(k, v). (VString (str_bytes k), v)) flds) = flds"
    if "\<forall>(k, v) \<in> set flds. utf8_valid (str_bytes k)" for flds :: "(string \<times> mpvalue) list"
    using that by (induction flds) (auto simp: List.map_filter_simps as_str_string)
  from this [OF u(4)] have "error_fields V (VMap (map (\<lambda>(k, v). (VString (str_bytes k), v)) (sf_fields f))) = sf_fields f"
    using btree_build_sorted [of "[]" "sf_fields f"] s by (simp add: error_fields_def as_map_map case_prod_unfold)
  moreover have "u32_of_u64 (ucast c) = Some c" for c :: u32
    using unat_u32_lt [of c] by (simp add: u32_of_u64_def unsigned_ucast_eq take_bit_word_eq_self take_bit_nat_eq_self)
  ultimately show ?thesis
    using u by (simp add: decode_error_frame_def frame_value_def as_map_map as_u64_small as_u64_code as_u64_integer as_str_string
      error_frame_entry_def from_message_def u8_of_u64_def unwrap_or_def frame_error_def)
qed

lemma stack_decoded:
  assumes "list_all frame_valid (f # fs)" "read_value V bs = Inr (stack_value (f # fs), rest)"
  shows "decode_error_map V bs code = Ok (frame_error f (map (\<lambda>g. frame_error g []) fs))"
proof -
  have "collect (decode_error_frame V) (map frame_value gs) = Ok (map (\<lambda>g. frame_error g []) gs)" if "list_all frame_valid gs" for gs
    using that by (induction gs) (simp_all add: frame_decoded)
  from this [OF assms(1)] show ?thesis
    using assms(2) by (simp add: decode_error_map_def error_stack_def stack_value_def as_map_map as_array_array as_u64_small
      with_cause_def frame_error_def)
qed

end


definition error_header :: "rmp \<Rightarrow> u64 \<Rightarrow> u64 \<Rightarrow> (u8 \<times> bytes) list" where
  "error_header R sync code = [(KEY_REQUEST_TYPE, write_uint R (RESP_ERROR_FLAG OR code)), (KEY_SYNC, write_uint R sync)]"

definition bare_error_packet :: "rmp \<Rightarrow> u64 \<Rightarrow> u64 \<Rightarrow> bytes" where
  "bare_error_packet R sync code = mp_map R (error_header R sync code)"

definition stack_error_packet :: "rmp \<Rightarrow> u64 \<Rightarrow> u64 \<Rightarrow> string \<Rightarrow> bytes \<Rightarrow> bytes" where
  "stack_error_packet R sync code message stack =
    two_maps R (error_header R sync code) [(KEY_ERROR_24, write_str R message), (KEY_ERROR, stack)]"

lemma body_key_error: "body_entry R b (0x52, st, v) = Ok (b\<lparr>bv_error_ext := Some v\<rparr>)"
  by (simp add: body_entry_def narrow_key_def u8_of_u64_def unwrap_or_def)

context rmp_contract
begin

lemma parse_bare_header:
  assumes "\<forall>v \<in> snd ` set hs. mp_value v" "length hs < 2 ^ 32" "length (mp_map R hs) \<le> packet_bound"
  shows "response_parse R V (mp_map R hs) =
    and_then (run_keys (header_entry R) R (length (write_map_len R (of_nat (length hs)))) hs
      \<lparr>hv_request_type = None, hv_sync = 0, hv_schema_version = None\<rparr>) (\<lambda>hv.
    and_then (ok_or (hv_request_type hv) (Protocol ''response header has no request type'')) (\<lambda>t.
    and_then (kind_of_type t) (\<lambda>k.
    Ok (empty_response k (hv_sync hv) (hv_schema_version hv) []))))"
proof -
  let ?e = "map (\<lambda>(k, v). entry_of R k v)" and ?h = "write_map_len R (of_nat (length hs))"
  have m: "mp_map_head ?h (length (?e hs))" using assms(2) by (auto intro: unat_write_map_len)
  have l: "length (?h @ entry_bytes (?e hs) @ []) \<le> packet_bound" using assms(3) by (simp add: mp_map_def)
  note w = walk_map [OF m entries_of_values [OF assms(1)] l, unfolded append_Nil2]
  have sl: "slice_range p (length p) (length p) = (Ok [] :: bytes result)" for p :: bytes
    by (simp add: slice_range_def get_range_def)
  show ?thesis
    unfolding response_parse_def parse_header_def mp_map_def w and_then.simps and_then_assoc prod.case sl run_entries_keys
    by (simp add: empty_response_def and_then_assoc del: and_then_eq_Ok)
qed

lemma parse_bare_error:
  assumes "code < 0x8000" "length (bare_error_packet R sync code) \<le> packet_bound"
  shows "\<exists>r. response_parse R V (bare_error_packet R sync code) = Ok r \<and> rs_kind r = KError \<and> rs_sync r = sync \<and>
    into_error r = from_message 0 ''unknown server error''"
  unfolding bare_error_packet_def error_header_def
  by (subst parse_bare_header)
    (use assms in \<open>simp_all add: bare_error_packet_def error_header_def uint_value header_keys kind_of_type_def
       error_code_bits empty_response_def into_error_def unwrap_or_def Let_def del: and_then_eq_Ok\<close>)

lemma parse_stack_error:
  assumes "code < 0x8000" "length message < 2 ^ 32" "utf8_valid (str_bytes message)" "mp_value stack"
    and "length (stack_error_packet R sync code message stack) \<le> packet_bound"
    and "\<And>c. decode_error_map V stack c = Ok e"
  shows "\<exists>r. response_parse R V (stack_error_packet R sync code message stack) = Ok r \<and> rs_kind r = KError \<and> rs_sync r = sync \<and>
    into_error r = e"
  unfolding stack_error_packet_def error_header_def
  by (subst parse_packet)
    (use assms in \<open>simp_all add: stack_error_packet_def error_header_def uint_value str_value header_keys body_keys body_key_error
       kind_of_type_def error_code_bits read_str_write attach_error_def on_this_def empty_response_def into_error_def unwrap_or_def
       Let_def del: and_then_eq_Ok\<close>)

end

section \<open>The request builder against its abstract meaning\<close>

text \<open>
  A chain of builder calls is a list of fields.  Its abstract meaning is the list of keys with
  encoded values; \<open>request_repr\<close> relates the concrete builder to that list.
\<close>

datatype field =
    FUint u8 u64
  | FStr u8 string
  | FBool u8 bool
  | FF64 u8 u64
  | FSerialized u8 "(string, bytes) outcome" bool
  | FExt u8 u8 bytes
  | FArray u8 "bytes result"
  | FRaw u8 bytes
  | FRawArray u8 "bytes list"

primrec apply_field :: "rmp \<Rightarrow> field \<Rightarrow> request \<Rightarrow> request result" where
  "apply_field R (FUint k v) q = request_uint R k v q"
| "apply_field R (FStr k v) q = request_str R k v q"
| "apply_field R (FBool k v) q = request_bool R k v q"
| "apply_field R (FF64 k v) q = request_f64 R k v q"
| "apply_field R (FSerialized k ser arr) q = request_serialized R k ser arr q"
| "apply_field R (FExt k tag p) q = request_ext R k tag p q"
| "apply_field R (FArray k enc) q = request_array R k enc q"
| "apply_field R (FRaw k bs) q = request_raw R k bs q"
| "apply_field R (FRawArray k els) q = request_raw_array R k els q"

fun request_build :: "rmp \<Rightarrow> field list \<Rightarrow> request \<Rightarrow> request result" where
  "request_build R [] q = Ok q"
| "request_build R (f # fs) q = and_then (apply_field R f q) (request_build R fs)"

definition request_packet :: "rmp \<Rightarrow> u64 \<Rightarrow> u64 \<Rightarrow> u64 option \<Rightarrow> field list \<Rightarrow> bytes result" where
  "request_packet R ty sync stream_id fs =
    map_ok (request_finish R) (request_build R fs (request_new R ty sync stream_id))"

primrec field_value :: "rmp \<Rightarrow> field \<Rightarrow> (u8 \<times> bytes) result" where
  "field_value R (FUint k v) = Ok (k, write_uint R v)"
| "field_value R (FStr k v) = Ok (k, write_str R v)"
| "field_value R (FBool k v) = Ok (k, write_bool R v)"
| "field_value R (FF64 k v) = Ok (k, write_f64 R v)"
| "field_value R (FSerialized k ser arr) =
    and_then (map_err Encode ser) (\<lambda>bs.
    if arr \<and> \<not> is_array_marker (get bs 0) then Err (Encode NotAnArray) else Ok (k, bs))"
| "field_value R (FExt k tag p) =
    (if length p < 2 ^ 32 then Ok (k, write_ext_meta R (of_nat (length p)) tag @ p)
     else Err (Protocol ''extension payload exceeds 4 GiB''))"
| "field_value R (FArray k enc) = map_ok (Pair k) enc"
| "field_value R (FRaw k bs) = Ok (k, bs)"
| "field_value R (FRawArray k els) =
    (if length els < 2 ^ 32 then Ok (k, write_array_len R (of_nat (length els)) @ concat els) else Panic)"

definition request_header :: "rmp \<Rightarrow> u64 \<Rightarrow> u64 \<Rightarrow> u64 option \<Rightarrow> (u8 \<times> bytes) list" where
  "request_header R ty sync stream_id =
    [(KEY_REQUEST_TYPE, write_uint R ty), (KEY_SYNC, write_uint R sync)] @
    (case stream_id of Some s \<Rightarrow> [(KEY_STREAM_ID, write_uint R s)] | None \<Rightarrow> [])"

definition request_repr :: "rmp \<Rightarrow> (u8 \<times> bytes) list \<Rightarrow> (u8 \<times> bytes) list \<Rightarrow> request \<Rightarrow> bool" where
  "request_repr R hs kvs q \<longleftrightarrow> rq_header q = mp_map R hs \<and> rq_entries q = of_nat (length kvs) \<and>
     rq_body q = entry_bytes (map (\<lambda>(k, v). entry_of R k v) kvs)"

lemma request_new_repr: "request_repr R (request_header R ty sync sid) [] (request_new R ty sync sid)"
  by (cases sid) (simp_all add: request_repr_def request_header_def request_new_def mp_map_def put_uint_entry
      entry_of_def)

lemma entry_of_nat_max: "n + 1 < 2 ^ 32 \<Longrightarrow> (of_nat n :: u32) \<noteq> - 1"
proof
  assume n: "n + 1 < 2 ^ 32" and "(of_nat n :: u32) = - 1"
  then have "unat (of_nat n :: u32) = unat (- 1 :: u32)" by simp
  moreover have "unat (- 1 :: u32) = 2 ^ 32 - 1" by (simp add: unsigned_minus_1_eq_mask mask_eq_exp_minus_1)
  ultimately show False using n unat_of_nat_u32 [of n] by simp
qed

text \<open>One call of the builder appends one entry, or fails with the value's own failure.\<close>

lemma request_key_repr:
  assumes "request_repr R hs kvs q" "length kvs + 1 < 2 ^ 32"
  shows "\<exists>q'. request_key R k q = Ok q' \<and> (\<forall>v. request_repr R hs (kvs @ [(k, v)]) (push_body v q'))"
  using assms entry_of_nat_max [OF assms(2)]
  by (simp add: request_key_def request_repr_def push_body_def entry_of_def)

lemma push_body_append: "push_body b (push_body a q) = push_body (a @ b) q"
  by (simp add: push_body_def)

lemma get_append_length: "get (xs @ ys) (length xs) = get ys 0"
  by (simp add: get_def nth_append)

lemma apply_field_repr:
  assumes "request_repr R hs kvs q" "length kvs + 1 < 2 ^ 32"
  shows "\<exists>g. apply_field R f q = map_ok g (field_value R f) \<and>
    (\<forall>kv. field_value R f = Ok kv \<longrightarrow> request_repr R hs (kvs @ [kv]) (g kv))"
proof -
  have key: "\<exists>q'. request_key R k q = Ok q' \<and> (\<forall>v. request_repr R hs (kvs @ [(k, v)]) (push_body v q'))" for k
    using request_key_repr [OF assms] .
  define k where "k = (case f of FUint k _ \<Rightarrow> k | FStr k _ \<Rightarrow> k | FBool k _ \<Rightarrow> k | FF64 k _ \<Rightarrow> k
    | FSerialized k _ _ \<Rightarrow> k | FExt k _ _ \<Rightarrow> k | FArray k _ \<Rightarrow> k | FRaw k _ \<Rightarrow> k | FRawArray k _ \<Rightarrow> k)"
  obtain q' where q': "request_key R k q = Ok q'" "\<And>v. request_repr R hs (kvs @ [(k, v)]) (push_body v q')"
    using key by blast
  have "apply_field R f q = map_ok (\<lambda>kv. push_body (snd kv) q') (field_value R f)"
  proof (cases f)
    case (FSerialized k' ser arr)
    then show ?thesis using q'(1)
      by (cases ser) (simp_all add: request_serialized_def k_def push_body_def get_append_length Let_def)
  next
    case (FArray k' enc)
    then show ?thesis using q'(1) by (cases enc) (simp_all add: request_array_def k_def)
  qed (use q'(1) in \<open>simp_all add: k_def request_uint_def request_str_def request_bool_def request_f64_def
      request_ext_def request_raw_def request_raw_array_def push_body_append\<close>)
  moreover have "field_value R f = Ok kv \<Longrightarrow> fst kv = k" for kv
    by (cases f) (auto simp: k_def split: if_splits)
  ultimately show ?thesis
    using q'(2) by (intro exI [of _ "\<lambda>kv. push_body (snd kv) q'"]) (metis prod.collapse)
qed

lemma request_build_repr:
  assumes "request_repr R hs kvs q" "length kvs + length fs < 2 ^ 32"
  shows "map_ok (request_finish R) (request_build R fs q) =
    map_ok (\<lambda>post. two_maps R hs (kvs @ post)) (collect (field_value R) fs)"
  using assms
proof (induction fs arbitrary: kvs q)
  case Nil
  then show ?case by (simp add: request_repr_def request_finish_def two_maps_def mp_map_def [of R kvs])
next
  case (Cons f fs)
  have "length kvs + 1 < 2 ^ 32" using Cons.prems(2) by simp
  from apply_field_repr [OF Cons.prems(1) this, of f] obtain g where
    g: "apply_field R f q = map_ok g (field_value R f)"
       "\<And>kv. field_value R f = Ok kv \<Longrightarrow> request_repr R hs (kvs @ [kv]) (g kv)" by metis
  show ?case
  proof (cases "field_value R f")
    case (Ok kv)
    from Cons.IH [OF g(2) [OF Ok]] Cons.prems(2)
    have "map_ok (request_finish R) (request_build R fs (g kv)) =
      map_ok (\<lambda>post. two_maps R hs (kvs @ kv # post)) (collect (field_value R) fs)" by simp
    then show ?thesis using Ok g(1) by (cases "collect (field_value R) fs") simp_all
  qed (use g(1) in simp_all)
qed

lemma request_packet_spec:
  assumes "length fs < 2 ^ 32"
  shows "request_packet R ty sync sid fs =
    map_ok (two_maps R (request_header R ty sync sid)) (collect (field_value R) fs)"
  using request_build_repr [OF request_new_repr, of fs] assms by (simp add: request_packet_def)

lemma collect_Ok_all: "collect f xs = Ok ys \<Longrightarrow> y \<in> set ys \<Longrightarrow> \<exists>x \<in> set xs. f x = Ok y"
  by (induction xs arbitrary: ys) auto

primrec field_ok :: "field \<Rightarrow> bool" where
  "field_ok (FUint k v) = True"
| "field_ok (FStr k v) = (length v < 2 ^ 32)"
| "field_ok (FBool k v) = True"
| "field_ok (FF64 k v) = True"
| "field_ok (FSerialized k ser arr) = (\<forall>bs. ser = Ok bs \<longrightarrow> mp_value bs)"
| "field_ok (FExt k tag p) = True"
| "field_ok (FArray k enc) = (\<forall>bs. enc = Ok bs \<longrightarrow> mp_value bs)"
| "field_ok (FRaw k bs) = mp_value bs"
| "field_ok (FRawArray k els) = (\<forall>e \<in> set els. mp_value e)"

lemma mp_values_concat: "\<forall>e \<in> set es. mp_value e \<Longrightarrow> mp_values (length es) (concat es)"
  by (induction es) (auto intro: mp_value_mp_values.more)

context rmp_contract
begin

lemma field_value_value:
  assumes "field_ok f" "field_value R f = Ok kv"
  shows "mp_value (snd kv)"
proof (cases f)
  case (FExt k tag p)
  then have "length p < 2 ^ 32" "kv = (k, write_ext_meta R (of_nat (length p)) tag @ p)"
    using assms(2) by (auto split: if_splits)
  moreover from this have "length p = unat (of_nat (length p) :: u32)" by (simp add: unat_of_nat_u32)
  ultimately show ?thesis using mp_value_atom [OF ext_meta [of p "of_nat (length p)" tag]] by simp
next
  case (FRawArray k els)
  then have "length els < 2 ^ 32" "kv = (k, write_array_len R (of_nat (length els)) @ concat els)"
    using assms(2) by (auto split: if_splits)
  moreover have "mp_values (length els) (concat els)" using assms(1) FRawArray by (simp add: mp_values_concat)
  ultimately show ?thesis
    using mp_value_array [OF array_len [of "of_nat (length els)"]] by (simp add: unat_of_nat_u32)
qed (use assms in \<open>auto simp: writer_values split: if_splits\<close>)

lemma request_header_values: "\<forall>v \<in> snd ` set (request_header R ty sync sid). mp_value v"
  by (cases sid) (auto simp: request_header_def uint_value)

lemma request_packet_values:
  assumes "length fs < 2 ^ 32" "\<forall>f \<in> set fs. field_ok f" "request_packet R ty sync sid fs = Ok p"
  shows "\<exists>kvs. collect (field_value R) fs = Ok kvs \<and>
    p = mp_map R (request_header R ty sync sid) @ mp_map R kvs \<and>
    mp_value (mp_map R (request_header R ty sync sid)) \<and> mp_value (mp_map R kvs)"
proof -
  from assms(3) obtain kvs where k: "collect (field_value R) fs = Ok kvs"
      "p = two_maps R (request_header R ty sync sid) kvs"
    by (auto simp: request_packet_spec [OF assms(1)])
  have "\<forall>v \<in> snd ` set kvs. mp_value v"
    using collect_Ok_all [OF k(1)] assms(2) field_value_value by fastforce
  moreover have "length kvs < 2 ^ 32" using collect_Ok_length [OF k(1)] assms(1) by simp
  moreover have "length (request_header R ty sync sid) < 2 ^ 32" by (cases sid) (simp_all add: request_header_def)
  ultimately show ?thesis
    using k mp_map_value request_header_values by (auto simp: two_maps_def)
qed

end

text \<open>What a reader finds in a map: keys and encoded values in order, and where the map ends.\<close>

definition keep_entry :: "(u64 \<times> bytes) list \<Rightarrow> entry \<Rightarrow> (u64 \<times> bytes) list result" where
  "keep_entry acc e = (case e of (k, _, v) \<Rightarrow> Ok (acc @ [(k, v)]))"

definition read_entries :: "rmp \<Rightarrow> bytes \<Rightarrow> ((u64 \<times> bytes) list \<times> nat) result" where
  "read_entries R buf =
    and_then (map_cursor_new buf) (\<lambda>(c, n). map_ok (\<lambda>es. (es, n)) (walk R keep_entry c []))"

lemma run_keys_keep: "run_keys keep_entry R off kvs acc = Ok (acc @ map (\<lambda>(k, v). (ucast k, v)) kvs)"
  by (induction kvs arbitrary: off acc) (auto simp: keep_entry_def Let_def)

fun encode_all :: "bytes list \<Rightarrow> bytes \<Rightarrow> bytes result" where
  "encode_all [] dst = Ok dst"
| "encode_all (p # ps) dst = and_then (encode p dst) (encode_all ps)"

lemma encode_all_frames:
  "\<forall>p \<in> set ps. length p \<le> MAX_PACKET_LEN \<Longrightarrow> encode_all ps dst = Ok (dst @ concat (map frame ps))"
  by (induction ps arbitrary: dst) (auto simp: encode_frame MAX_PACKET_LEN_def)

context rmp_contract
begin

lemma read_entries_map:
  assumes "length kvs < 2 ^ 32" "\<forall>v \<in> snd ` set kvs. mp_value v" "length (mp_map R kvs @ rest) \<le> packet_bound"
  shows "read_entries R (mp_map R kvs @ rest) = Ok (map (\<lambda>(k, v). (ucast k, v)) kvs, length (mp_map R kvs))"
proof -
  let ?es = "map (\<lambda>(k, v). entry_of R k v) kvs" and ?h = "write_map_len R (of_nat (length kvs))"
  have h: "mp_map_head ?h (length ?es)" using assms(1) by (simp add: unat_write_map_len)
  have len: "length (?h @ entry_bytes ?es @ rest) \<le> packet_bound" using assms(3) by (simp add: mp_map_def)
  note w = walk_map [OF h entries_of_values [OF assms(2)] len]
  show ?thesis
    unfolding read_entries_def mp_map_def append_assoc w and_then.simps prod.case
    by (simp add: run_entries_keys run_keys_keep)
qed

end

section \<open>Properties\<close>

text \<open>
  C5: Packets survive the byte stream.  Encode any sequence of packets of at most 2 GiB that the
  parser accepts, cut the resulting bytes into chunks in any way whatsoever, and feed the chunks to the
  decoder: it yields exactly the parsed packets, once each and in order, and leaves an empty buffer.
\<close>

theorem frames_survive_chunking:
  assumes "\<forall>p \<in> set ps. length p \<le> MAX_PACKET_LEN \<and> response_parse R V p = Ok (f p)"
    and "encode_all ps [] = Ok (concat chunks)" and "chunks \<noteq> []"
  shows "feed (decode R V) [] chunks = (map (\<lambda>p. Ok (f p)) ps, [])"
proof -
  have "concat chunks = concat (map frame ps)"
    using assms(2) encode_all_frames [of ps "[]"] assms(1) by simp
  then show ?thesis using wire.feed_chunks [OF assms(1), of "[]" chunks] assms(3) by simp
qed

theorem frames_survive_chunking_witness:
  "\<exists>r. response_parse ref_rmp ref_rmpv [0x81, 0x00, 0x00] = Ok r \<and>
     feed (decode ref_rmp ref_rmpv) [] [[0xce, 0x00, 0x00], [0x00], [0x03, 0x81, 0x00, 0x00, 0xce, 0x00],
       [0x00, 0x00, 0x03, 0x81, 0x00, 0x00]] = ([Ok r, Ok r], [])"
proof -
  have p: "response_parse ref_rmp ref_rmpv [0x81, 0x00, 0x00] = Ok (empty_response KOk 0 None [])" by code_simp
  have e: "encode_all [[0x81, 0x00, 0x00], [0x81, 0x00, 0x00]] [] =
      Ok (concat [[0xce, 0x00, 0x00], [0x00], [0x03, 0x81, 0x00, 0x00, 0xce, 0x00],
        [0x00, 0x00, 0x03, 0x81, 0x00, 0x00]])" by code_simp
  show ?thesis
    using frames_survive_chunking [OF _ e, of ref_rmp ref_rmpv "\<lambda>_. empty_response KOk 0 None []"] p
    by (simp add: MAX_PACKET_LEN_def)
qed

text \<open>
  C29: The decoder on arbitrary bytes: it never panics.  When it asks for more it has left the
  buffer as it was, and the buffer is shorter than the 2 GiB limit plus the longest length prefix, so a
  peer cannot make the client buffer without bound.  When it yields a packet it has consumed exactly
  one length prefix of any legal width and the packet behind it.
\<close>

theorem decode_consumes_one_frame:
  "case decode R V src of
     (buf, Ok None) \<Rightarrow> buf = src \<and> length src < MAX_PACKET_LEN + 9
   | (buf, Ok (Some r)) \<Rightarrow> \<exists>hdr p. src = hdr @ p @ buf \<and> length_prefix hdr (length p) \<and>
       length p \<le> MAX_PACKET_LEN \<and> response_parse R V p = Ok r
   | (buf, Err e) \<Rightarrow> buf = src \<or> (\<exists>hdr p. src = hdr @ p @ buf \<and> length_prefix hdr (length p) \<and>
       response_parse R V p = Err e)
   | (buf, Panic) \<Rightarrow> False"
proof (rule decode_cases [of R V src])
  fix hdr p rest
  assume p: "src = hdr @ p @ rest" "length_prefix hdr (length p)" "length p \<le> MAX_PACKET_LEN"
    "decode R V src = (rest, map_ok Some (response_parse R V p))"
  moreover have "response_parse R V p \<noteq> Panic"
    using p(3) by (intro response_parse_no_panic) (simp add: MAX_PACKET_LEN_def)
  ultimately show ?thesis by (cases "response_parse R V p") auto
qed auto

text \<open>
  C13: Whatever a packet contains, parsing it ends in a response or an error, and every accessor
  of the response that slices the body by the recorded offsets is in range and returns one
  whole MessagePack value.
\<close>

theorem parsed_slices_are_values:
  assumes "length packet \<le> MAX_PACKET_LEN" "response_parse R V packet = Ok r"
  shows "(\<exists>d. data_bytes r = Ok d \<and> mp_value d) \<and>
    (\<forall>acc \<in> {metadata_bytes, bind_metadata_bytes, sql_info_bytes}.
       \<exists>bs. acc r = Ok bs \<and> (\<forall>v. bs = Some v \<longrightarrow> mp_value v)) \<and>
    (\<exists>ev. event r = Ok ev \<and> (\<forall>k v. ev = Some (k, v) \<longrightarrow> mp_value v))"
proof -
  have inv: "response_inv r"
    using response_parse_inv [OF _ assms(2)] assms(1) by (simp add: MAX_PACKET_LEN_def)
  have nil: "mp_value [0xc0]" by (intro mp_value_atom mp_node.nil_or_bool) simp
  obtain d ev m b s where
    "response_slice r (rs_data r) = Ok d" "\<forall>v. d = Some v \<longrightarrow> mp_value v"
    "response_slice r (rs_event_data r) = Ok ev" "\<forall>v. ev = Some v \<longrightarrow> mp_value v"
    "response_slice r (rs_metadata r) = Ok m" "\<forall>v. m = Some v \<longrightarrow> mp_value v"
    "response_slice r (rs_bind_metadata r) = Ok b" "\<forall>v. b = Some v \<longrightarrow> mp_value v"
    "response_slice r (rs_sql_info r) = Ok s" "\<forall>v. s = Some v \<longrightarrow> mp_value v"
    using inv unfolding response_inv_def by (blast dest: response_slice_value)
  then show ?thesis
    using nil by (simp add: data_bytes_def event_def metadata_bytes_def bind_metadata_bytes_def sql_info_bytes_def
        unwrap_or_def del: map_ok_eq_Ok split: option.split)
qed

theorem parsed_slices_are_values_witness:
  "\<exists>r d. response_parse ref_rmp ref_rmpv (ok_packet ref_rmp 7 100 [0x91, 0x05]) = Ok r \<and>
    data_bytes r = Ok d \<and> mp_value d"
proof -
  have l: "length (ok_packet ref_rmp 7 100 [0x91, 0x05]) \<le> MAX_PACKET_LEN" by code_simp
  have "map_ok data_bytes (response_parse ref_rmp ref_rmpv (ok_packet ref_rmp 7 100 [0x91, 0x05])) =
      Ok (Ok [0x91, 0x05])" by code_simp
  then obtain r where "response_parse ref_rmp ref_rmpv (ok_packet ref_rmp 7 100 [0x91, 0x05]) = Ok r" by auto
  then show ?thesis using parsed_slices_are_values [OF l] by blast
qed

text \<open>
  C31: Reading a successful reply: a packet whose header carries type OK, a sync and a schema version and
  whose body carries DATA parses to a response with that sync and version, no error, and exactly
  those data bytes.
\<close>

theorem ok_reply_round_trip:
  assumes "rmp_contract R" "mp_value d" "length (ok_packet R sync schema d) \<le> MAX_PACKET_LEN"
  shows "\<exists>r. response_parse R V (ok_packet R sync schema d) = Ok r \<and> rs_kind r = KOk \<and> rs_sync r = sync \<and>
    rs_schema_version r = Some schema \<and> rs_error r = None \<and> data_bytes r = Ok d"
  using rmp_contract.parse_ok_packet [OF assms(1,2)] assms(3) by (simp add: MAX_PACKET_LEN_def)

theorem ok_reply_round_trip_witness:
  "\<exists>r. response_parse ref_rmp ref_rmpv (ok_packet ref_rmp 7 100 [0xa1, 0x61]) = Ok r \<and> rs_kind r = KOk \<and>
     rs_sync r = 7 \<and> rs_schema_version r = Some 100 \<and> rs_error r = None \<and> data_bytes r = Ok [0xa1, 0x61]"
proof (rule ok_reply_round_trip [OF ref_full.rmp_contract_axioms])
  show "mp_value [0xa1, 0x61]" by (intro mp_value_atom mp_node.fixstr) simp_all
  show "length (ok_packet ref_rmp 7 100 [0xa1, 0x61]) \<le> MAX_PACKET_LEN" by code_simp
qed

text \<open>
  C32: reading a rejection.  For every error code the protocol can carry, a packet of type \<open>0x8000 | code\<close> parses to
  an error response for its sync.  With only a message its error has that code and that message, of the class
  \<open>ClientError\<close>.  With a stack of errors it is the outermost of the stack, with its own class, file, line,
  message, errno, code and extra fields, and the others, outermost first, as its causes.  Without a body even the code of the
  header is lost: the error has code 0 and the message \<open>unknown server error\<close>.
\<close>

theorem error_reply_round_trip:
  assumes "rmp_contract R" "rmpv_access V" "code < 0x8000" "length message < 2 ^ 32" "utf8_valid (str_bytes message)"
    and "mp_value stack" "read_value V stack = Inr (stack_value (f # fs), [])" "list_all frame_valid (f # fs)"
    and "length (error_packet R sync code message) \<le> MAX_PACKET_LEN"
    and "length (stack_error_packet R sync code message stack) \<le> MAX_PACKET_LEN"
  shows "(\<exists>r. response_parse R V (error_packet R sync code message) = Ok r \<and> rs_kind r = KError \<and> rs_sync r = sync \<and>
      into_error r = ServerError (ucast code) message ''ClientError'' None None 0 [] []) \<and>
    (\<exists>r. response_parse R V (stack_error_packet R sync code message stack) = Ok r \<and> rs_kind r = KError \<and> rs_sync r = sync \<and>
      into_error r = frame_error f (map (\<lambda>g. frame_error g []) fs)) \<and>
    (\<exists>r. response_parse R V (bare_error_packet R sync code) = Ok r \<and> rs_kind r = KError \<and> rs_sync r = sync \<and>
      into_error r = ServerError 0 ''unknown server error'' ''ClientError'' None None 0 [] [])"
proof (intro conjI)
  have l: "length (error_packet R sync code message) \<le> packet_bound" "length (stack_error_packet R sync code message stack) \<le> packet_bound"
    using assms(9,10) by (simp_all add: MAX_PACKET_LEN_def)
  show "\<exists>r. response_parse R V (error_packet R sync code message) = Ok r \<and> rs_kind r = KError \<and> rs_sync r = sync \<and>
      into_error r = ServerError (ucast code) message ''ClientError'' None None 0 [] []"
    using rmp_contract.parse_error_packet [OF assms(1,3,4,5) l(1)] by (simp add: from_message_def)
  show "\<exists>r. response_parse R V (stack_error_packet R sync code message stack) = Ok r \<and> rs_kind r = KError \<and> rs_sync r = sync \<and>
      into_error r = frame_error f (map (\<lambda>g. frame_error g []) fs)"
    using rmp_contract.parse_stack_error [OF assms(1,3,4,5,6) l(2)] rmpv_access.stack_decoded [OF assms(2,8,7)] by blast
  have "length (bare_error_packet R sync code) \<le> packet_bound"
    using l(1) by (simp add: error_packet_def bare_error_packet_def two_maps_def error_header_def)
  then show "\<exists>r. response_parse R V (bare_error_packet R sync code) = Ok r \<and> rs_kind r = KError \<and> rs_sync r = sync \<and>
      into_error r = ServerError 0 ''unknown server error'' ''ClientError'' None None 0 [] []"
    using rmp_contract.parse_bare_error [OF assms(1,3)] by (simp add: from_message_def)
qed


definition demo_frame :: "string \<Rightarrow> sent_frame" where
  "demo_frame message = \<lparr>sf_type = ''E'', sf_file = ''f'', sf_line = 12, sf_message = message, sf_errno = 0, sf_code = 42,
    sf_fields = [(''o'', VBoolean True)]\<rparr>"

definition demo_stack :: bytes where
  "demo_stack =
    [0x81, 0, 0x92,
     0x87, 0, 0xa1, 69, 1, 0xa1, 102, 2, 12, 3, 0xa2, 110, 111, 4, 0, 5, 42, 6, 0x81, 0xa1, 111, 0xc3,
     0x87, 0, 0xa1, 69, 1, 0xa1, 102, 2, 12, 3, 0xa2, 105, 111, 4, 0, 5, 42, 6, 0x81, 0xa1, 111, 0xc3]"

lemma demo_stack_value: "mp_value demo_stack"
proof -
  have "value_len demo_stack = Ok 47" by code_simp
  then show ?thesis using value_len_correct [of demo_stack 47] by (simp add: demo_stack_def)
qed

lemma demo_stack_read: "read_value ref_rmpv demo_stack = Inr (stack_value [demo_frame ''no'', demo_frame ''io''], [])"
proof -
  have "ref_read_value demo_stack = Inr (VMap
    [(VInteger 0, VArray [
      VMap [(VInteger 0, VString [69]), (VInteger 1, VString [102]), (VInteger 2, VInteger 12), (VInteger 3, VString [110, 111]),
        (VInteger 4, VInteger 0), (VInteger 5, VInteger 42), (VInteger 6, VMap [(VString [111], VBoolean True)])],
      VMap [(VInteger 0, VString [69]), (VInteger 1, VString [102]), (VInteger 2, VInteger 12), (VInteger 3, VString [105, 111]),
        (VInteger 4, VInteger 0), (VInteger 5, VInteger 42), (VInteger 6, VMap [(VString [111], VBoolean True)])]])], [])"
    by code_simp
  then show ?thesis
    by (simp add: ref_rmpv_def stack_value_def frame_value_def demo_frame_def str_bytes_def byte_of_char_def)
qed

theorem error_reply_round_trip_witness:
  "(\<exists>r. response_parse ref_rmp ref_rmpv (error_packet ref_rmp 5 42 ''no'') = Ok r \<and> rs_kind r = KError \<and> rs_sync r = 5 \<and>
      into_error r = ServerError (ucast (42 :: u64)) ''no'' ''ClientError'' None None 0 [] []) \<and>
    (\<exists>r. response_parse ref_rmp ref_rmpv (stack_error_packet ref_rmp 5 42 ''no'' demo_stack) = Ok r \<and> rs_kind r = KError \<and>
      rs_sync r = 5 \<and> into_error r = frame_error (demo_frame ''no'') (map (\<lambda>g. frame_error g []) [demo_frame ''io''])) \<and>
    (\<exists>r. response_parse ref_rmp ref_rmpv (bare_error_packet ref_rmp 5 42) = Ok r \<and> rs_kind r = KError \<and> rs_sync r = 5 \<and>
      into_error r = ServerError 0 ''unknown server error'' ''ClientError'' None None 0 [] [])"
proof (rule error_reply_round_trip [OF ref_full.rmp_contract_axioms ref_access.rmpv_access_axioms])
  show "utf8_valid (str_bytes ''no'')" by code_simp
  show "list_all frame_valid [demo_frame ''no'', demo_frame ''io'']" by code_simp
  show "length (error_packet ref_rmp 5 42 ''no'') \<le> MAX_PACKET_LEN" by code_simp
  show "length (stack_error_packet ref_rmp 5 42 ''no'' demo_stack) \<le> MAX_PACKET_LEN" by code_simp
qed (simp_all add: demo_stack_value demo_stack_read)

text \<open>
  Reading an event: a packet of type EVENT with a key and data parses to an event response that
  carries exactly that key and data.
\<close>

theorem event_round_trip:
  assumes "rmp_contract R" "mp_value d" "length key < 2 ^ 32" "utf8_valid (str_bytes key)"
    and "length (event_packet R key d) \<le> MAX_PACKET_LEN"
  shows "\<exists>r. response_parse R V (event_packet R key d) = Ok r \<and> rs_kind r = KEvent \<and>
    event r = Ok (Some (key, d))"
  using rmp_contract.parse_event_packet [OF assms(1-4)] assms(5) by (simp add: MAX_PACKET_LEN_def)

theorem event_round_trip_witness:
  "\<exists>r. response_parse ref_rmp ref_rmpv (event_packet ref_rmp ''box.shutdown'' [0xc3]) = Ok r \<and>
     rs_kind r = KEvent \<and> event r = Ok (Some (''box.shutdown'', [0xc3]))"
proof (rule event_round_trip [OF ref_full.rmp_contract_axioms])
  show "mp_value [0xc3]" by (intro mp_value_atom mp_node.nil_or_bool) simp
  show "utf8_valid (str_bytes ''box.shutdown'')" by code_simp
  show "length (event_packet ref_rmp ''box.shutdown'' [0xc3]) \<le> MAX_PACKET_LEN" by code_simp
qed simp_all

text \<open>
  C7: The request builder refines its abstract meaning: a chain of builder calls behaves exactly as
  encoding its fields one by one and stopping at the first that cannot be encoded; the packet is the
  header map with the type, the sync and the stream id if there is one, followed by the body map with
  one entry per call in call order.
\<close>

theorem request_builder_refines:
  assumes "length fs < 2 ^ 32"
  shows "request_packet R ty sync sid fs =
    map_ok (\<lambda>kvs. mp_map R (request_header R ty sync sid) @ mp_map R kvs) (collect (field_value R) fs)"
  unfolding request_packet_spec [OF assms] two_maps_def ..

theorem request_builder_refines_witness:
  "request_packet ref_rmp REQ_SELECT 4 (Some 3) [FUint KEY_SPACE_ID 512, FStr KEY_USER_NAME ''a''] =
    Ok [0x83, 0x00, 0x01, 0x01, 0x04, 0x0a, 0x03, 0x82, 0x10, 0xcd, 0x02, 0x00, 0x23, 0xa1, 0x61]"
proof -
  have "map_ok (\<lambda>kvs. mp_map ref_rmp (request_header ref_rmp REQ_SELECT 4 (Some 3)) @ mp_map ref_rmp kvs)
      (collect (field_value ref_rmp) [FUint KEY_SPACE_ID 512, FStr KEY_USER_NAME ''a'']) =
    Ok [0x83, 0x00, 0x01, 0x01, 0x04, 0x0a, 0x03, 0x82, 0x10, 0xcd, 0x02, 0x00, 0x23, 0xa1, 0x61]" by code_simp
  then show ?thesis
    using request_builder_refines [of "[FUint KEY_SPACE_ID 512, FStr KEY_USER_NAME ''a'']" ref_rmp REQ_SELECT 4 "Some 3"]
    by simp
qed

text \<open>
  C30: A reader that walks a finished request finds exactly the header entries and, where the header
  ends, exactly one body entry per builder call, with nothing left over.
\<close>

theorem request_packet_read_back:
  assumes "rmp_contract R" "length fs < 2 ^ 32" "\<forall>f \<in> set fs. field_ok f"
    and "request_packet R ty sync sid fs = Ok p" "length p \<le> 2 ^ 31"
  shows "\<exists>kvs n. collect (field_value R) fs = Ok kvs \<and>
    read_entries R p = Ok (map (\<lambda>(k, v). (ucast k, v)) (request_header R ty sync sid), n) \<and>
    read_entries R (drop n p) = Ok (map (\<lambda>(k, v). (ucast k, v)) kvs, length p - n)"
proof -
  from rmp_contract.request_packet_values [OF assms(1-4)] obtain kvs where
    k: "collect (field_value R) fs = Ok kvs" "p = mp_map R (request_header R ty sync sid) @ mp_map R kvs" by blast
  have v: "\<forall>v \<in> snd ` set kvs. mp_value v"
    using collect_Ok_all [OF k(1)] assms(3) rmp_contract.field_value_value [OF assms(1)] by fastforce
  have l: "length kvs < 2 ^ 32" using collect_Ok_length [OF k(1)] assms(2) by simp
  have lh: "length (request_header R ty sync sid) < 2 ^ 32" by (cases sid) (simp_all add: request_header_def)
  show ?thesis
    using k assms(5) rmp_contract.read_entries_map [OF assms(1) l v, of "[]"]
      rmp_contract.read_entries_map [OF assms(1) lh rmp_contract.request_header_values [OF assms(1)], of "mp_map R kvs"]
    by (intro exI [of _ kvs] exI [of _ "length (mp_map R (request_header R ty sync sid))"]) simp
qed

theorem request_packet_read_back_witness:
  "\<exists>kvs n. collect (field_value ref_rmp) [FUint KEY_SPACE_ID 512] = Ok kvs \<and>
    read_entries ref_rmp [0x82, 0x00, 0x01, 0x01, 0x04, 0x81, 0x10, 0xcd, 0x02, 0x00] =
      Ok (map (\<lambda>(k, v). (ucast k, v)) (request_header ref_rmp REQ_SELECT 4 None), n) \<and>
    read_entries ref_rmp (drop n [0x82, 0x00, 0x01, 0x01, 0x04, 0x81, 0x10, 0xcd, 0x02, 0x00]) =
      Ok (map (\<lambda>(k, v). (ucast k, v)) kvs, length [0x82, 0x00, 0x01, 0x01, 0x04, 0x81, 0x10, 0xcd, 0x02, 0x00 :: u8] - n)"
proof (rule request_packet_read_back [OF ref_full.rmp_contract_axioms])
  show "request_packet ref_rmp REQ_SELECT 4 None [FUint KEY_SPACE_ID 512] =
      Ok [0x82, 0x00, 0x01, 0x01, 0x04, 0x81, 0x10, 0xcd, 0x02, 0x00]" by code_simp
qed simp_all

end
