(* ===== verification/Ext.thy ===== *)
theory Ext
  imports Codec
begin

text \<open>
  \<^verbatim>\<open>src/src/types/ext.rs\<close> and what the extension types share.  Serde hands an extension over as the
  pair of its tag and its payload; \<open>deserialize_tagged\<close> checks the tag.  A dynamic
  \<open>rmpv::Value\<close> carries the same pair.  The locale states the contract every extension type keeps: decoding
  is total, yields only valid values, and inverts encoding.
\<close>

definition ext_serialize :: "u8 \<Rightarrow> bytes \<Rightarrow> u8 \<times> bytes" where
  "ext_serialize tag payload = (tag, payload)"

definition deserialize_tagged :: "u8 \<times> bytes \<Rightarrow> u8 \<Rightarrow> string \<Rightarrow> (string, bytes) outcome" where
  "deserialize_tagged ext tag what = (case ext of (found, payload) \<Rightarrow>
     if found = tag then Ok payload
     else Err (''expected '' @ what @ '' (MessagePack extension type '' @ fmt_int (sint tag) @
       ''), found extension type '' @ fmt_int (sint found)))"

text \<open>The shape of the four \<open>Deserialize\<close> and of the four \<open>TryFrom<&Value>\<close> implementations.\<close>

definition ext_deserialize ::
  "u8 \<Rightarrow> string \<Rightarrow> (bytes \<Rightarrow> ('e, 'a) outcome) \<Rightarrow> ('e \<Rightarrow> string) \<Rightarrow> u8 \<times> bytes \<Rightarrow> (string, 'a) outcome" where
  "ext_deserialize tag what from_payload msg ext =
    and_then (deserialize_tagged ext tag what) (\<lambda>payload. map_err msg (from_payload payload))"

definition ext_try_from :: "u8 \<Rightarrow> (bytes \<Rightarrow> ('e, 'a) outcome) \<Rightarrow> 'e \<Rightarrow> mpvalue \<Rightarrow> ('e, 'a) outcome" where
  "ext_try_from tag from_payload other v = (case v of
     VExt t payload \<Rightarrow> if t = tag then from_payload payload else Err other
   | _ \<Rightarrow> Err other)"

locale payload_codec =
  fixes tag :: u8 and valid :: "'a \<Rightarrow> bool" and to_payload :: "'a \<Rightarrow> bytes"
    and from_payload :: "bytes \<Rightarrow> ('e, 'a) outcome"
  assumes from_to: "valid x \<Longrightarrow> from_payload (to_payload x) = Ok x"
    and from_valid: "from_payload p = Ok x \<Longrightarrow> valid x"
    and from_total: "from_payload p \<noteq> Panic"
begin

lemma to_payload_inj: "valid x \<Longrightarrow> valid y \<Longrightarrow> to_payload x = to_payload y \<longleftrightarrow> x = y"
  using from_to by (metis outcome.inject(1))

lemma serde_round_trip:
  "valid x \<Longrightarrow> ext_deserialize tag what from_payload msg (ext_serialize tag (to_payload x)) = Ok x"
  by (simp add: ext_deserialize_def deserialize_tagged_def ext_serialize_def from_to)

lemma value_round_trip: "valid x \<Longrightarrow> ext_try_from tag from_payload other (VExt tag (to_payload x)) = Ok x"
  by (simp add: ext_try_from_def from_to)

lemma other_tag_rejected: "t \<noteq> tag \<Longrightarrow> ext_try_from tag from_payload other (VExt t p) = Err other"
  by (simp add: ext_try_from_def)

lemma decode_then_encode:
  "from_payload p = Ok x \<Longrightarrow> from_payload (to_payload x) = Ok x"
  by (rule from_to [OF from_valid])

end

end
