(* ===== verification/Uuid.thy ===== *)
theory Uuid
  imports Ext
begin

text \<open>
  \<^verbatim>\<open>src/src/types/uuid.rs\<close>: sixteen bytes, their hyphenated text, and the reader of that text.  Indexing
  the second character of a pair panics when the pair has only one.
\<close>

datatype uuid = UUID (uuid_bytes: bytes)

datatype uuid_error = UuidError

definition NIL :: uuid where
  "NIL = UUID (replicate 16 0)"

definition is_nil :: "uuid \<Rightarrow> bool" where
  "is_nil u = (uuid_bytes u = replicate 16 0)"

definition HEX :: string where
  "HEX = ''0123456789abcdef''"

text \<open>The \<open>for\<close> loop of \<open>fmt\<close>: what it writes for the bytes from index \<open>i\<close> on.\<close>

fun uuid_fmt :: "nat \<Rightarrow> bytes \<Rightarrow> string" where
  "uuid_fmt i [] = []"
| "uuid_fmt i (b # bs) =
    (if i = 4 \<or> i = 6 \<or> i = 8 \<or> i = 10 then ''-'' else []) @
    [HEX ! unat (drop_bit 4 b), HEX ! unat (b AND 0x0f)] @ uuid_fmt (i + 1) bs"

definition uuid_display :: "uuid \<Rightarrow> string" where
  "uuid_display u = uuid_fmt 0 (uuid_bytes u)"

definition nibble :: "u8 \<Rightarrow> u8 option" where
  "nibble c =
    (if 48 \<le> c \<and> c \<le> 57 then Some (c - 48)
     else if 97 \<le> c \<and> c \<le> 102 then Some (c - 97 + 10)
     else if 65 \<le> c \<and> c \<le> 70 then Some (c - 65 + 10)
     else None)"

text \<open>The loop over \<open>hex.chunks(2)\<close>: the last chunk may have one element only.\<close>

fun uuid_pairs :: "bytes \<Rightarrow> (uuid_error, bytes) outcome" where
  "uuid_pairs [] = Ok []"
| "uuid_pairs [a] = and_then (ok_or (nibble a) UuidError) (\<lambda>hi. Panic)"
| "uuid_pairs (a # b # rest) =
    and_then (ok_or (nibble a) UuidError) (\<lambda>hi.
    and_then (ok_or (nibble b) UuidError) (\<lambda>lo.
    map_ok (Cons (push_bit 4 hi OR lo)) (uuid_pairs rest)))"

definition hyphenated :: "bytes \<Rightarrow> bool" where
  "hyphenated s = (s ! 8 = 45 \<and> s ! 13 = 45 \<and> s ! 18 = 45 \<and> s ! 23 = 45)"

definition uuid_from_str :: "string \<Rightarrow> (uuid_error, uuid) outcome" where
  "uuid_from_str str =
    (let s = str_bytes str in
     and_then
       (if length s = 36 \<and> hyphenated s then Ok (filter (\<lambda>b. b \<noteq> 45) s)
        else if length s = 32 then Ok s
        else Err UuidError) (\<lambda>hex.
     map_ok (\<lambda>bs. UUID (bs @ replicate (16 - length bs) 0)) (uuid_pairs hex)))"

definition uuid_from_payload :: "bytes \<Rightarrow> (uuid_error, uuid) outcome" where
  "uuid_from_payload payload = (if length payload = 16 then Ok (UUID payload) else Err UuidError)"

definition uuid_valid :: "uuid \<Rightarrow> bool" where
  "uuid_valid u = (length (uuid_bytes u) = 16)"

definition uuid_deserialize :: "u8 \<times> bytes \<Rightarrow> (string, uuid) outcome" where
  "uuid_deserialize =
    ext_deserialize EXT_UUID ''a uuid'' uuid_from_payload (\<lambda>_. ''MP_UUID payload is not 16 bytes'')"

definition uuid_try_from :: "mpvalue \<Rightarrow> (uuid_error, uuid) outcome" where
  "uuid_try_from = ext_try_from EXT_UUID uuid_from_payload UuidError"

definition value_from_uuid :: "uuid \<Rightarrow> mpvalue" where
  "value_from_uuid u = VExt EXT_UUID (uuid_bytes u)"

section \<open>Lemmas\<close>

interpretation uuid_ext: payload_codec EXT_UUID uuid_valid uuid_bytes uuid_from_payload
  by unfold_locales (auto simp: uuid_from_payload_def uuid_valid_def split: if_splits)

lemma hex_digit:
  assumes "n < 16"
  shows "nibble (byte_of_char (HEX ! n)) = Some (of_nat n)" "byte_of_char (HEX ! n) \<noteq> 45"
proof -
  have "list_all (\<lambda>n. nibble (byte_of_char (HEX ! n)) = Some (of_nat n) \<and> byte_of_char (HEX ! n) \<noteq> 45) [0..<16]"
    by code_simp
  then show "nibble (byte_of_char (HEX ! n)) = Some (of_nat n)" "byte_of_char (HEX ! n) \<noteq> 45"
    using assms by (simp_all add: list_all_iff)
qed

lemma nibbles_small: "unat (drop_bit 4 b :: u8) < 16" "unat (b AND 0x0f :: u8) < 16"
proof -
  have "unat (drop_bit 4 b) = unat b div 16"
    by (simp add: drop_bit_eq_div unat_div)
  then show "unat (drop_bit 4 b) < 16" using unat_byte_lt [of b] by (simp del: unat_byte_lt)
qed (simp add: unat_and_15)

lemma nibbles_byte: "push_bit 4 (drop_bit 4 b) OR (b AND 0x0f) = (b :: u8)"
proof -
  have "push_bit 4 (drop_bit 4 b) OR take_bit 4 b = b"
    by (rule bit_eqI) (auto simp: bit_simps)
  then show ?thesis by (simp add: take_bit_eq_mask mask_eq_exp_minus_1)
qed

lemma byte_of_hyphen: "byte_of_char (CHR ''-'') = 45"
  by (simp add: byte_of_char_def)

lemma uuid_pairs_fmt: "uuid_pairs (filter (\<lambda>b. b \<noteq> 45) (str_bytes (uuid_fmt i bs))) = Ok bs"
  by (induction i bs rule: uuid_fmt.induct)
    (simp_all add: str_bytes_def hex_digit nibbles_small nibbles_byte byte_of_hyphen)

lemma uuid_display_shape:
  assumes "length bs = 16"
  shows "length (uuid_fmt 0 bs) = 36" "hyphenated (str_bytes (uuid_fmt 0 bs))"
proof -
  from assms obtain b0 b1 b2 b3 b4 b5 b6 b7 b8 b9 b10 b11 b12 b13 b14 b15 where
    "bs = [b0, b1, b2, b3, b4, b5, b6, b7, b8, b9, b10, b11, b12, b13, b14, b15]"
    by (auto simp: numeral_eq_Suc length_Suc_conv)
  then show "length (uuid_fmt 0 bs) = 36" "hyphenated (str_bytes (uuid_fmt 0 bs))"
    by (simp_all add: hyphenated_def str_bytes_def byte_of_hyphen)
qed

lemma uuid_pairs_hex:
  "\<forall>b \<in> set hex. nibble b \<noteq> None \<Longrightarrow>
    (if odd (length hex) then uuid_pairs hex = Panic
     else \<exists>bs. uuid_pairs hex = Ok bs \<and> length bs = length hex div 2)"
  by (induction hex rule: uuid_pairs.induct) auto

lemma even_sum_parity: "a + b = n \<Longrightarrow> even n \<Longrightarrow> odd b \<longleftrightarrow> odd (a :: nat)"
  by auto

section \<open>Properties\<close>

text \<open>
  A uuid survives its text: printing any sixteen bytes gives 36 characters that parse back to the
  same uuid, and so do its 32 bare hex digits.
\<close>

theorem uuid_text_round_trip:
  assumes "uuid_valid u"
  shows "uuid_from_str (uuid_display u) = Ok u \<and> length (uuid_display u) = 36 \<and>
    uuid_from_str (filter (\<lambda>c. c \<noteq> CHR ''-'') (uuid_display u)) = Ok u"
proof -
  let ?t = "uuid_display u"
  have h: "filter (\<lambda>b. b \<noteq> 45) (str_bytes ?t) = str_bytes (filter (\<lambda>c. c \<noteq> CHR ''-'') ?t)"
    by (simp add: str_bytes_def filter_map comp_def byte_of_hyphen [symmetric] del: byte_of_hyphen)
  have p: "uuid_pairs (filter (\<lambda>b. b \<noteq> 45) (str_bytes ?t)) = Ok (uuid_bytes u)"
    by (simp add: uuid_display_def uuid_pairs_fmt)
  have n: "\<forall>b \<in> set (filter (\<lambda>b. b \<noteq> 45) (str_bytes (uuid_fmt i bs))). nibble b \<noteq> None" for i bs
    by (induction i bs rule: uuid_fmt.induct) (auto simp: str_bytes_def hex_digit nibbles_small byte_of_hyphen)
  have "length (filter (\<lambda>b. b \<noteq> 45) (str_bytes ?t)) = 32"
    using uuid_pairs_hex [OF n [of 0 "uuid_bytes u"]] p assms
    by (auto simp: uuid_display_def uuid_valid_def split: if_splits)
  then show ?thesis
    using p h uuid_display_shape [of "uuid_bytes u"] assms
    by (simp add: uuid_from_str_def uuid_valid_def uuid_display_def Let_def)
qed

theorem uuid_text_round_trip_witness:
  "uuid_from_str (uuid_display (UUID [0xf6, 0x42, 0x3b, 0xdf, 0xb4, 0x9e, 0x49, 0x13, 0xb3, 0x61, 0x07, 0x40,
     0xc9, 0x70, 0x2e, 0x4b])) = Ok (UUID [0xf6, 0x42, 0x3b, 0xdf, 0xb4, 0x9e, 0x49, 0x13, 0xb3, 0x61, 0x07, 0x40,
     0xc9, 0x70, 0x2e, 0x4b])"
  using uuid_text_round_trip [of "UUID [0xf6, 0x42, 0x3b, 0xdf, 0xb4, 0x9e, 0x49, 0x13, 0xb3, 0x61, 0x07, 0x40,
     0xc9, 0x70, 0x2e, 0x4b]"] by (simp add: uuid_valid_def)

text \<open>
  A text of 36 bytes with hyphens at the four places and hex digits or further hyphens elsewhere
  is never rejected: the parser panics when the number of hyphens is odd, and accepts
  it when that number is even, however many there are.
\<close>

theorem uuid_stray_hyphens:
  assumes "length s = 36" "hyphenated (str_bytes s)"
    and "\<forall>c \<in> set s. c = CHR ''-'' \<or> nibble (byte_of_char c) \<noteq> None"
  shows "if odd (length (filter (\<lambda>b. b = 45) (str_bytes s))) then uuid_from_str s = Panic
    else \<exists>u. uuid_from_str s = Ok u"
proof -
  let ?hex = "filter (\<lambda>b. b \<noteq> 45) (str_bytes s)"
  have "length (filter (\<lambda>b. b = 45) (str_bytes s)) + length ?hex = 36"
    using sum_length_filter_compl [of "\<lambda>b. b = 45" "str_bytes s"] assms(1) by simp
  then have o: "odd (length ?hex) \<longleftrightarrow> odd (length (filter (\<lambda>b. b = 45) (str_bytes s)))"
    by (rule even_sum_parity) simp
  have "\<forall>b \<in> set ?hex. nibble b \<noteq> None"
  proof
    fix b assume "b \<in> set ?hex"
    then obtain c where "c \<in> set s" "b = byte_of_char c" "b \<noteq> 45" by (auto simp: str_bytes_def)
    moreover from this have "c \<noteq> CHR ''-''" using byte_of_hyphen by blast
    ultimately show "nibble b \<noteq> None" using assms(3) by blast
  qed
  from uuid_pairs_hex [OF this] show ?thesis
    using assms(1,2) o by (auto simp: uuid_from_str_def Let_def)
qed

theorem uuid_stray_hyphens_witness:
  "uuid_from_str ''12345678-1234-1234-1234-12345678901-'' = Panic \<and>
   (\<exists>u. uuid_from_str ''12345678-1234-1234-1234-1234567890--'' = Ok u)"
proof
  have a: "length ''12345678-1234-1234-1234-12345678901-'' = 36"
    "hyphenated (str_bytes ''12345678-1234-1234-1234-12345678901-'')"
    "\<forall>c \<in> set ''12345678-1234-1234-1234-12345678901-''. c = CHR ''-'' \<or> nibble (byte_of_char c) \<noteq> None"
    "odd (length (filter (\<lambda>b. b = 45) (str_bytes ''12345678-1234-1234-1234-12345678901-'')))"
    by code_simp+
  show "uuid_from_str ''12345678-1234-1234-1234-12345678901-'' = Panic"
    using uuid_stray_hyphens [OF a(1-3)] a(4) by (simp only: simp_thms if_True)
  have b: "length ''12345678-1234-1234-1234-1234567890--'' = 36"
    "hyphenated (str_bytes ''12345678-1234-1234-1234-1234567890--'')"
    "\<forall>c \<in> set ''12345678-1234-1234-1234-1234567890--''. c = CHR ''-'' \<or> nibble (byte_of_char c) \<noteq> None"
    "\<not> odd (length (filter (\<lambda>b. b = 45) (str_bytes ''12345678-1234-1234-1234-1234567890--'')))"
    by code_simp+
  show "\<exists>u. uuid_from_str ''12345678-1234-1234-1234-1234567890--'' = Ok u"
    using uuid_stray_hyphens [OF b(1-3)] b(4) by (simp only: simp_thms if_False)
qed

end
