(* ===== verification/Decimal.thy ===== *)
theory Decimal
  imports Complex_Main Ext
begin

text \<open>
  \<^verbatim>\<open>src/src/types/decimal.rs\<close>: sign, scale and decimal digits.  Scales are \<open>i32\<close>, mantissas \<open>i128\<close>; the
  arithmetic that Rust checks (\<open>mantissa\<close>, \<open>checked_sub\<close>) is checked here.  The \<open>i64\<close> length
  computations stay far inside their type, so they are written over \<open>int\<close>.
\<close>

type_synonym i128 = "128 word"

record decimal =
  negative :: bool
  scale :: i32
  digits :: bytes

datatype decimal_error = DecimalError string

type_synonym 'a dresult = "(decimal_error, 'a) outcome"

definition MAX_DIGITS :: nat where
  "MAX_DIGITS = 38"

definition decimal_zero :: decimal where
  "decimal_zero = \<lparr>negative = False, scale = 0, digits = [0]\<rparr>"

definition assemble :: "bool \<Rightarrow> i32 \<Rightarrow> bytes \<Rightarrow> decimal dresult" where
  "assemble neg sc ds =
    (let ds' = dropWhile (\<lambda>d. d = 0) ds in
     if ds' = [] then Ok decimal_zero
     else if length ds' > MAX_DIGITS then Err (DecimalError ''more than 38 significant digits'')
     else Ok \<lparr>negative = neg, scale = sc, digits = ds'\<rparr>)"

definition from_parts :: "i128 \<Rightarrow> i32 \<Rightarrow> decimal dresult" where
  "from_parts m sc =
    assemble (sint m < 0) sc (map (\<lambda>c. byte_of_char c - 48) (fmt_nat (nat \<bar>sint m\<bar>)))"

definition precision :: "decimal \<Rightarrow> nat" where
  "precision d = length (digits d)"

definition is_zero :: "decimal \<Rightarrow> bool" where
  "is_zero d = (digits d = [0])"

text \<open>\<open>fold(0i128, |acc, d| acc * 10 + d)\<close> panics on overflow.\<close>

definition checked_i128 :: "int \<Rightarrow> int dresult" where
  "checked_i128 x = (if - (2 ^ 127) \<le> x \<and> x < 2 ^ 127 then Ok x else Panic)"

fun mantissa_fold :: "int \<Rightarrow> bytes \<Rightarrow> int dresult" where
  "mantissa_fold acc [] = Ok acc"
| "mantissa_fold acc (d # ds) =
    and_then (checked_i128 (acc * 10)) (\<lambda>t.
    and_then (checked_i128 (t + int (unat d))) (\<lambda>acc'. mantissa_fold acc' ds))"

definition mantissa :: "decimal \<Rightarrow> int dresult" where
  "mantissa d = map_ok (\<lambda>m. if negative d then - m else m) (mantissa_fold 0 (digits d))"

definition canonical :: "decimal \<Rightarrow> bool \<times> int \<times> bytes" where
  "canonical d =
    (if is_zero d then (False, 0, digits d)
     else let trailing = length (takeWhile (\<lambda>x. x = 0) (rev (digits d)))
       in (negative d, sint (scale d) - int trailing, take (length (digits d) - trailing) (digits d)))"

definition integer_len :: "decimal \<Rightarrow> int" where
  "integer_len d = int (length (digits d)) - sint (scale d)"

fun cmp_bytes :: "bytes \<Rightarrow> bytes \<Rightarrow> ordering" where
  "cmp_bytes [] [] = Equal"
| "cmp_bytes [] (b # bs) = Less"
| "cmp_bytes (a # as) [] = Greater"
| "cmp_bytes (a # as) (b # bs) = (if a < b then Less else if b < a then Greater else cmp_bytes as bs)"

definition pad_zeros :: "nat \<Rightarrow> bytes \<Rightarrow> bytes" where
  "pad_zeros w ds = ds @ replicate (w - length ds) 0"

definition cmp_magnitude :: "decimal \<Rightarrow> decimal \<Rightarrow> ordering" where
  "cmp_magnitude a b =
    (if integer_len a < integer_len b then Less
     else if integer_len b < integer_len a then Greater
     else let width = max (length (digits a)) (length (digits b))
       in cmp_bytes (pad_zeros width (digits a)) (pad_zeros width (digits b)))"

definition decimal_eq :: "decimal \<Rightarrow> decimal \<Rightarrow> bool" where
  "decimal_eq a b = (canonical a = canonical b)"

definition decimal_cmp :: "decimal \<Rightarrow> decimal \<Rightarrow> ordering" where
  "decimal_cmp a b =
    (if is_zero a \<and> is_zero b then Equal
     else if is_zero a then (if negative b then Greater else Less)
     else if is_zero b then (if negative a then Less else Greater)
     else if \<not> negative a \<and> negative b then Greater
     else if negative a \<and> \<not> negative b then Less
     else if \<not> negative a then cmp_magnitude a b
     else cmp_magnitude b a)"

section \<open>The wire form\<close>

fun pack_nibbles :: "bytes \<Rightarrow> bytes dresult" where
  "pack_nibbles [] = Ok []"
| "pack_nibbles [a] = Panic"
| "pack_nibbles (a # b # ns) = map_ok (Cons (push_bit 4 a OR b)) (pack_nibbles ns)"

definition decimal_nibbles :: "decimal \<Rightarrow> bytes" where
  "decimal_nibbles d =
    (if length (digits d) mod 2 = 0 then [0] else []) @ digits d @ [if negative d then 0x0d else 0x0c]"

definition decimal_to_payload :: "rmp \<Rightarrow> decimal \<Rightarrow> bytes dresult" where
  "decimal_to_payload R d =
    map_ok (append (write_sint R (word_of_int (sint (scale d))))) (pack_nibbles (decimal_nibbles d))"

definition unpack_nibbles :: "bytes \<Rightarrow> bytes" where
  "unpack_nibbles bs = concat (map (\<lambda>b. [drop_bit 4 b, b AND 0x0f]) bs)"

definition decimal_from_payload :: "rmp \<Rightarrow> bytes \<Rightarrow> decimal dresult" where
  "decimal_from_payload R payload =
    and_then (ok_or (read_int_i64 R payload) (DecimalError ''payload does not start with a scale'')) (\<lambda>(sc, cursor).
    and_then (if - (2 ^ 31) \<le> sint sc \<and> sint sc < 2 ^ 31 then Ok (word_of_int (sint sc))
              else Err (DecimalError ''scale out of range'')) (\<lambda>sc.
    let nibbles = unpack_nibbles cursor in
    and_then (if nibbles = [] then Err (DecimalError ''payload has no sign nibble'')
              else if last nibbles \<in> {0x0a, 0x0c, 0x0e, 0x0f} then Ok False
              else if last nibbles \<in> {0x0b, 0x0d} then Ok True
              else Err (DecimalError ''payload has no sign nibble'')) (\<lambda>neg.
    if \<exists>d \<in> set (butlast nibbles). d > 9 then Err (DecimalError ''payload has a non-decimal digit'')
    else assemble neg sc (butlast nibbles))))"

section \<open>The text form\<close>

definition digit_text :: "bytes \<Rightarrow> string" where
  "digit_text ds = map (\<lambda>d. char_of_byte (48 + d)) ds"

definition decimal_display :: "decimal \<Rightarrow> string" where
  "decimal_display d =
    (if negative d then ''-'' else []) @
    (if sint (scale d) \<le> 0
     then digit_text (digits d) @ replicate (nat (- sint (scale d))) (CHR ''0'')
     else let sc = nat (sint (scale d)); n = length (digits d) in
       if n > sc then digit_text (take (n - sc) (digits d)) @ ''.'' @ digit_text (drop (n - sc) (digits d))
       else ''0.'' @ replicate (sc - n) (CHR ''0'') @ digit_text (digits d))"

definition split_sign :: "string \<Rightarrow> bool \<times> string" where
  "split_sign s = (case s of
     c # r \<Rightarrow> if c = CHR ''-'' then (True, r) else if c = CHR ''+'' then (False, r) else (False, s)
   | [] \<Rightarrow> (False, s))"

definition is_exp :: "char \<Rightarrow> bool" where
  "is_exp c = (c = CHR ''e'' \<or> c = CHR ''E'')"

definition decimal_from_str :: "string \<Rightarrow> decimal dresult" where
  "decimal_from_str s =
    (case split_sign s of (neg, rest) \<Rightarrow>
     let number = takeWhile (\<lambda>c. \<not> is_exp c) rest;
         exponent = (case dropWhile (\<lambda>c. \<not> is_exp c) rest of [] \<Rightarrow> None | _ # t \<Rightarrow> Some t)
     in
     and_then (case exponent of
         Some text \<Rightarrow> ok_or (parse_i32 text) (DecimalError ''bad exponent'')
       | None \<Rightarrow> Ok 0) (\<lambda>exponent.
     case (case split_once (CHR ''.'') number of Some p \<Rightarrow> p | None \<Rightarrow> (number, [])) of (int_part, fraction) \<Rightarrow>
     if int_part = [] \<and> fraction = [] then Err (DecimalError ''no digits'')
     else if \<exists>c \<in> set (int_part @ fraction). \<not> is_ascii_digit c then Err (DecimalError ''not a decimal number'')
     else
       let sc = int (length fraction) - sint exponent in
       if length fraction < 2 ^ 31 \<and> - (2 ^ 31) \<le> sc \<and> sc < 2 ^ 31
       then assemble neg (word_of_int sc) (map (\<lambda>c. byte_of_char c - 48) (int_part @ fraction))
       else Err (DecimalError ''scale out of range'')))"

section \<open>Digits as numbers\<close>

abbreviation dval :: "bytes \<Rightarrow> nat" where
  "dval ds \<equiv> dec_value (map unat ds)"

abbreviation digits_ok :: "bytes \<Rightarrow> bool" where
  "digits_ok ds \<equiv> \<forall>d \<in> set ds. unat d < 10"

lemma dec_value_append: "dec_value (xs @ ys) = dec_value xs * 10 ^ length ys + dec_value ys"
proof (induction ys rule: rev_induct)
  case Nil
  then show ?case by simp
next
  case (snoc y ys)
  then show ?case using dec_value_snoc [of "xs @ ys" y] by (simp add: algebra_simps)
qed

lemma dec_value_Cons: "dec_value (x # xs) = x * 10 ^ length xs + dec_value xs"
  using dec_value_append [of "[x]" xs] by (simp add: dec_value_def)

lemma dec_value_zeros [simp]: "dec_value (replicate n 0) = 0"
  by (induction n) (simp_all add: dec_value_Cons)

lemma dec_value_less: "\<forall>d \<in> set ds. d < 10 \<Longrightarrow> dec_value ds < 10 ^ length ds"
proof (induction ds rule: rev_induct)
  case Nil
  then show ?case by simp
next
  case (snoc d ds)
  then have "dec_value ds + 1 \<le> 10 ^ length ds" "d \<le> 9" by auto
  then show ?case by simp
qed

lemma dval_less: "digits_ok ds \<Longrightarrow> dval ds < 10 ^ length ds"
  using dec_value_less [of "map unat ds"] by simp

lemma dval_append: "dval (xs @ ys) = dval xs * 10 ^ length ys + dval ys"
  by (simp add: dec_value_append)

lemma dval_pad: "dval (pad_zeros w ds) = dval ds * 10 ^ (w - length ds)"
  by (simp add: pad_zeros_def dec_value_append)

lemma dval_lower: "ds \<noteq> [] \<Longrightarrow> hd ds \<noteq> 0 \<Longrightarrow> 10 ^ (length ds - 1) \<le> dval ds"
  by (cases ds) (auto simp: dec_value_Cons unat_gt_0 Suc_le_eq intro!: trans_le_add1)

definition cmp_of :: "'a :: linorder \<Rightarrow> 'a \<Rightarrow> ordering" where
  "cmp_of x y = (if x < y then Less else if y < x then Greater else Equal)"

lemma cmp_bytes_dval:
  "length as = length bs \<Longrightarrow> digits_ok as \<Longrightarrow> digits_ok bs \<Longrightarrow>
    cmp_bytes as bs = cmp_of (dval as) (dval bs) \<and> (dval as = dval bs \<longrightarrow> as = bs)"
proof (induction as bs rule: list_induct2)
  case Nil
  then show ?case by (simp add: cmp_of_def)
next
  case (Cons a as b bs)
  have lt: "dval as < 10 ^ length as" "dval bs < 10 ^ length as"
    using dval_less [of as] dval_less [of bs] Cons by auto
  have step: "unat x * 10 ^ length as + u < unat y * 10 ^ length as + v"
    if "x < y" "u < 10 ^ length as" for x y :: u8 and u v
  proof -
    have "unat x + 1 \<le> unat y" using that(1) by (simp add: word_less_nat_alt)
    then have "(unat x + 1) * 10 ^ length as \<le> unat y * 10 ^ length as" by (rule mult_le_mono1)
    then show ?thesis using that(2) by (simp add: algebra_simps)
  qed
  consider "a < b" | "b < a" | "a = b" by (rule linorder_cases)
  then show ?case
  proof cases
    case 1
    then show ?thesis using step [OF 1 lt(1), of "dval bs"] Cons.hyps by (simp add: dec_value_Cons cmp_of_def)
  next
    case 2
    then show ?thesis using step [OF 2 lt(2), of "dval as"] Cons.hyps by (auto simp: dec_value_Cons cmp_of_def)
  next
    case 3
    then show ?thesis using Cons by (simp add: dec_value_Cons cmp_of_def)
  qed
qed

section \<open>The invariant and the value of a decimal\<close>

definition decimal_inv :: "decimal \<Rightarrow> bool" where
  "decimal_inv d \<longleftrightarrow> digits_ok (digits d) \<and> length (digits d) \<le> MAX_DIGITS \<and>
     (d = decimal_zero \<or> digits d \<noteq> [] \<and> hd (digits d) \<noteq> 0)"

definition decimal_value :: "decimal \<Rightarrow> rat" where
  "decimal_value d = (if negative d then - 1 else 1) * of_nat (dval (digits d)) * 10 powi (- sint (scale d))"

lemma assemble_inv: "digits_ok ds \<Longrightarrow> assemble neg sc ds = Ok d \<Longrightarrow> decimal_inv d"
proof (cases "dropWhile (\<lambda>d. d = 0) ds = []")
  case True
  assume "assemble neg sc ds = Ok d"
  with True have "d = decimal_zero" by (simp add: assemble_def)
  then show ?thesis by (simp add: decimal_inv_def decimal_zero_def MAX_DIGITS_def)
next
  case False
  assume ok: "digits_ok ds" and "assemble neg sc ds = Ok d"
  with False have d: "digits d = dropWhile (\<lambda>d. d = 0) ds" "length (digits d) \<le> MAX_DIGITS"
    by (auto simp: assemble_def Let_def split: if_splits)
  have "digits_ok (digits d)" unfolding d(1) using ok set_dropWhileD by metis
  then show ?thesis using d False hd_dropWhile [OF False] by (simp add: decimal_inv_def)
qed

lemma assemble_no_panic [simp]: "assemble neg sc ds \<noteq> Panic"
  by (simp add: assemble_def Let_def)

lemma assemble_exact:
  assumes "decimal_inv d" "\<forall>z \<in> set zs. z = 0"
  shows "assemble (negative d) (scale d) (zs @ digits d) = Ok d"
proof -
  have zs: "dropWhile (\<lambda>d. d = 0) (zs @ digits d) = dropWhile (\<lambda>d. d = 0) (digits d)"
    using assms(2) by (simp add: dropWhile_append2)
  show ?thesis
  proof (cases "d = decimal_zero")
    case True
    then show ?thesis unfolding assemble_def zs by (simp add: decimal_zero_def)
  next
    case False
    then have h: "digits d \<noteq> []" "hd (digits d) \<noteq> 0" "length (digits d) \<le> MAX_DIGITS"
      using assms(1) by (auto simp: decimal_inv_def)
    then have "dropWhile (\<lambda>d. d = 0) (digits d) = digits d" by (cases "digits d") auto
    then show ?thesis unfolding assemble_def zs using h by simp
  qed
qed

lemma dval_dropWhile: "dval (dropWhile (\<lambda>d. d = 0) ds) = dval ds"
  by (induction ds) (auto simp: dec_value_Cons)

text \<open>What \<open>assemble\<close> builds has the value of its arguments.\<close>

lemma assemble_value:
  assumes "assemble neg sc ds = Ok d"
  shows "decimal_value d = (if neg then - 1 else 1) * of_nat (dval ds) * 10 powi (- sint sc)"
proof (cases "dropWhile (\<lambda>d. d = 0) ds = []")
  case True
  have "dval ds = 0" using dval_dropWhile [of ds] by (simp only: True) simp
  moreover have "decimal_value decimal_zero = 0" by (simp add: decimal_value_def decimal_zero_def dec_value_Cons)
  moreover have "d = decimal_zero" using assms True by (simp add: assemble_def)
  ultimately show ?thesis by simp
next
  case False
  with assms have "d = \<lparr>negative = neg, scale = sc, digits = dropWhile (\<lambda>d. d = 0) ds\<rparr>"
    by (auto simp: assemble_def Let_def split: if_splits)
  then show ?thesis by (simp add: decimal_value_def dval_dropWhile)
qed

lemma zero_value: "is_zero d \<Longrightarrow> decimal_value d = 0"
  by (simp add: is_zero_def decimal_value_def dec_value_def)

lemma inv_nonzero: "decimal_inv d \<Longrightarrow> \<not> is_zero d \<Longrightarrow> digits_ok (digits d) \<and> digits d \<noteq> [] \<and> hd (digits d) \<noteq> 0"
  by (auto simp: decimal_inv_def is_zero_def decimal_zero_def)

section \<open>Comparison\<close>

definition magnitude :: "decimal \<Rightarrow> rat" where
  "magnitude d = of_nat (dval (digits d)) * 10 powi (- sint (scale d))"

lemma value_magnitude: "decimal_value d = (if negative d then - magnitude d else magnitude d)"
  by (simp add: decimal_value_def magnitude_def)

lemma powi_shift: "(10 :: rat) powi (int n + k) = 10 ^ n * 10 powi k"
  by (simp add: power_int_add)

lemma magnitude_scaled:
  assumes "length (digits d) \<le> w"
  shows "magnitude d = of_nat (dval (pad_zeros w (digits d))) * 10 powi (integer_len d - int w)"
proof -
  have "(10 :: rat) powi (- sint (scale d)) = 10 ^ (w - length (digits d)) * 10 powi (integer_len d - int w)"
    using assms powi_shift [of "w - length (digits d)" "integer_len d - int w"]
    by (simp add: integer_len_def of_nat_diff)
  then show ?thesis by (simp add: magnitude_def dval_pad)
qed

lemma magnitude_bounds:
  assumes "decimal_inv d" "\<not> is_zero d"
  shows "10 powi (integer_len d - 1) \<le> magnitude d" "magnitude d < 10 powi integer_len d"
proof -
  let ?n = "length (digits d)"
  note n = inv_nonzero [OF assms]
  have m: "magnitude d = of_nat (dval (digits d)) * 10 powi (integer_len d - int ?n)"
    by (simp add: magnitude_def integer_len_def)
  have pos: "(0 :: rat) < 10 powi (integer_len d - int ?n)" by simp
  have up: "(10 :: rat) powi integer_len d = 10 ^ ?n * 10 powi (integer_len d - int ?n)"
    using powi_shift [of ?n "integer_len d - int ?n"] by simp
  have low: "(10 :: rat) powi (integer_len d - 1) = 10 ^ (?n - 1) * 10 powi (integer_len d - int ?n)"
  proof -
    have "integer_len d - 1 = int (?n - 1) + (integer_len d - int ?n)"
      using n by (cases "digits d") simp_all
    then show ?thesis using powi_shift [of "?n - 1" "integer_len d - int ?n"] by (simp only:)
  qed
  have "(10 :: rat) ^ (?n - 1) \<le> of_nat (dval (digits d))"
    using dval_lower [of "digits d"] n by (metis of_nat_le_iff of_nat_numeral of_nat_power)
  then show "10 powi (integer_len d - 1) \<le> magnitude d"
    unfolding m low using pos by (intro mult_right_mono) simp_all
  have "of_nat (dval (digits d)) < (10 :: rat) ^ ?n"
    using dval_less [of "digits d"] n by (metis of_nat_less_iff of_nat_numeral of_nat_power)
  then show "magnitude d < 10 powi integer_len d"
    unfolding m up using pos by (intro mult_strict_right_mono)
qed

lemma magnitude_pos: "decimal_inv d \<Longrightarrow> \<not> is_zero d \<Longrightarrow> 0 < magnitude d"
  using magnitude_bounds(1) [of d] zero_less_power_int [of "10 :: rat" "integer_len d - 1"] by linarith

lemma magnitude_shorter:
  assumes "decimal_inv a" "\<not> is_zero a" "decimal_inv b" "\<not> is_zero b" "integer_len a < integer_len b"
  shows "magnitude a < magnitude b"
proof -
  have "magnitude a < 10 powi integer_len a" by (rule magnitude_bounds(2) [OF assms(1,2)])
  also have "\<dots> \<le> 10 powi (integer_len b - 1)" using assms(5) by (intro power_int_increasing) simp_all
  also have "\<dots> \<le> magnitude b" by (rule magnitude_bounds(1) [OF assms(3,4)])
  finally show ?thesis .
qed

lemma cmp_of_scale: "(0 :: rat) < c \<Longrightarrow> cmp_of (of_nat x * c) (of_nat y * c) = cmp_of x y"
  by (simp add: cmp_of_def mult_less_cancel_right_pos)

lemma cmp_padded:
  assumes "decimal_inv a" "\<not> is_zero a" "decimal_inv b" "\<not> is_zero b"
    and "w = max (length (digits a)) (length (digits b))"
  shows "cmp_bytes (pad_zeros w (digits a)) (pad_zeros w (digits b)) =
      cmp_of (dval (pad_zeros w (digits a))) (dval (pad_zeros w (digits b)))"
    and "dval (pad_zeros w (digits a)) = dval (pad_zeros w (digits b)) \<Longrightarrow>
      pad_zeros w (digits a) = pad_zeros w (digits b)"
proof -
  have l: "length (pad_zeros w (digits a)) = length (pad_zeros w (digits b))"
    using assms(5) by (simp add: pad_zeros_def)
  have "digits_ok (pad_zeros w (digits a))" "digits_ok (pad_zeros w (digits b))"
    using inv_nonzero [OF assms(1,2)] inv_nonzero [OF assms(3,4)] by (auto simp: pad_zeros_def)
  from cmp_bytes_dval [OF l this]
  show "cmp_bytes (pad_zeros w (digits a)) (pad_zeros w (digits b)) =
      cmp_of (dval (pad_zeros w (digits a))) (dval (pad_zeros w (digits b)))"
    and "dval (pad_zeros w (digits a)) = dval (pad_zeros w (digits b)) \<Longrightarrow>
      pad_zeros w (digits a) = pad_zeros w (digits b)" by blast+
qed

lemma cmp_magnitude_value:
  assumes "decimal_inv a" "\<not> is_zero a" "decimal_inv b" "\<not> is_zero b"
  shows "cmp_magnitude a b = cmp_of (magnitude a) (magnitude b)"
proof -
  consider "integer_len a < integer_len b" | "integer_len b < integer_len a" | "integer_len a = integer_len b"
    by linarith
  then show ?thesis
  proof cases
    case 1
    then show ?thesis using magnitude_shorter [OF assms 1] by (simp add: cmp_magnitude_def cmp_of_def)
  next
    case 2
    then show ?thesis using magnitude_shorter [OF assms(3,4,1,2) 2] by (simp add: cmp_magnitude_def cmp_of_def)
  next
    case 3
    let ?w = "max (length (digits a)) (length (digits b))"
    show ?thesis
      using cmp_padded(1) [OF assms refl] 3 magnitude_scaled [of a ?w] magnitude_scaled [of b ?w]
        cmp_of_scale [of "10 powi (integer_len b - int ?w)"]
      by (simp add: cmp_magnitude_def Let_def)
  qed
qed

lemma cmp_of_neg: "cmp_of (- x) (- y) = cmp_of y (x :: rat)"
  by (simp add: cmp_of_def)

lemma decimal_cmp_value:
  assumes "decimal_inv a" "decimal_inv b"
  shows "decimal_cmp a b = cmp_of (decimal_value a) (decimal_value b)"
proof (cases "is_zero a \<or> is_zero b")
  case True
  then show ?thesis
    using magnitude_pos [of a] magnitude_pos [of b] assms zero_value [of a] zero_value [of b]
    by (auto simp: decimal_cmp_def value_magnitude cmp_of_def)
next
  case False
  then show ?thesis
    using magnitude_pos [of a] magnitude_pos [of b] assms cmp_magnitude_value [of a b] cmp_magnitude_value [of b a]
    by (auto simp: decimal_cmp_def value_magnitude cmp_of_def [of "- magnitude a" "magnitude b"] cmp_of_neg
        cmp_of_def [of "magnitude a" "- magnitude b"])
qed

section \<open>Equality\<close>

definition strip_zeros :: "bytes \<Rightarrow> bytes" where
  "strip_zeros ds = rev (dropWhile (\<lambda>x. x = 0) (rev ds))"

lemma strip_zeros_take:
  "take (length ds - length (takeWhile (\<lambda>x. x = 0) (rev ds))) ds = strip_zeros ds"
  "length (strip_zeros ds) = length ds - length (takeWhile (\<lambda>x. x = 0) (rev ds))"
proof -
  let ?z = "takeWhile (\<lambda>x. x = 0) (rev ds)"
  have "rev ds = ?z @ rev (strip_zeros ds)" by (simp add: strip_zeros_def takeWhile_dropWhile_id)
  then have "ds = strip_zeros ds @ rev ?z" by (metis rev_append rev_rev_ident)
  then obtain k where k: "ds = strip_zeros ds @ k" "length k = length ?z" by (metis length_rev)
  then show "length (strip_zeros ds) = length ds - length ?z"
    by (metis add_diff_cancel_right' length_append)
  with k show "take (length ds - length ?z) ds = strip_zeros ds"
    by (metis append_eq_conv_conj)
qed

lemma strip_zeros_pad: "strip_zeros (ds @ replicate n 0) = strip_zeros ds"
proof -
  have "dropWhile (\<lambda>x. x = 0) (replicate n 0 @ xs) = dropWhile (\<lambda>x. x = 0) xs" for xs :: bytes
    by (induction n) simp_all
  then show ?thesis by (simp add: strip_zeros_def)
qed

lemma dval_strip: "dval ds = dval (strip_zeros ds) * 10 ^ (length ds - length (strip_zeros ds))"
proof -
  let ?z = "takeWhile (\<lambda>x. x = 0) (rev ds)"
  have "rev ds = ?z @ rev (strip_zeros ds)" by (simp add: strip_zeros_def takeWhile_dropWhile_id)
  then have ds: "ds = strip_zeros ds @ rev ?z" by (metis rev_append rev_rev_ident)
  have z: "rev ?z = replicate (length ?z) 0"
  proof -
    have "\<forall>y \<in> set (rev ?z). y = 0" using set_takeWhileD [of _ "\<lambda>x. x = 0" "rev ds"] by simp
    from replicate_length_same [OF this] show ?thesis by simp
  qed
  have "dval (strip_zeros ds @ replicate (length ?z) 0) = dval (strip_zeros ds) * 10 ^ length ?z"
    by (simp add: dec_value_append)
  moreover have "length ds - length (strip_zeros ds) = length ?z"
    using arg_cong [OF ds, of length] by simp
  ultimately show ?thesis using ds z by metis
qed

lemma canonical_strip:
  "\<not> is_zero d \<Longrightarrow> canonical d =
    (negative d, int (length (strip_zeros (digits d))) - integer_len d, strip_zeros (digits d))"
  using strip_zeros_take [of "digits d"] length_takeWhile_le [of "\<lambda>x. x = 0" "rev (digits d)"]
  by (simp add: canonical_def integer_len_def Let_def)

lemma magnitude_strip:
  "magnitude d = of_nat (dval (strip_zeros (digits d))) * 10 powi (integer_len d - int (length (strip_zeros (digits d))))"
proof -
  have l: "length (strip_zeros (digits d)) \<le> length (digits d)"
    using strip_zeros_take(2) [of "digits d"] by simp
  have "(10 :: rat) powi (integer_len d - int (length (strip_zeros (digits d)))) =
      10 ^ (length (digits d) - length (strip_zeros (digits d))) * 10 powi (- sint (scale d))"
    using l powi_shift [of "length (digits d) - length (strip_zeros (digits d))" "- sint (scale d)"]
    by (simp add: integer_len_def of_nat_diff algebra_simps)
  then show ?thesis by (simp add: magnitude_def dval_strip [of "digits d"])
qed

lemma magnitude_eq:
  assumes "decimal_inv a" "\<not> is_zero a" "decimal_inv b" "\<not> is_zero b" "magnitude a = magnitude b"
  shows "integer_len a = integer_len b \<and> strip_zeros (digits a) = strip_zeros (digits b)"
proof -
  have il: "integer_len a = integer_len b"
    using magnitude_shorter [OF assms(1-4)] magnitude_shorter [OF assms(3,4,1,2)] assms(5) by force
  let ?w = "max (length (digits a)) (length (digits b))"
  have "dval (pad_zeros ?w (digits a)) = dval (pad_zeros ?w (digits b))"
    using magnitude_scaled [of a ?w] magnitude_scaled [of b ?w] assms(5) il by simp
  then have "pad_zeros ?w (digits a) = pad_zeros ?w (digits b)"
    by (rule cmp_padded(2) [OF assms(1-4) refl])
  then show ?thesis using il by (metis pad_zeros_def strip_zeros_pad)
qed

lemma zero_canonical: "decimal_inv d \<Longrightarrow> canonical d = (False, 0, [0]) \<longleftrightarrow> is_zero d"
proof (cases "is_zero d")
  case False
  have "strip_zeros (digits d) \<noteq> [0]"
    using strip_zeros_def [of "digits d"] hd_dropWhile [of "\<lambda>x. x = 0" "rev (digits d)"]
    by (metis list.sel(1) rev_singleton_conv list.distinct(1))
  then show ?thesis using False by (simp add: canonical_strip)
qed (simp add: canonical_def is_zero_def)

lemma zero_value_iff: "decimal_inv d \<Longrightarrow> decimal_value d = 0 \<longleftrightarrow> is_zero d"
  using magnitude_pos [of d] zero_value [of d] by (cases "is_zero d") (simp_all add: value_magnitude)

lemma decimal_eq_value:
  assumes "decimal_inv a" "decimal_inv b"
  shows "decimal_eq a b \<longleftrightarrow> decimal_value a = decimal_value b"
proof (cases "is_zero a \<or> is_zero b")
  case True
  then show ?thesis
    using zero_canonical [OF assms(1)] zero_canonical [OF assms(2)] zero_value_iff [OF assms(1)] zero_value_iff [OF assms(2)]
    by (metis decimal_eq_def)
next
  case False
  then show ?thesis
    using magnitude_eq [of a b] magnitude_pos [of a] magnitude_pos [of b] assms magnitude_strip [of a] magnitude_strip [of b]
    by (auto simp: decimal_eq_def canonical_strip value_magnitude)
qed

section \<open>The payload\<close>

lemma nibble_pair:
  assumes "unat a < 16" "unat b < 16"
  shows "drop_bit 4 (push_bit 4 a OR b :: u8) = a" "(push_bit 4 a OR b) AND 0x0f = b"
proof -
  have small: "x = take_bit 4 x" if "unat x < 16" for x :: u8
    using that by (simp add: take_bit_eq_mod word_unat_eq_iff unat_mod)
  have ab: "bit a n \<Longrightarrow> n < 4" "bit b n \<Longrightarrow> n < 4" for n
    using small [OF assms(1)] small [OF assms(2)] by (metis bit_take_bit_iff)+
  show "drop_bit 4 (push_bit 4 a OR b) = a"
    by (rule bit_word_eqI) (use ab in \<open>fastforce simp: bit_simps\<close>)
  have "take_bit 4 (push_bit 4 a OR b) = b"
    by (rule bit_word_eqI) (use ab in \<open>auto simp: bit_simps\<close>)
  then show "(push_bit 4 a OR b) AND 0x0f = b" by (simp add: take_bit_eq_mask mask_eq_exp_minus_1)
qed

lemma pack_unpack:
  "even (length ns) \<Longrightarrow> \<forall>n \<in> set ns. unat n < 16 \<Longrightarrow> \<exists>bs. pack_nibbles ns = Ok bs \<and> unpack_nibbles bs = ns"
proof (induction ns rule: pack_nibbles.induct)
  case (3 a b ns)
  then obtain bs where bs: "pack_nibbles ns = Ok bs" "unpack_nibbles bs = ns" by auto
  have "unpack_nibbles ((push_bit 4 a OR b) # bs) = a # b # ns"
    using nibble_pair [of a b] 3(3) bs(2) by (simp add: unpack_nibbles_def del: drop_bit_or)
  then show ?case using bs(1) by simp
qed (simp_all add: unpack_nibbles_def)

lemma decimal_nibbles_even: "even (length (decimal_nibbles d))"
  by (auto simp: decimal_nibbles_def)

lemma decimal_nibbles_small: "digits_ok (digits d) \<Longrightarrow> \<forall>n \<in> set (decimal_nibbles d). unat n < 16"
  by (fastforce simp: decimal_nibbles_def)

lemma sint_i32_word: "sint (word_of_int (sint (x :: i32)) :: i64) = sint x"
  using sint_i32_range [of x] by (intro sint_word_of_int_i64) simp_all

context rmp_int
begin

lemma decimal_payload_round_trip:
  assumes "decimal_inv d"
  shows "\<exists>p. decimal_to_payload R d = Ok p \<and> decimal_from_payload R p = Ok d"
proof -
  have ok: "digits_ok (digits d)" using assms by (auto simp: decimal_inv_def)
  obtain bs where bs: "pack_nibbles (decimal_nibbles d) = Ok bs" "unpack_nibbles bs = decimal_nibbles d"
    using pack_unpack [OF decimal_nibbles_even decimal_nibbles_small [OF ok]] by blast
  let ?z = "if length (digits d) mod 2 = 0 then [0 :: u8] else []"
  have nib: "decimal_nibbles d = (?z @ digits d) @ [if negative d then 0x0d else 0x0c]"
    by (simp add: decimal_nibbles_def)
  have small: "\<not> (\<exists>x \<in> set (?z @ digits d). x > 9)"
  proof -
    have "\<forall>x \<in> set (digits d). \<not> 9 < x" using ok by (auto simp: word_less_nat_alt)
    then show ?thesis by auto
  qed
  have "assemble (negative d) (scale d) (?z @ digits d) = Ok d"
    by (rule assemble_exact [OF assms]) simp
  moreover have "decimal_from_payload R (write_sint R (word_of_int (sint (scale d))) @ bs) =
      assemble (negative d) (scale d) (?z @ digits d)"
    using small sint_i32_range [of "scale d"]
    unfolding decimal_from_payload_def read_write_sint bs(2) nib ok_or.simps and_then.simps prod.case sint_i32_word
      Let_def last_snoc butlast_snoc
    by (simp del: and_then_eq_Ok)
  ultimately show ?thesis using bs(1) by (simp add: decimal_to_payload_def)
qed

end

lemma decimal_from_payload_inv: "decimal_from_payload R p = Ok d \<Longrightarrow> decimal_inv d"
proof -
  assume "decimal_from_payload R p = Ok d"
  then obtain neg sc ns where a: "assemble neg sc ns = Ok d" and n: "\<not> (\<exists>x \<in> set ns. x > 9)"
    by (auto simp: decimal_from_payload_def Let_def split: if_splits prod.splits)
  have "digits_ok ns" using n by (auto simp: word_less_nat_alt not_less)
  from assemble_inv [OF this a] show ?thesis .
qed

lemma decimal_from_payload_no_panic: "decimal_from_payload R p \<noteq> Panic"
  by (auto simp: decimal_from_payload_def outcome_simps Let_def split: prod.splits if_splits)

definition payload_bytes :: "('e, bytes) outcome \<Rightarrow> bytes" where
  "payload_bytes p = (case p of Ok b \<Rightarrow> b | _ \<Rightarrow> [])"

sublocale rmp_int \<subseteq> decimal_ext:
  payload_codec EXT_DECIMAL decimal_inv "\<lambda>d. payload_bytes (decimal_to_payload R d)" "decimal_from_payload R"
proof
  fix d assume "decimal_inv d"
  then show "decimal_from_payload R (payload_bytes (decimal_to_payload R d)) = Ok d"
    using decimal_payload_round_trip [of d] by (auto simp: payload_bytes_def)
qed (auto intro: decimal_from_payload_inv simp: decimal_from_payload_no_panic)

section \<open>Mantissa and parts\<close>

lemma mantissa_fold_value:
  "digits_ok ds \<Longrightarrow> 0 \<le> acc \<Longrightarrow> (acc + 1) * 10 ^ length ds \<le> 2 ^ 127 \<Longrightarrow>
    mantissa_fold acc ds = Ok (acc * 10 ^ length ds + int (dval ds))"
proof (induction ds arbitrary: acc)
  case Nil
  then show ?case by simp
next
  case (Cons d ds)
  let ?a = "acc * 10 + int (unat d)"
  have "unat d \<le> 9" using Cons.prems(1) by simp
  then have d: "int (unat d) \<le> 9" by (metis of_nat_le_iff of_nat_numeral)
  have "(?a + 1) * 10 ^ length ds \<le> ((acc + 1) * 10) * 10 ^ length ds"
    using d by (intro mult_right_mono) simp_all
  also have "\<dots> \<le> 2 ^ 127" using Cons.prems(3) by (simp only: list.size(4) power_add power_one_right add_Suc_right add_0_right power_Suc mult.assoc mult.left_commute)
  finally have next_ok: "(?a + 1) * 10 ^ length ds \<le> 2 ^ 127" .
  have "?a + 1 \<le> (?a + 1) * 10 ^ length ds" using Cons.prems(2) by simp
  then have "?a < 2 ^ 127" using next_ok by linarith
  moreover have "0 \<le> acc * 10" using Cons.prems(2) by simp
  moreover have "0 \<le> int (unat d)" by (rule of_nat_0_le_iff)
  ultimately have "- (2 ^ 127) \<le> acc * 10" "acc * 10 < 2 ^ 127" "- (2 ^ 127) \<le> ?a" "?a < 2 ^ 127" by linarith+
  then have c: "checked_i128 (acc * 10) = Ok (acc * 10)" "checked_i128 ?a = Ok ?a"
    unfolding checked_i128_def by (simp_all only: simp_thms if_True)
  have IH: "mantissa_fold ?a ds = Ok (?a * 10 ^ length ds + int (dval ds))"
    using Cons.IH [of ?a] Cons.prems next_ok by simp
  have "mantissa_fold acc (d # ds) = mantissa_fold ?a ds"
    by (simp only: mantissa_fold.simps c and_then.simps)
  moreover have "acc * 10 ^ length (d # ds) + int (dval (d # ds)) = ?a * 10 ^ length ds + int (dval ds)"
    by (simp add: dec_value_Cons algebra_simps)
  ultimately show ?case using IH by simp
qed

lemma mantissa_value:
  assumes "decimal_inv d"
  shows "mantissa d = Ok ((if negative d then - 1 else 1) * int (dval (digits d)))"
proof -
  have ok: "digits_ok (digits d)" "length (digits d) \<le> 38"
    using assms by (auto simp: decimal_inv_def MAX_DIGITS_def)
  have "(10 :: int) ^ length (digits d) \<le> 10 ^ 38" using ok(2) by (intro power_increasing) simp_all
  then have "mantissa_fold 0 (digits d) = Ok (int (dval (digits d)))"
    using mantissa_fold_value [OF ok(1), of 0] by simp
  then show ?thesis by (simp add: mantissa_def)
qed

lemma digit_char_byte:
  assumes "d < 10"
  shows "byte_of_char (digit_char d) - 48 = of_nat d"
proof -
  have "list_all (\<lambda>d. byte_of_char (digit_char d) - 48 = of_nat d) [0..<10]" by code_simp
  then show ?thesis using assms by (simp add: list_all_iff)
qed

lemma fmt_nat_bytes:
  "\<exists>ds. map (\<lambda>c. byte_of_char c - 48) (fmt_nat n) = ds \<and> digits_ok ds \<and> dval ds = n"
proof -
  obtain xs where xs: "fmt_nat n = map digit_char xs" "\<forall>d \<in> set xs. d < 10" "dec_value xs = n"
    using fmt_nat_digits by blast
  have m: "map (\<lambda>c. byte_of_char c - 48) (fmt_nat n) = map of_nat xs"
    unfolding xs(1) using xs(2) by (simp add: digit_char_byte)
  have u: "map unat (map of_nat xs :: bytes) = xs" using xs(2) by (induction xs) (auto simp: unat_of_nat)
  have "digits_ok (map of_nat xs)" using xs(2) by (auto simp: unat_of_nat)
  then show ?thesis using m u xs(3) by metis
qed

lemma assemble_limit:
  assumes "digits_ok ds"
  shows "(\<exists>d. assemble neg sc ds = Ok d) \<longleftrightarrow> dval ds < 10 ^ 38"
proof -
  let ?ds = "dropWhile (\<lambda>d. d = 0) ds"
  have ok: "digits_ok ?ds" using assms set_dropWhileD by metis
  have "?ds = [] \<or> length ?ds \<le> 38 \<longleftrightarrow> dval ?ds < 10 ^ 38"
  proof (cases "length ?ds \<le> 38")
    case True
    then have "(10 :: nat) ^ length ?ds \<le> 10 ^ 38" by (intro power_increasing) simp_all
    then show ?thesis using True dval_less [OF ok] by linarith
  next
    case False
    then have ne: "?ds \<noteq> []" by (metis le0 list.size(3))
    then have "10 ^ (length ?ds - 1) \<le> dval ?ds" using hd_dropWhile [OF ne] by (intro dval_lower)
    moreover have "(10 :: nat) ^ 38 \<le> 10 ^ (length ?ds - 1)" using False by (intro power_increasing) simp_all
    ultimately show ?thesis using False ne by linarith
  qed
  then show ?thesis
    unfolding dval_dropWhile by (auto simp: assemble_def MAX_DIGITS_def Let_def)
qed

lemma from_parts_spec:
  "(\<bar>sint m\<bar> < 10 ^ 38 \<longleftrightarrow> (\<exists>d. from_parts m sc = Ok d)) \<and> from_parts m sc \<noteq> Panic \<and>
   (\<forall>d. from_parts m sc = Ok d \<longrightarrow>
      decimal_inv d \<and> decimal_value d = of_int (sint m) * 10 powi (- sint sc))"
proof -
  obtain ds where ds: "map (\<lambda>c. byte_of_char c - 48) (fmt_nat (nat \<bar>sint m\<bar>)) = ds" "digits_ok ds"
      "dval ds = nat \<bar>sint m\<bar>" using fmt_nat_bytes by blast
  have f: "from_parts m sc = assemble (sint m < 0) sc ds" by (simp add: from_parts_def ds(1))
  have "nat \<bar>sint m\<bar> < 10 ^ 38 \<longleftrightarrow> \<bar>sint m\<bar> < 10 ^ 38" by (simp add: nat_less_iff)
  then have "(\<exists>d. from_parts m sc = Ok d) \<longleftrightarrow> \<bar>sint m\<bar> < 10 ^ 38"
    unfolding f using assemble_limit [OF ds(2)] ds(3) by simp
  moreover have "decimal_value d = of_int (sint m) * 10 powi (- sint sc)" if "from_parts m sc = Ok d" for d
    using assemble_value [OF that [unfolded f]] ds(3) by (cases "sint m < 0") simp_all
  ultimately show ?thesis using assemble_inv [OF ds(2)] f by auto
qed

section \<open>The text\<close>

lemma digit_text_char:
  assumes "unat d < 10"
  shows "is_ascii_digit (char_of_byte (48 + d))" "\<not> is_exp (char_of_byte (48 + d))"
    "char_of_byte (48 + d) \<notin> {CHR ''.'', CHR ''-'', CHR ''+''}"
    "byte_of_char (char_of_byte (48 + d)) - 48 = d"
proof -
  have "list_all (\<lambda>n. let d = of_nat n :: u8 in is_ascii_digit (char_of_byte (48 + d)) \<and>
      \<not> is_exp (char_of_byte (48 + d)) \<and> char_of_byte (48 + d) \<notin> {CHR ''.'', CHR ''-'', CHR ''+''}) [0..<10]"
    by code_simp
  then have "let e = of_nat (unat d) :: u8 in is_ascii_digit (char_of_byte (48 + e)) \<and>
      \<not> is_exp (char_of_byte (48 + e)) \<and> char_of_byte (48 + e) \<notin> {CHR ''.'', CHR ''-'', CHR ''+''}"
    using assms unfolding list_all_iff set_upt by (auto dest!: bspec [of _ _ "unat d"])
  then show "is_ascii_digit (char_of_byte (48 + d))" "\<not> is_exp (char_of_byte (48 + d))"
    "char_of_byte (48 + d) \<notin> {CHR ''.'', CHR ''-'', CHR ''+''}" by (simp_all add: Let_def)
qed simp

lemma zero_text: "CHR ''0'' = char_of_byte (48 + 0)"
  by code_simp

lemma digit_text_zeros: "replicate n (CHR ''0'') = digit_text (replicate n 0)"
  by (simp add: digit_text_def zero_text)

lemma digit_text_append: "digit_text (xs @ ys) = digit_text xs @ digit_text ys"
  by (simp add: digit_text_def)

lemma digit_text_props:
  assumes "digits_ok ds"
  shows "\<forall>c \<in> set (digit_text ds). is_ascii_digit c \<and> \<not> is_exp c \<and> c \<noteq> CHR ''.'' \<and> c \<noteq> CHR ''-'' \<and> c \<noteq> CHR ''+''"
    and "map (\<lambda>c. byte_of_char c - 48) (digit_text ds) = ds" "length (digit_text ds) = length ds"
  using assms digit_text_char by (auto simp: digit_text_def comp_def map_idI)

text \<open>Parsing a sign and digits with at most one point.\<close>

lemma split_once_digits: "digits_ok xs \<Longrightarrow> split_once (CHR ''.'') (digit_text xs @ ''.'' @ ys) = Some (digit_text xs, ys)"
  using digit_text_props(1) [of xs] by (auto simp: split_once_Some)

lemma split_sign_text:
  assumes "digits_ok (x # xs)"
  shows "split_sign ((if neg then ''-'' else []) @ digit_text (x # xs) @ t) = (neg, digit_text (x # xs) @ t)"
  using digit_text_props(1) [OF assms] by (simp add: split_sign_def digit_text_def)

lemma number_only:
  assumes "\<forall>c \<in> set t. \<not> is_exp c"
  shows "takeWhile (\<lambda>c. \<not> is_exp c) t = t" "dropWhile (\<lambda>c. \<not> is_exp c) t = []"
  using assms by (simp_all add: takeWhile_eq_all_conv)

lemma parse_integer_text:
  assumes "digits_ok (x # xs)"
  shows "decimal_from_str ((if neg then ''-'' else []) @ digit_text (x # xs)) = assemble neg 0 (x # xs)"
proof -
  note p = digit_text_props [OF assms]
  have nd: "split_once (CHR ''.'') (digit_text (x # xs)) = None"
    using p(1) by (auto simp: split_once_None)
  have e: "\<forall>c \<in> set (digit_text (x # xs)). \<not> is_exp c" using p(1) by blast
  have ne: "digit_text (x # xs) \<noteq> []" by (simp add: digit_text_def)
  have dig: "\<not> (\<exists>c \<in> set (digit_text (x # xs) @ []). \<not> is_ascii_digit c)" using p(1) by auto
  show ?thesis
    using split_sign_text [OF assms, of neg "[]"] nd ne dig p(2)
    unfolding decimal_from_str_def Let_def
    by (simp add: number_only [OF e])
qed

lemma parse_point_text:
  assumes "digits_ok (x # xs)" "digits_ok ys" "ys \<noteq> []" "length ys < 2 ^ 31"
  shows "decimal_from_str ((if neg then ''-'' else []) @ digit_text (x # xs) @ ''.'' @ digit_text ys) =
    assemble neg (of_nat (length ys)) ((x # xs) @ ys)"
proof -
  let ?t = "digit_text (x # xs) @ ''.'' @ digit_text ys"
  note p = digit_text_props [OF assms(1)] and q = digit_text_props [OF assms(2)]
  have e: "\<forall>c \<in> set ?t. \<not> is_exp c" using p(1) q(1) by (auto simp: is_exp_def)
  have ne: "digit_text (x # xs) \<noteq> []" by (simp add: digit_text_def)
  have dig: "\<not> (\<exists>c \<in> set (digit_text (x # xs) @ digit_text ys). \<not> is_ascii_digit c)" using p(1) q(1) by auto
  have m: "map (\<lambda>c. byte_of_char c - 48) (digit_text (x # xs) @ digit_text ys) = (x # xs) @ ys"
    using p(2) q(2) by simp
  have sc: "int (length (digit_text ys)) - sint (0 :: i32) = int (length ys)" using q(3) by simp
  show ?thesis
    using split_sign_text [OF assms(1), of neg "''.'' @ digit_text ys"] ne dig assms(4) q(3)
    unfolding decimal_from_str_def Let_def
    by (simp only: prod.case number_only [OF e] list.case option.case and_then.simps split_once_digits [OF assms(1)] sc m)
      simp
qed

lemma display_fraction:
  assumes "decimal_inv d" "0 < sint (scale d)"
  shows "\<exists>x xs ys. decimal_display d = (if negative d then ''-'' else []) @ digit_text (x # xs) @ ''.'' @ digit_text ys \<and>
    digits_ok (x # xs) \<and> digits_ok ys \<and> length ys = nat (sint (scale d)) \<and>
    assemble (negative d) (scale d) ((x # xs) @ ys) = Ok d"
proof -
  let ?n = "length (digits d)" and ?sc = "nat (sint (scale d))"
  have ok: "digits_ok (digits d)" using assms(1) by (auto simp: decimal_inv_def)
  have pos: "\<not> sint (scale d) \<le> 0" "0 < ?sc" using assms(2) by simp_all
  show ?thesis
  proof (cases "?n > ?sc")
    case True
    let ?i = "take (?n - ?sc) (digits d)" and ?f = "drop (?n - ?sc) (digits d)"
    have disp: "decimal_display d = (if negative d then ''-'' else []) @ digit_text ?i @ ''.'' @ digit_text ?f"
      unfolding decimal_display_def Let_def by (simp only: pos True if_True if_False)
    obtain x xs where i: "?i = x # xs" using True by (cases ?i) auto
    have "digits_ok ?i" "digits_ok ?f" using ok by (meson in_set_takeD, meson in_set_dropD)
    moreover have "length ?f = ?sc" using True by simp
    moreover have "assemble (negative d) (scale d) (?i @ ?f) = Ok d"
      using assemble_exact [OF assms(1), of "[]"] by simp
    ultimately show ?thesis using disp i by metis
  next
    case False
    have disp: "decimal_display d = (if negative d then ''-'' else []) @
        digit_text (0 # []) @ ''.'' @ digit_text (replicate (?sc - ?n) 0 @ digits d)"
      unfolding decimal_display_def Let_def digit_text_append digit_text_zeros
      by (simp only: pos False if_False) (simp add: digit_text_def zero_text)
    have "digits_ok (replicate (?sc - ?n) 0 @ digits d)" "digits_ok (0 # [])" using ok by auto
    moreover have "length (replicate (?sc - ?n) 0 @ digits d) = ?sc" using False by simp
    moreover have "assemble (negative d) (scale d) ((0 # []) @ replicate (?sc - ?n) 0 @ digits d) = Ok d"
      using assemble_exact [OF assms(1), of "0 # replicate (?sc - ?n) 0"] by simp
    ultimately show ?thesis using disp by metis
  qed
qed

lemma of_nat_scale: "0 < sint (s :: i32) \<Longrightarrow> of_nat (nat (sint s)) = s"
  by (simp add: of_nat_nat)

lemma decimal_parse_display:
  assumes "decimal_inv d"
  shows "decimal_from_str (decimal_display d) =
    (if sint (scale d) \<ge> 0 then Ok d
     else assemble (negative d) 0 (digits d @ replicate (nat (- sint (scale d))) 0))"
proof (cases "0 < sint (scale d)")
  case True
  from display_fraction [OF assms True] obtain x xs ys where
    d: "decimal_display d = (if negative d then ''-'' else []) @ digit_text (x # xs) @ ''.'' @ digit_text ys"
      "digits_ok (x # xs)" "digits_ok ys" "length ys = nat (sint (scale d))"
      "assemble (negative d) (scale d) ((x # xs) @ ys) = Ok d" by blast
  have "ys \<noteq> []" "length ys < 2 ^ 31" using d(4) True sint_i32_range [of "scale d"] by auto
  from parse_point_text [OF d(2,3) this, of "negative d"] show ?thesis
    using d True by (simp only: d(1) d(4) of_nat_scale [OF True] d(5)) simp
next
  case False
  have ok: "digits_ok (digits d)" "digits d \<noteq> []" using assms by (auto simp: decimal_inv_def decimal_zero_def)
  then obtain x xs where x: "digits d @ replicate (nat (- sint (scale d))) 0 = x # xs"
    by (cases "digits d") auto
  have "digits_ok (x # xs)" unfolding x [symmetric] using ok(1) by auto
  from parse_integer_text [OF this, of "negative d"]
  have p: "decimal_from_str (decimal_display d) =
      assemble (negative d) 0 (digits d @ replicate (nat (- sint (scale d))) 0)"
    using False by (simp add: decimal_display_def digit_text_zeros digit_text_append [symmetric] x del: append_assoc)
  show ?thesis
  proof (cases "sint (scale d) = 0")
    case True
    then have "scale d = 0" by (simp only: signed_eq_0_iff)
    then show ?thesis using p assemble_exact [OF assms, of "[]"] by simp
  next
    case nonzero: False
    then show ?thesis using p False by simp
  qed
qed

section \<open>Properties\<close>

text \<open>
  C9: The order of decimals is the order of the numbers they stand for: for any two decimals that satisfy
  the type's invariant, \<open>cmp\<close> is the comparison of the exact rational values, and \<open>==\<close> holds exactly when
  the values are equal, whatever their scales.
\<close>

theorem decimal_order_is_numeric:
  assumes "decimal_inv a" "decimal_inv b"
  shows "decimal_cmp a b = cmp_of (decimal_value a) (decimal_value b) \<and>
    (decimal_eq a b \<longleftrightarrow> decimal_value a = decimal_value b)"
  using decimal_cmp_value [OF assms] decimal_eq_value [OF assms] by simp

theorem decimal_order_is_numeric_witness:
  "decimal_cmp \<lparr>negative = True, scale = 0, digits = [5]\<rparr> \<lparr>negative = True, scale = 1, digits = [4, 9]\<rparr> = Less \<and>
   decimal_eq \<lparr>negative = False, scale = 1, digits = [1, 0]\<rparr> \<lparr>negative = False, scale = 2, digits = [1, 0, 0]\<rparr>"
proof -
  let ?a = "\<lparr>negative = True, scale = 0, digits = [5]\<rparr>" and ?b = "\<lparr>negative = True, scale = 1, digits = [4, 9]\<rparr>"
  let ?c = "\<lparr>negative = False, scale = 1, digits = [1, 0]\<rparr>" and ?d = "\<lparr>negative = False, scale = 2, digits = [1, 0, 0]\<rparr>"
  have inv: "decimal_inv ?a" "decimal_inv ?b" "decimal_inv ?c" "decimal_inv ?d"
    by (simp_all add: decimal_inv_def MAX_DIGITS_def)
  have "decimal_cmp ?a ?b = Less"
    using decimal_order_is_numeric [OF inv(1,2)]
    by (simp add: decimal_value_def dec_value_def cmp_of_def power_int_def)
  moreover have "decimal_eq ?c ?d"
    using decimal_order_is_numeric [OF inv(3,4)] by (simp add: decimal_value_def dec_value_def power_int_def power2_eq_square)
  ultimately show ?thesis ..
qed

text \<open>
  A decimal survives the wire: its payload decodes to the very same sign, scale and digits,
  decoding never panics on any bytes, and whatever it accepts satisfies the invariant (digits 0 to 9, at
  most 38 of them, no leading zero, one zero).
\<close>

theorem decimal_wire_round_trip:
  assumes "rmp_int R"
  shows "(decimal_inv d \<longrightarrow> (\<exists>p. decimal_to_payload R d = Ok p \<and> decimal_from_payload R p = Ok d)) \<and>
    decimal_from_payload R q \<noteq> Panic \<and> (decimal_from_payload R q = Ok e \<longrightarrow> decimal_inv e)"
  using rmp_int.decimal_payload_round_trip [OF assms] decimal_from_payload_no_panic decimal_from_payload_inv by blast

theorem decimal_wire_round_trip_witness:
  "\<exists>p. decimal_to_payload ref_rmp \<lparr>negative = True, scale = 2, digits = [1, 2, 3, 4]\<rparr> = Ok p \<and>
     decimal_from_payload ref_rmp p = Ok \<lparr>negative = True, scale = 2, digits = [1, 2, 3, 4]\<rparr>"
  using decimal_wire_round_trip [OF ref_int.rmp_int_axioms, of "\<lparr>negative = True, scale = 2, digits = [1, 2, 3, 4]\<rparr>"]
  by (simp add: decimal_inv_def MAX_DIGITS_def)

text \<open>
  \<open>from_parts\<close> accepts exactly the mantissas of at most 38 digits and gives the number \<open>mantissa * 10^(-scale)\<close>;
  \<open>mantissa\<close> never overflows its 128 bits on a valid decimal and gives the number back together with the scale.
\<close>

theorem decimal_parts:
  "(\<bar>sint m\<bar> < 10 ^ 38 \<longleftrightarrow> (\<exists>d. from_parts m sc = Ok d)) \<and>
   (from_parts m sc = Ok d \<longrightarrow> decimal_value d = of_int (sint m) * 10 powi (- sint sc)) \<and>
   (decimal_inv d \<longrightarrow> (\<exists>x. mantissa d = Ok x \<and> decimal_value d = of_int x * 10 powi (- sint (scale d))))"
  using from_parts_spec [of m sc] mantissa_value [of d] by (auto simp: decimal_value_def)

theorem decimal_parts_witness:
  "\<exists>d. from_parts 1999 2 = Ok d \<and> decimal_value d = 1999 * 10 powi (- 2)"
proof -
  have "\<exists>d. from_parts 1999 2 = Ok d" using decimal_parts [of 1999 2] by simp
  then obtain d where d: "from_parts 1999 2 = Ok d" ..
  then show ?thesis using decimal_parts [of 1999 2 d] by simp
qed

text \<open>
  C35: A decimal survives its text: a valid decimal with a non-negative scale parses back to the same sign,
  scale and digits; with a negative scale its text is an integer that parses back to an equal number whenever
  it has at most 38 digits, and is rejected otherwise.
\<close>

theorem decimal_text_round_trip:
  assumes "decimal_inv d"
  shows "if 0 \<le> sint (scale d) then decimal_from_str (decimal_display d) = Ok d
    else if dval (digits d) * 10 ^ nat (- sint (scale d)) < 10 ^ 38
    then \<exists>e. decimal_from_str (decimal_display d) = Ok e \<and> decimal_eq d e
    else \<exists>m. decimal_from_str (decimal_display d) = Err (DecimalError m)"
proof (cases "0 \<le> sint (scale d)")
  case True
  then show ?thesis using decimal_parse_display [OF assms] by simp
next
  case False
  let ?k = "nat (- sint (scale d))" and ?ds = "digits d @ replicate (nat (- sint (scale d))) 0"
  have ok: "digits_ok ?ds" using assms by (auto simp: decimal_inv_def)
  have v: "dval ?ds = dval (digits d) * 10 ^ ?k" by (simp add: dec_value_append)
  have p: "decimal_from_str (decimal_display d) = assemble (negative d) 0 ?ds"
    using decimal_parse_display [OF assms] False by simp
  show ?thesis
  proof (cases "dval ?ds < 10 ^ 38")
    case True
    then obtain e where e: "assemble (negative d) 0 ?ds = Ok e" using assemble_limit [OF ok] by blast
    have "(10 :: rat) powi (- sint (scale d)) = 10 ^ ?k"
      using False power_int_of_nat [of "10 :: rat" ?k] by (simp add: nat_0_le)
    then have "decimal_value e = decimal_value d"
      unfolding assemble_value [OF e] v by (simp add: decimal_value_def)
    then have "decimal_eq d e" using decimal_eq_value [OF assms assemble_inv [OF ok e]] by simp
    then show ?thesis using e p True v False by simp
  next
    case large: False
    then have "\<nexists>e. assemble (negative d) 0 ?ds = Ok e" using assemble_limit [OF ok] by blast
    then obtain m where "assemble (negative d) 0 ?ds = Err (DecimalError m)"
      using assemble_no_panic by (metis decimal_error.exhaust outcome.exhaust)
    then show ?thesis using p v large False by simp
  qed
qed

theorem decimal_text_round_trip_witness:
  "decimal_from_str (decimal_display \<lparr>negative = True, scale = 3, digits = [7]\<rparr>) =
     Ok \<lparr>negative = True, scale = 3, digits = [7]\<rparr> \<and>
   (\<exists>m. decimal_from_str (decimal_display \<lparr>negative = False, scale = - 40, digits = [5]\<rparr>) = Err (DecimalError m))"
proof -
  let ?a = "\<lparr>negative = True, scale = 3, digits = [7]\<rparr>" and ?b = "\<lparr>negative = False, scale = - 40, digits = [5]\<rparr>"
  have inv: "decimal_inv ?a" "decimal_inv ?b" by (simp_all add: decimal_inv_def MAX_DIGITS_def)
  show ?thesis
    using decimal_text_round_trip [OF inv(1)] decimal_text_round_trip [OF inv(2)] by (simp add: dec_value_def)
qed

end
