(* ===== verification/Datetime.thy ===== *)
theory Datetime
  imports Ext
begin

text \<open>
  \<^verbatim>\<open>src/src/types/datetime.rs\<close>: an instant in Unix time with a zone for display, its payload, its text, its order,
  and the conversions.  A \<open>SystemTime\<close> is its nanoseconds since the epoch; which of them the platform can represent
  is a parameter, and so are the constructors of the date crates.
\<close>

definition NANOS_PER_SECOND :: u32 where "NANOS_PER_SECOND = 1000000000"
definition SECONDS_PER_DAY :: int where "SECONDS_PER_DAY = 86400"

record datetime =
  dt_epoch :: i64
  dt_nsec :: u32
  dt_tz_offset :: i16
  dt_tz_index :: i16

datatype datetime_error = DatetimeError string

definition DT_UNIX_EPOCH :: datetime where
  "DT_UNIX_EPOCH = \<lparr>dt_epoch = 0, dt_nsec = 0, dt_tz_offset = 0, dt_tz_index = 0\<rparr>"

definition from_unix :: "i64 \<Rightarrow> u32 \<Rightarrow> datetime" where
  "from_unix seconds nanoseconds =
    \<lparr>dt_epoch = saturating_add_i64 seconds (ucast (nanoseconds div NANOS_PER_SECOND)),
     dt_nsec = nanoseconds mod NANOS_PER_SECOND, dt_tz_offset = 0, dt_tz_index = 0\<rparr>"

definition with_tz_offset :: "i16 \<Rightarrow> datetime \<Rightarrow> datetime" where
  "with_tz_offset minutes d = d\<lparr>dt_tz_offset := minutes\<rparr>"

definition with_tz_index :: "i16 \<Rightarrow> datetime \<Rightarrow> datetime" where
  "with_tz_index index d = d\<lparr>dt_tz_index := index\<rparr>"

section \<open>The payload\<close>

definition datetime_to_payload :: "datetime \<Rightarrow> bytes" where
  "datetime_to_payload d =
    le_bytes 8 (unat (dt_epoch d)) @
    (if dt_nsec d \<noteq> 0 \<or> dt_tz_offset d \<noteq> 0 \<or> dt_tz_index d \<noteq> 0
     then le_bytes 4 (unat (dt_nsec d)) @ le_bytes 2 (unat (dt_tz_offset d)) @ le_bytes 2 (unat (dt_tz_index d))
     else [])"

definition le_seconds :: "bytes \<Rightarrow> (datetime_error, i64) outcome" where
  "le_seconds b = map_ok (\<lambda>bs. of_nat (le_nat bs)) (slice_range b 0 8)"

definition datetime_from_payload :: "bytes \<Rightarrow> (datetime_error, datetime) outcome" where
  "datetime_from_payload payload =
    (if length payload = 8 then map_ok (\<lambda>s. from_unix s 0) (le_seconds payload)
     else if length payload = 16 then
       and_then (slice_range payload 8 12) (\<lambda>b. let nsec = of_nat (le_nat b) in
       and_then (slice_range payload 12 14) (\<lambda>b. let tz_offset = of_nat (le_nat b) in
       and_then (slice_range payload 14 16) (\<lambda>b. let tz_index = of_nat (le_nat b) in
       if nsec \<ge> NANOS_PER_SECOND then Err (DatetimeError ''nanoseconds out of range'')
       else map_ok (\<lambda>s. \<lparr>dt_epoch = s, dt_nsec = nsec, dt_tz_offset = tz_offset, dt_tz_index = tz_index\<rparr>)
         (le_seconds payload))))
     else Err (DatetimeError ''payload is not 8 or 16 bytes''))"

section \<open>The text\<close>

text \<open>
  \<open>i64\<close> arithmetic that overflows and a \<open>try_from\<close> out of range panic; a \<open>u32\<close> result is a natural number.
  The error of a formatter carries nothing.
\<close>

definition i64_checked :: "int \<Rightarrow> (unit, int) outcome" where
  "i64_checked x = (if - (2 ^ 63) \<le> x \<and> x < 2 ^ 63 then Ok x else Panic)"

definition u32_expect :: "int \<Rightarrow> (unit, nat) outcome" where
  "u32_expect x = (if 0 \<le> x \<and> x < 2 ^ 32 then Ok (nat x) else Panic)"

definition civil_from_days :: "int \<Rightarrow> (unit, int \<times> nat \<times> nat) outcome" where
  "civil_from_days days =
    and_then (i64_checked (days + 719468)) (\<lambda>z.
    let era = z div 146097;
        doe = z mod 146097;
        yoe = (doe - doe div 1460 + doe div 36524 - doe div 146096) div 365;
        doy = doe - (365 * yoe + yoe div 4 - yoe div 100);
        mp = (5 * doy + 2) div 153
    in and_then (u32_expect (doy - (153 * mp + 2) div 5 + 1)) (\<lambda>day.
       and_then (u32_expect (if mp < 10 then mp + 3 else mp - 9)) (\<lambda>month.
       Ok (yoe + era * 400 + (if month \<le> 2 then 1 else 0), month, day))))"

text \<open>\<open>trim_end_matches('0')\<close>.\<close>

definition trim_zeros :: "string \<Rightarrow> string" where
  "trim_zeros s = rev (dropWhile (\<lambda>c. c = CHR ''0'') (rev s))"

definition datetime_display :: "datetime \<Rightarrow> (unit, string) outcome" where
  "datetime_display d =
    (let local_time = clamp_signed 64 (sint (dt_epoch d) + sint (dt_tz_offset d) * 60) in
     and_then (civil_from_days (local_time div SECONDS_PER_DAY)) (\<lambda>(year, month, day).
     let second_of_day = nat (local_time mod SECONDS_PER_DAY);
         minutes = nat \<bar>sint (dt_tz_offset d)\<bar>
     in Ok ((if year < 0 then ''-'' else []) @
       fmt_padded 4 (nat \<bar>year\<bar>) @ ''-'' @ fmt_padded 2 month @ ''-'' @ fmt_padded 2 day @ ''T'' @
       fmt_padded 2 (second_of_day div 3600) @ '':'' @ fmt_padded 2 (second_of_day div 60 mod 60) @ '':'' @
       fmt_padded 2 (second_of_day mod 60) @
       (if dt_nsec d \<noteq> 0 then ''.'' @ trim_zeros (fmt_padded 9 (unat (dt_nsec d))) else []) @
       (if dt_tz_offset d = 0 then ''Z''
        else (if sint (dt_tz_offset d) < 0 then ''-'' else ''+'') @
          fmt_padded 2 (minutes div 60) @ '':'' @ fmt_padded 2 (minutes mod 60)))))"

definition datetime_debug :: "datetime \<Rightarrow> (unit, string) outcome" where
  "datetime_debug d = map_ok (\<lambda>s. ''Datetime('' @ s @ '')'' @
     (if dt_tz_index d \<noteq> 0 then ''[tz #'' @ fmt_int (sint (dt_tz_index d)) @ '']'' else [])) (datetime_display d)"

section \<open>Equality, order, conversions\<close>

definition datetime_eq :: "datetime \<Rightarrow> datetime \<Rightarrow> bool" where
  "datetime_eq a b = ((dt_epoch a, dt_nsec a) = (dt_epoch b, dt_nsec b))"

definition datetime_cmp :: "datetime \<Rightarrow> datetime \<Rightarrow> ordering" where
  "datetime_cmp a b =
    (if sint (dt_epoch a) < sint (dt_epoch b) then Less
     else if sint (dt_epoch b) < sint (dt_epoch a) then Greater
     else if dt_nsec a < dt_nsec b then Less
     else if dt_nsec b < dt_nsec a then Greater
     else Equal)"

abbreviation (input) NANOS :: int where "NANOS \<equiv> 1000000000"

definition datetime_from_system_time :: "int \<Rightarrow> datetime" where
  "datetime_from_system_time time =
    (if 0 \<le> time then from_unix (word_of_int (min (time div NANOS) (2 ^ 63 - 1))) (word_of_int (time mod NANOS))
     else
       let before = - time;
           seconds = - min (before div NANOS) (2 ^ 63 - 1);
           nanos = before mod NANOS
       in if nanos = 0 then from_unix (word_of_int seconds) 0
          else from_unix (word_of_int (seconds - 1)) (NANOS_PER_SECOND - word_of_int nanos))"

definition system_time_try_from :: "(int \<Rightarrow> bool) \<Rightarrow> datetime \<Rightarrow> (datetime_error, int) outcome" where
  "system_time_try_from representable value =
    (let out_of_range = DatetimeError ''out of range for SystemTime'';
         checked = (\<lambda>t. if representable t then Some t else None);
         nanos = uint (dt_nsec value);
         seconds = \<bar>sint (dt_epoch value)\<bar> * NANOS
     in if 0 \<le> sint (dt_epoch value)
        then ok_or (checked (seconds + nanos)) out_of_range
        else ok_or (Option.bind (checked (- seconds)) (\<lambda>t. checked (t + nanos))) out_of_range)"

text \<open>
  The date crates: what they report of a value goes in, and their constructors are the arguments \<open>mk\<close>.
  \<open>i16::try_from(minutes).unwrap_or(0)\<close> drops an offset that does not fit.
\<close>

definition i16_or_zero :: "int \<Rightarrow> i16" where
  "i16_or_zero m = (if - (2 ^ 15) \<le> m \<and> m < 2 ^ 15 then word_of_int m else 0)"

definition div_trunc :: "int \<Rightarrow> int \<Rightarrow> int" where
  "div_trunc a b = (if a < 0 then - ((- a) div b) else a div b)"

definition datetime_from_time :: "i64 \<Rightarrow> u32 \<Rightarrow> i16 \<Rightarrow> datetime" where
  "datetime_from_time unix_timestamp nanosecond whole_minutes =
    with_tz_offset whole_minutes (from_unix unix_timestamp nanosecond)"

definition datetime_from_chrono :: "i64 \<Rightarrow> u32 \<Rightarrow> i32 \<Rightarrow> datetime" where
  "datetime_from_chrono timestamp subsec_nanos local_minus_utc =
    with_tz_offset (i16_or_zero (div_trunc (sint local_minus_utc) 60)) (from_unix timestamp subsec_nanos)"

definition datetime_from_jiff :: "i64 \<Rightarrow> i32 \<Rightarrow> datetime" where
  "datetime_from_jiff as_second subsec_nanosecond =
    (if sint subsec_nanosecond < 0
     then from_unix (as_second - 1) (ucast (subsec_nanosecond + 1000000000))
     else from_unix as_second (ucast subsec_nanosecond))"

definition datetime_from_zoned :: "i64 \<Rightarrow> i32 \<Rightarrow> i32 \<Rightarrow> datetime" where
  "datetime_from_zoned as_second subsec_nanosecond offset_seconds =
    with_tz_offset (i16_or_zero (div_trunc (sint offset_seconds) 60)) (datetime_from_jiff as_second subsec_nanosecond)"

definition time_try_from ::
  "(int \<Rightarrow> 'u option) \<Rightarrow> (int \<Rightarrow> 'o option) \<Rightarrow> ('u \<Rightarrow> 'o \<Rightarrow> 't) \<Rightarrow> datetime \<Rightarrow> (datetime_error, 't) outcome" where
  "time_try_from from_nanos from_seconds to_offset value =
    and_then (ok_or (from_nanos (sint (dt_epoch value) * NANOS + uint (dt_nsec value)))
      (DatetimeError ''out of range for time::OffsetDateTime'')) (\<lambda>utc.
    and_then (ok_or (from_seconds (sint (dt_tz_offset value) * 60))
      (DatetimeError ''offset out of range for time::UtcOffset'')) (\<lambda>offset.
    Ok (to_offset utc offset)))"

definition chrono_try_from ::
  "(i64 \<Rightarrow> u32 \<Rightarrow> 'u option) \<Rightarrow> (int \<Rightarrow> 'o option) \<Rightarrow> ('u \<Rightarrow> 'o \<Rightarrow> 't) \<Rightarrow> datetime \<Rightarrow> (datetime_error, 't) outcome" where
  "chrono_try_from from_timestamp east_opt with_timezone value =
    and_then (ok_or (from_timestamp (dt_epoch value) (dt_nsec value))
      (DatetimeError ''out of range for chrono::DateTime'')) (\<lambda>utc.
    and_then (ok_or (east_opt (sint (dt_tz_offset value) * 60))
      (DatetimeError ''offset out of range for chrono::FixedOffset'')) (\<lambda>offset.
    Ok (with_timezone utc offset)))"

definition jiff_try_from :: "(i64 \<Rightarrow> i32 \<Rightarrow> 'u option) \<Rightarrow> datetime \<Rightarrow> (datetime_error, 'u) outcome" where
  "jiff_try_from timestamp_new value =
    (if unat (dt_nsec value) < 2 ^ 31
     then ok_or (timestamp_new (dt_epoch value) (dt_nsec value)) (DatetimeError ''out of range for jiff::Timestamp'')
     else Panic)"

definition zoned_try_from ::
  "(i64 \<Rightarrow> i32 \<Rightarrow> 'u option) \<Rightarrow> (int \<Rightarrow> 'o option) \<Rightarrow> ('u \<Rightarrow> 'o \<Rightarrow> 't) \<Rightarrow> datetime \<Rightarrow> (datetime_error, 't) outcome" where
  "zoned_try_from timestamp_new from_seconds to_zoned value =
    and_then (jiff_try_from timestamp_new value) (\<lambda>timestamp.
    and_then (ok_or (from_seconds (sint (dt_tz_offset value) * 60))
      (DatetimeError ''offset out of range for jiff::tz::Offset'')) (\<lambda>offset.
    Ok (to_zoned timestamp offset)))"

definition datetime_error_display :: "datetime_error \<Rightarrow> string" where
  "datetime_error_display e = (case e of DatetimeError m \<Rightarrow> ''invalid datetime: '' @ m)"

definition datetime_deserialize :: "u8 \<times> bytes \<Rightarrow> (string, datetime) outcome" where
  "datetime_deserialize = ext_deserialize EXT_DATETIME ''a datetime'' datetime_from_payload datetime_error_display"

definition datetime_try_from :: "mpvalue \<Rightarrow> (datetime_error, datetime) outcome" where
  "datetime_try_from = ext_try_from EXT_DATETIME datetime_from_payload (DatetimeError ''not an MP_DATETIME value'')"

definition value_from_datetime :: "datetime \<Rightarrow> mpvalue" where
  "value_from_datetime d = VExt EXT_DATETIME (datetime_to_payload d)"

section \<open>The payload round trip\<close>

definition datetime_valid :: "datetime \<Rightarrow> bool" where
  "datetime_valid d = (dt_nsec d < NANOS_PER_SECOND)"

lemma le_word_round_trip:
  "of_nat (le_nat (le_bytes 8 (unat (w :: 64 word)))) = w"
  "of_nat (le_nat (le_bytes 4 (unat (v :: 32 word)))) = v"
  "of_nat (le_nat (le_bytes 2 (unat (u :: 16 word)))) = u"
proof -
  have "unat w < 2 ^ 64" "unat v < 2 ^ 32" "unat u < 2 ^ 16"
    using unsigned_less [of w] unsigned_less [of v] unsigned_less [of u] by simp_all
  then show "of_nat (le_nat (le_bytes 8 (unat w))) = w" "of_nat (le_nat (le_bytes 4 (unat v))) = v"
    "of_nat (le_nat (le_bytes 2 (unat u))) = u" by (simp_all add: byte_simps)
qed

lemma from_unix_small: "n < NANOS_PER_SECOND \<Longrightarrow>
  from_unix s n = \<lparr>dt_epoch = s, dt_nsec = n, dt_tz_offset = 0, dt_tz_index = 0\<rparr>"
proof -
  assume n: "n < NANOS_PER_SECOND"
  have q: "n div NANOS_PER_SECOND = 0" "n mod NANOS_PER_SECOND = n"
    using n by (simp_all add: word_less_nat_alt word_unat_eq_iff unat_div unat_mod)
  have "sint (saturating_add_i64 s 0) = sint s"
    using sint_i64_range [of s] by (simp add: sint_saturating_add clamp_signed_def)
  then have "saturating_add_i64 s 0 = s" by (simp only: signed_word_eqI)
  then show ?thesis by (simp add: from_unix_def q)
qed

lemma slices16:
  assumes "length a = 8" "length b = 4" "length c = 2" "length d = 2"
  shows "slice_range (a @ b @ c @ d) 0 8 = Ok a" "slice_range (a @ b @ c @ d) 8 12 = Ok b"
    "slice_range (a @ b @ c @ d) 12 14 = Ok c" "slice_range (a @ b @ c @ d) 14 16 = Ok d"
  using assms by (simp_all add: slice_range_def get_range_def)

lemma datetime_from_to:
  assumes "datetime_valid d"
  shows "datetime_from_payload (datetime_to_payload d) = Ok d"
proof (cases "dt_nsec d \<noteq> 0 \<or> dt_tz_offset d \<noteq> 0 \<or> dt_tz_index d \<noteq> 0")
  case True
  have "datetime_to_payload d = le_bytes 8 (unat (dt_epoch d)) @ le_bytes 4 (unat (dt_nsec d)) @
      le_bytes 2 (unat (dt_tz_offset d)) @ le_bytes 2 (unat (dt_tz_index d))"
    using True by (simp add: datetime_to_payload_def)
  moreover have "\<not> NANOS_PER_SECOND \<le> dt_nsec d" using assms by (simp add: datetime_valid_def not_le)
  ultimately show ?thesis
    by (simp add: datetime_from_payload_def le_seconds_def slices16 le_word_round_trip Let_def del: and_then_eq_Ok map_ok_eq_Ok)
next
  case False
  then have "datetime_to_payload d = le_bytes 8 (unat (dt_epoch d))" by (simp add: datetime_to_payload_def)
  moreover have "slice_range (le_bytes 8 n) 0 8 = Ok (le_bytes 8 n)" for n by (simp add: slice_range_def get_range_def)
  moreover have "(0 :: u32) < NANOS_PER_SECOND" by (simp add: NANOS_PER_SECOND_def)
  ultimately show ?thesis using False
    by (simp add: datetime_from_payload_def le_seconds_def le_word_round_trip from_unix_small del: and_then_eq_Ok map_ok_eq_Ok)
qed

lemma nsec_mod: "(n :: u32) mod NANOS_PER_SECOND < NANOS_PER_SECOND"
  by (simp add: NANOS_PER_SECOND_def word_less_nat_alt unat_mod)

lemma zero_nsec: "0 < NANOS_PER_SECOND"
  by (simp add: NANOS_PER_SECOND_def)

interpretation datetime_ext: payload_codec EXT_DATETIME datetime_valid datetime_to_payload datetime_from_payload
proof unfold_locales
  fix p :: bytes and d :: datetime
  show "datetime_valid d \<Longrightarrow> datetime_from_payload (datetime_to_payload d) = Ok d" by (rule datetime_from_to)
  show "datetime_from_payload p = Ok d \<Longrightarrow> datetime_valid d"
    by (auto simp: datetime_from_payload_def datetime_valid_def Let_def from_unix_def nsec_mod not_le zero_nsec split: if_splits)
  show "datetime_from_payload p \<noteq> Panic"
    by (auto simp: datetime_from_payload_def le_seconds_def Let_def slice_range_def get_range_def)
qed

text \<open>
  A datetime survives its payload: encoding picks the short form exactly for a whole second in UTC without a zone,
  and decoding either form gives the same seconds, nanoseconds and zone; decoding is total and only yields
  nanoseconds below a second.\<close>
theorem datetime_wire_round_trip:
  assumes "datetime_valid d"
  shows "datetime_from_payload (datetime_to_payload d) = Ok d \<and>
    length (datetime_to_payload d) =
      (if dt_nsec d = 0 \<and> dt_tz_offset d = 0 \<and> dt_tz_index d = 0 then 8 else 16) \<and>
    datetime_deserialize (ext_serialize EXT_DATETIME (datetime_to_payload d)) = Ok d \<and>
    datetime_try_from (value_from_datetime d) = Ok d \<and>
    (case datetime_from_payload p of Ok x \<Rightarrow> datetime_valid x | Err _ \<Rightarrow> True | Panic \<Rightarrow> False)"
  using datetime_ext.from_to [OF assms] datetime_ext.serde_round_trip [OF assms] datetime_ext.value_round_trip [OF assms]
    datetime_ext.from_valid [of p] datetime_ext.from_total [of p]
  by (auto simp: datetime_deserialize_def datetime_try_from_def value_from_datetime_def datetime_to_payload_def
      simp del: map_ok_eq_Ok split: outcome.split)

theorem datetime_wire_round_trip_witness:
  "datetime_from_payload (datetime_to_payload (with_tz_offset 180 (from_unix 1700000000 5))) =
      Ok (with_tz_offset 180 (from_unix 1700000000 5)) \<and>
    length (datetime_to_payload (with_tz_offset 180 (from_unix 1700000000 5))) =
      (if dt_nsec (with_tz_offset 180 (from_unix 1700000000 5)) = 0 \<and>
        dt_tz_offset (with_tz_offset 180 (from_unix 1700000000 5)) = 0 \<and>
        dt_tz_index (with_tz_offset 180 (from_unix 1700000000 5)) = 0 then 8 else 16) \<and>
    datetime_deserialize (ext_serialize EXT_DATETIME (datetime_to_payload (with_tz_offset 180 (from_unix 1700000000 5)))) =
      Ok (with_tz_offset 180 (from_unix 1700000000 5)) \<and>
    datetime_try_from (value_from_datetime (with_tz_offset 180 (from_unix 1700000000 5))) =
      Ok (with_tz_offset 180 (from_unix 1700000000 5)) \<and>
    (case datetime_from_payload [1, 2] of Ok x \<Rightarrow> datetime_valid x | Err _ \<Rightarrow> True | Panic \<Rightarrow> False)"
  by (rule datetime_wire_round_trip) (simp add: datetime_valid_def with_tz_offset_def from_unix_def nsec_mod)

section \<open>The order\<close>

definition instant :: "datetime \<Rightarrow> int" where
  "instant d = sint (dt_epoch d) * NANOS + uint (dt_nsec d)"

lemma valid_nsec: "datetime_valid d \<Longrightarrow> uint (dt_nsec d) < NANOS"
  by (simp add: datetime_valid_def NANOS_PER_SECOND_def word_less_def)

text \<open>
  Datetimes are ordered and compared by their instants alone, whatever their zones; setting a zone never moves the
  instant.\<close>
theorem datetime_order_is_instants:
  assumes "datetime_valid a" "datetime_valid b"
  shows "datetime_cmp a b = (if instant a < instant b then Less else if instant b < instant a then Greater else Equal) \<and>
    (datetime_eq a b \<longleftrightarrow> instant a = instant b) \<and>
    instant (with_tz_index i (with_tz_offset m a)) = instant a"
proof -
  have n: "0 \<le> uint (dt_nsec a)" "uint (dt_nsec a) < NANOS" "0 \<le> uint (dt_nsec b)" "uint (dt_nsec b) < NANOS"
    using valid_nsec assms by simp_all
  have w: "dt_nsec a < dt_nsec b \<longleftrightarrow> uint (dt_nsec a) < uint (dt_nsec b)"
    "dt_nsec b < dt_nsec a \<longleftrightarrow> uint (dt_nsec b) < uint (dt_nsec a)"
    "dt_nsec a = dt_nsec b \<longleftrightarrow> uint (dt_nsec a) = uint (dt_nsec b)"
    by (simp_all add: word_less_def word_eq_iff_unsigned)
  have e: "dt_epoch a = dt_epoch b \<longleftrightarrow> sint (dt_epoch a) = sint (dt_epoch b)" by (metis signed_word_eqI)
  define x y u v where d: "x = sint (dt_epoch a)" "y = sint (dt_epoch b)" "u = uint (dt_nsec a)" "v = uint (dt_nsec b)"
  have "instant a < instant b \<longleftrightarrow> x < y \<or> x = y \<and> u < v" "instant b < instant a \<longleftrightarrow> y < x \<or> x = y \<and> v < u"
    "instant a = instant b \<longleftrightarrow> x = y \<and> u = v"
    unfolding instant_def d [symmetric] using n unfolding d [symmetric] by (cases x y rule: linorder_cases; auto)+
  then show ?thesis
    unfolding datetime_cmp_def datetime_eq_def w e prod.inject d [symmetric]
    by (cases x y rule: linorder_cases) (simp_all add: instant_def with_tz_offset_def with_tz_index_def)
qed

theorem datetime_order_is_instants_witness:
  "datetime_cmp (from_unix 1 0) (from_unix 0 5) =
      (if instant (from_unix 1 0) < instant (from_unix 0 5) then Less
       else if instant (from_unix 0 5) < instant (from_unix 1 0) then Greater else Equal) \<and>
    (datetime_eq (from_unix 1 0) (from_unix 0 5) \<longleftrightarrow> instant (from_unix 1 0) = instant (from_unix 0 5)) \<and>
    instant (with_tz_index 7 (with_tz_offset 60 (from_unix 1 0))) = instant (from_unix 1 0)"
  by (rule datetime_order_is_instants) (simp_all only: datetime_valid_def from_unix_def datetime.simps nsec_mod)

section \<open>The proleptic Gregorian calendar\<close>

definition leap :: "int \<Rightarrow> bool" where
  "leap y \<longleftrightarrow> y mod 4 = 0 \<and> (y mod 100 \<noteq> 0 \<or> y mod 400 = 0)"

definition month_len :: "int \<Rightarrow> nat \<Rightarrow> int" where
  "month_len y m = (if m = 2 then (if leap y then 29 else 28) else if m \<in> {4, 6, 9, 11} then 30 else 31)"

definition valid_date :: "int \<times> nat \<times> nat \<Rightarrow> bool" where
  "valid_date ymd = (case ymd of (y, m, d) \<Rightarrow> 1 \<le> m \<and> m \<le> 12 \<and> 1 \<le> d \<and> int d \<le> month_len y m)"

text \<open>Days from the first of January of the year 1 to that of year \<open>y\<close>, and to a date, counted from 1970.\<close>

definition days_before_year :: "int \<Rightarrow> int" where
  "days_before_year y = 365 * (y - 1) + (y - 1) div 4 - (y - 1) div 100 + (y - 1) div 400"

fun days_before_month :: "int \<Rightarrow> nat \<Rightarrow> int" where
  "days_before_month y m = (if m \<le> 1 then 0 else days_before_month y (m - 1) + month_len y (m - 1))"

declare days_before_month.simps [simp del]

definition day_number :: "int \<times> nat \<times> nat \<Rightarrow> int" where
  "day_number ymd = (case ymd of (y, m, d) \<Rightarrow>
    days_before_year y + days_before_month y m + int d - 1 - days_before_year 1970)"

text \<open>The year of the era: its days are those from \<open>year_start yoe\<close> to the start of the next.\<close>

definition year_start :: "int \<Rightarrow> int" where
  "year_start y = 365 * y + y div 4 - y div 100"

definition year_of :: "int \<Rightarrow> int" where
  "year_of doe = (doe - doe div 1460 + doe div 36524 - doe div 146096) div 365"

text \<open>
  A day of the 400-year era is day \<open>t\<close> of year \<open>r\<close> of the four-year cycle \<open>q\<close> of century \<open>c\<close>; a year
  that starts in March has a day 365 exactly when the next year is a leap year.
\<close>

definition era_day :: "int \<Rightarrow> int \<Rightarrow> int \<Rightarrow> int \<Rightarrow> bool" where
  "era_day c q r t \<longleftrightarrow> 0 \<le> c \<and> c \<le> 3 \<and> 0 \<le> q \<and> q \<le> 24 \<and> 0 \<le> r \<and> r \<le> 3 \<and> 0 \<le> t \<and>
    (t \<le> 364 \<or> t = 365 \<and> r = 3 \<and> (q \<noteq> 24 \<or> c = 3))"

lemma era_day_exists:
  assumes "0 \<le> doe" "doe < 146097"
  obtains c q r t where "era_day c q r t" "doe = 36524 * c + 1461 * q + 365 * r + t"
proof -
  define c where "c = min 3 (doe div 36524)"
  define d where "d = doe - 36524 * c"
  have c: "0 \<le> c" "c \<le> 3" using assms(1) by (auto simp: c_def pos_imp_zdiv_nonneg_iff)
  have d: "0 \<le> d" "d \<le> 36524" "d = 36524 \<longrightarrow> c = 3"
  proof -
    have m: "36524 * (doe div 36524) + doe mod 36524 = doe" "0 \<le> doe mod 36524" "doe mod 36524 < 36524" by simp_all
    show "0 \<le> d" "d \<le> 36524" "d = 36524 \<longrightarrow> c = 3"
      using m assms(2) by (auto simp: d_def c_def min_def)
  qed
  define q where "q = d div 1461"
  define e where "e = d mod 1461"
  have de: "d = 1461 * q + e" "0 \<le> e" "e < 1461" by (simp_all add: q_def e_def)
  then have q: "0 \<le> q" "q \<le> 24" using d by auto
  define r where "r = min 3 (e div 365)"
  define t where "t = e - 365 * r"
  have m: "365 * (e div 365) + e mod 365 = e" "0 \<le> e mod 365" "e mod 365 < 365" by simp_all
  have r: "0 \<le> r" "r \<le> 3" using de(2) by (auto simp: r_def pos_imp_zdiv_nonneg_iff)
  have t: "0 \<le> t" "t \<le> 365" "t = 365 \<longrightarrow> r = 3" using m de(2,3) by (auto simp: t_def r_def min_def)
  have "era_day c q r t"
  proof (cases "t \<le> 364")
    case False
    then have "t = 365" "r = 3" using t by auto
    then have "e = 1460" by (simp add: t_def)
    then have "c = 3" if "q = 24" using that de(1) d(3) by simp
    then show ?thesis using c q \<open>t = 365\<close> \<open>r = 3\<close> by (auto simp: era_day_def)
  qed (use c q r t in \<open>simp add: era_day_def\<close>)
  moreover have "doe = 36524 * c + 1461 * q + 365 * r + t" using de(1) by (simp add: d_def t_def)
  ultimately show thesis by (rule that)
qed

lemma era_day_year:
  assumes "era_day c q r t" "doe = 36524 * c + 1461 * q + 365 * r + t"
  shows "year_of doe = 100 * c + 4 * q + r" "year_start (100 * c + 4 * q + r) = 36524 * c + 1461 * q + 365 * r"
proof -
  have b: "0 \<le> c" "c \<le> 3" "0 \<le> q" "q \<le> 24" "0 \<le> r" "r \<le> 3" "0 \<le> t" "t \<le> 365"
    using assms(1) by (auto simp: era_day_def)
  have "(100 * c + 4 * q + r) div 4 = 25 * c + q" "(100 * c + 4 * q + r) div 100 = c" using b by linarith+
  then show "year_start (100 * c + 4 * q + r) = 36524 * c + 1461 * q + 365 * r" by (simp add: year_start_def)
  define k where "k = (if t = 365 \<or> r = 3 \<and> 365 \<le> 24 * c + q + t then 1 else 0 :: int)"
  have k1: "doe div 1460 = 25 * c + q + k"
    using b assms by (auto simp: k_def era_day_def)
  define l where "l = (if doe = 146096 then 1 else 0 :: int)"
  have "doe div 36524 = c + (if t = 365 \<and> q = 24 then 1 else 0)"
    using b assms by (auto simp: era_day_def)
  moreover have "doe div 146096 = (if t = 365 \<and> q = 24 then 1 else 0)"
    using b assms by (auto simp: era_day_def)
  ultimately have "doe - doe div 1460 + doe div 36524 - doe div 146096 = 365 * (100 * c + 4 * q + r) + (t - k)"
    using k1 assms(2) by simp
  moreover have "0 \<le> t - k" "t - k < 365" using b by (auto simp: k_def)
  ultimately show "year_of doe = 100 * c + 4 * q + r" by (simp add: year_of_def)
qed

lemma div_pred: "(0 :: int) < k \<Longrightarrow> y div k = (y - 1) div k + (if y mod k = 0 then 1 else 0)"
proof (cases "y mod k = 0")
  case True
  assume k: "0 < k"
  have "y = k * (y div k)" using True by (metis add.right_neutral mult_div_mod_eq)
  then have "y - 1 = k * (y div k - 1) + (k - 1)" by (simp add: algebra_simps)
  moreover have "0 \<le> k - 1" "k - 1 < k" using k by simp_all
  ultimately have "(y - 1) div k = y div k - 1" by (rule int_div_pos_eq)
  then show ?thesis using True by simp
next
  case False
  assume k: "0 < k"
  have "y - 1 = k * (y div k) + (y mod k - 1)" by simp
  moreover have "0 \<le> y mod k - 1" "y mod k - 1 < k"
    using False k pos_mod_sign [OF k, of y] pos_mod_bound [OF k, of y] by linarith+
  ultimately have "(y - 1) div k = y div k" by (rule int_div_pos_eq)
  then show ?thesis using False by simp
qed

lemma leap_count:
  "(r \<Longrightarrow> q) \<Longrightarrow> (q \<Longrightarrow> p) \<Longrightarrow>
    (if p then 1 else 0) - (if q then 1 else 0) + (if r then 1 else 0) = (if p \<and> (\<not> q \<or> r) then 1 else 0 :: int)"
  by (cases p; cases q; cases r; simp)

lemma days_before_year_next: "days_before_year (y + 1) = days_before_year y + 365 + (if leap y then 1 else 0)"
proof -
  define a b c where abc: "a = (if y mod 4 = 0 then 1 else 0 :: int)" "b = (if y mod 100 = 0 then 1 else 0 :: int)"
    "c = (if y mod 400 = 0 then 1 else 0 :: int)"
  have e: "y div 4 = (y - 1) div 4 + a" "y div 100 = (y - 1) div 100 + b" "y div 400 = (y - 1) div 400 + c"
    unfolding abc by (rule div_pred; simp)+
  have "(100 :: int) dvd 400" "(4 :: int) dvd 100" by simp_all
  then have "y mod 400 = 0 \<Longrightarrow> y mod 100 = 0" "y mod 100 = 0 \<Longrightarrow> y mod 4 = 0"
    unfolding mod_eq_0_iff_dvd by (blast intro: dvd_trans)+
  then have "a - b + c = (if leap y then 1 else 0)" unfolding abc leap_def by (rule leap_count)
  moreover have "365 * y + (p + a) - (q + b) + (s + c) = 365 * (y - 1) + p - q + s + 365 + (a - b + c)" for p q s :: int
    by simp
  moreover have "y + 1 - 1 = y" by simp
  ultimately show ?thesis unfolding days_before_year_def \<open>y + 1 - 1 = y\<close> e by (simp only:)
qed

lemma days_before_year_era:
  assumes "0 \<le> yoe" "yoe < 400"
  shows "days_before_year (yoe + era * 400 + 1) = 146097 * era + year_start yoe"
proof -
  have "(yoe + era * 400) div 4 = yoe div 4 + 100 * era" "(yoe + era * 400) div 100 = yoe div 100 + 4 * era" by linarith+
  moreover have "(yoe + era * 400) div 400 = era" using assms by simp
  ultimately show ?thesis by (simp add: days_before_year_def year_start_def)
qed

text \<open>The month and day of day \<open>t\<close> of a year that starts in March.\<close>

lemma upto_eleven: "0 \<le> k \<Longrightarrow> k \<le> 11 \<Longrightarrow> k \<in> {0, 1, 2, 3, 4, 5, 6, 7, 8, 9, 10, 11 :: int}"
  by (simp only: insert_iff empty_iff simp_thms) presburger

lemma march_cases:
  assumes "0 \<le> (t :: int)" "t \<le> 365"
  shows "(5 * t + 2) div 153 \<in> {0, 1, 2, 3, 4, 5, 6, 7, 8, 9, 10, 11}"
proof -
  have "0 \<le> (5 * t + 2) div 153" "(5 * t + 2) div 153 \<le> 11" using assms by linarith+
  then show ?thesis by (rule upto_eleven)
qed

lemma civil_month:
  assumes "0 \<le> t" "t \<le> 365" "mp = (5 * t + 2) div 153" "d = t - (153 * mp + 2) div 5 + 1"
    and "m = (if mp < 10 then mp + 3 else mp - 9)" "y = Y + (if m \<le> 2 then 1 else 0)"
    and "t = 365 \<longrightarrow> leap (Y + 1)"
  shows "1 \<le> m" "m \<le> 12" "1 \<le> d" "d \<le> month_len y (nat m)"
    "days_before_year y + days_before_month y (nat m) + d - 1 = days_before_year (Y + 1) - 306 + t"
proof -
  have r: "153 * mp \<le> 5 * t + 2" "5 * t + 2 < 153 * mp + 153" using assms(3) by linarith+
  have "1 \<le> m \<and> m \<le> 12 \<and> 1 \<le> d \<and> d \<le> month_len y (nat m) \<and>
    days_before_year y + days_before_month y (nat m) + d - 1 = days_before_year (Y + 1) - 306 + t"
    using march_cases [OF assms(1,2)] assms(3) r assms(1,2,7) days_before_year_next [of Y]
    unfolding assms(4,5,6)
    by (elim insertE emptyE; simp add: month_len_def days_before_month.simps; linarith?)
  then show "1 \<le> m" "m \<le> 12" "1 \<le> d" "d \<le> month_len y (nat m)"
    "days_before_year y + days_before_month y (nat m) + d - 1 = days_before_year (Y + 1) - 306 + t" by simp_all
qed


lemma i64_checked_Ok: "- (2 ^ 63) \<le> x \<Longrightarrow> x < 2 ^ 63 \<Longrightarrow> i64_checked x = Ok x"
  by (simp add: i64_checked_def)

lemma u32_expect_Ok: "0 \<le> x \<Longrightarrow> x < 2 ^ 32 \<Longrightarrow> u32_expect x = Ok (nat x)"
  by (simp add: u32_expect_def)

lemma civil_from_days_Ok:
  assumes "- (2 ^ 63) \<le> days + 719468" "days + 719468 < 2 ^ 63"
  shows "\<exists>ymd. civil_from_days days = Ok ymd \<and> valid_date ymd \<and> day_number ymd = days"
proof -
  define z where "z = days + 719468"
  define era where "era = z div 146097"
  define doe where "doe = z mod 146097"
  have doe: "0 \<le> doe" "doe < 146097" by (simp_all add: doe_def)
  obtain c q r t where e: "era_day c q r t" "doe = 36524 * c + 1461 * q + 365 * r + t"
    using era_day_exists [OF doe] .
  define yoe where "yoe = 100 * c + 4 * q + r"
  have yoe: "0 \<le> yoe" "yoe < 400" using e(1) by (auto simp: yoe_def era_day_def)
  note y = era_day_year [OF e, folded yoe_def]
  have t: "0 \<le> t" "t \<le> 365" using e(1) by (auto simp: era_day_def)
  have doy: "doe - (365 * yoe + yoe div 4 - yoe div 100) = t" using y(2) e(2) by (simp add: year_start_def)
  have lp: "t = 365 \<longrightarrow> leap (yoe + era * 400 + 1)"
  proof
    assume "t = 365"
    then have "r = 3" "q \<noteq> 24 \<or> c = 3" using e(1) by (auto simp: era_day_def)
    moreover have "0 \<le> q" "q \<le> 24" "0 \<le> c" "c \<le> 3" using e(1) by (auto simp: era_day_def)
    ultimately have q: "r = 3" "q \<noteq> 24 \<or> c = 3" "0 \<le> q" "q \<le> 24" by simp_all
    have "yoe + era * 400 + 1 = 4 * q + 4 + 100 * (c + 4 * era)" using q(1) by (simp add: yoe_def)
    then have m100: "(yoe + era * 400 + 1) mod 100 = (4 * q + 4) mod 100" by (simp only: mod_mult_self2)
    have "yoe + era * 400 + 1 = 4 * (q + 1 + 25 * c + 100 * era)" using q(1) by (simp add: yoe_def)
    then have m4: "(yoe + era * 400 + 1) mod 4 = 0" by (simp only: mod_mult_self1_is_0)
    show "leap (yoe + era * 400 + 1)"
    proof (cases "q = 24")
      case True
      then have "yoe + era * 400 + 1 = 400 * (era + 1)" using q by (simp add: yoe_def)
      then have "(yoe + era * 400 + 1) mod 400 = 0" by (simp only: mod_mult_self1_is_0)
      then show ?thesis unfolding leap_def m4 by simp
    next
      case False
      then have "4 * q + 4 < 100" using q(4) by linarith
      then have "(4 * q + 4) mod 100 = 4 * q + 4" using q(3) by (intro mod_pos_pos_trivial) simp_all
      then show ?thesis unfolding leap_def m4 m100 using q(3) by simp
    qed
  qed
  define mp where "mp = (5 * t + 2) div 153"
  define d where "d = t - (153 * mp + 2) div 5 + 1"
  define m where "m = (if mp < 10 then mp + 3 else mp - 9)"
  define yr where "yr = yoe + era * 400 + (if m \<le> 2 then 1 else 0)"
  note cm = civil_month [OF t mp_def d_def m_def yr_def lp]
  have d31: "d \<le> 31" using cm(4) by (auto simp: month_len_def split: if_splits)
  have "civil_from_days days = Ok (yr, nat m, nat d)"
  proof -
    have zr: "- (2 ^ 63) \<le> z" "z < 2 ^ 63" using assms by (simp_all only: z_def)
    have dr: "0 \<le> d" "d < 2 ^ 32" "0 \<le> m" "m < 2 ^ 32" using cm(1-3) d31 by simp_all
    have "nat m \<le> 2 \<longleftrightarrow> m \<le> 2" by (simp only: nat_le_iff of_nat_numeral)
    then show ?thesis
      by (simp only: civil_from_days_def z_def [symmetric] i64_checked_Ok [OF zr] and_then.simps Let_def era_def [symmetric]
        doe_def [symmetric] year_of_def [symmetric] y(1) doy mp_def [symmetric] d_def [symmetric] m_def [symmetric] yr_def
        u32_expect_Ok [OF dr(1,2)] u32_expect_Ok [OF dr(3,4)])
  qed
  moreover have "valid_date (yr, nat m, nat d)" using cm by (simp add: valid_date_def nat_le_iff Suc_le_eq)
  moreover have "day_number (yr, nat m, nat d) = days"
  proof -
    have "z = 146097 * era + doe" by (simp add: era_def doe_def)
    moreover have "doe = year_start yoe + t" using y(2) e(2) by simp
    ultimately show ?thesis
      using cm(5) days_before_year_era [OF yoe, of era] cm(3) by (simp add: day_number_def z_def days_before_year_def [of 1970])
  qed
  ultimately show ?thesis by blast
qed

text \<open>
  C20: the calendar.  For every day that can be computed without overflow, \<open>civil_from_days\<close> gives a date of the proleptic
  Gregorian calendar, and it is the one whose number of days since the first of January 1970 is the
  argument.\<close>
theorem civil_from_days_is_gregorian:
  assumes "- (2 ^ 63) \<le> days + 719468" "days + 719468 < 2 ^ 63"
  shows "\<exists>ymd. civil_from_days days = Ok ymd \<and> valid_date ymd \<and> day_number ymd = days"
  using civil_from_days_Ok [OF assms] by blast


theorem civil_from_days_is_gregorian_witness:
  "\<exists>ymd. civil_from_days 11016 = Ok ymd \<and> valid_date ymd \<and> day_number ymd = 11016"
  by (rule civil_from_days_is_gregorian) simp_all

section \<open>Printing is total\<close>

text \<open>
  Printing a datetime never panics, for any of its \<open>2 ^ 128\<close> values: the local time saturates, so its day is far from
  the overflow, and the month and day always fit.\<close>
theorem datetime_display_total: "\<exists>s. datetime_display d = Ok s"
proof -
  define l where "l = clamp_signed 64 (sint (dt_epoch d) + sint (dt_tz_offset d) * 60)"
  have l: "- (2 ^ 63) \<le> l" "l < 2 ^ 63"
    using clamp_signed_range [of 64 "sint (dt_epoch d) + sint (dt_tz_offset d) * 60"] by (simp_all add: l_def)
  have "- (2 ^ 63) \<le> l div 86400" "l div 86400 < 2 ^ 62"
  proof -
    have "- (2 ^ 63) \<le> - (2 ^ 63) div (86400 :: int)" "(2 ^ 63) div (86400 :: int) < 2 ^ 62" by simp_all
    moreover have "- (2 ^ 63) div 86400 \<le> l div 86400" using l(1) by (intro zdiv_mono1) simp_all
    moreover have "l div 86400 \<le> 2 ^ 63 div 86400" using l(2) by (intro zdiv_mono1) simp_all
    ultimately show "- (2 ^ 63) \<le> l div 86400" "l div 86400 < 2 ^ 62" by linarith+
  qed
  then have "- (2 ^ 63) \<le> l div SECONDS_PER_DAY + 719468" "l div SECONDS_PER_DAY + 719468 < 2 ^ 63"
    by (simp_all add: SECONDS_PER_DAY_def)
  from civil_from_days_Ok [OF this] obtain y m dd where "civil_from_days (l div SECONDS_PER_DAY) = Ok (y, m, dd)" by auto
  then show ?thesis unfolding datetime_display_def Let_def l_def by simp
qed

section \<open>Conversions keep the instant\<close>

lemma from_unix_instant:
  assumes "- (2 ^ 63) \<le> s" "s < 2 ^ 63" "0 \<le> n" "n < NANOS"
  shows "instant (from_unix (word_of_int s) (word_of_int n)) = s * NANOS + n"
    "datetime_valid (from_unix (word_of_int s) (word_of_int n))"
proof -
  have n: "uint (word_of_int n :: u32) = n" using assms(3,4) by (simp add: uint_word_of_int)
  then have "(word_of_int n :: u32) < NANOS_PER_SECOND" using assms(4) by (simp add: word_less_def NANOS_PER_SECOND_def)
  then show "instant (from_unix (word_of_int s) (word_of_int n)) = s * NANOS + n"
    "datetime_valid (from_unix (word_of_int s) (word_of_int n))"
    using sint_word_of_int_i64 [OF assms(1,2)] n by (simp_all add: from_unix_small instant_def datetime_valid_def)
qed

lemma from_unix_fields:
  assumes "- (2 ^ 63) \<le> s" "s < 2 ^ 63" "0 \<le> n" "n < NANOS"
  shows "sint (dt_epoch (from_unix (word_of_int s) (word_of_int n))) = s"
    "uint (dt_nsec (from_unix (word_of_int s) (word_of_int n))) = n"
proof -
  have n: "uint (word_of_int n :: u32) = n" using assms(3,4) by (simp add: uint_word_of_int)
  then have "(word_of_int n :: u32) < NANOS_PER_SECOND" using assms(4) by (simp add: word_less_def NANOS_PER_SECOND_def)
  then show "sint (dt_epoch (from_unix (word_of_int s) (word_of_int n))) = s"
    "uint (dt_nsec (from_unix (word_of_int s) (word_of_int n))) = n"
    using sint_word_of_int_i64 [OF assms(1,2)] n by (simp_all add: from_unix_small)
qed

lemma neg_div_mod:
  fixes t k :: int
  assumes "0 < k"
  shows "(- t) mod k = 0 \<Longrightarrow> t div k = - ((- t) div k)" "(- t) mod k = 0 \<Longrightarrow> t mod k = 0"
    "(- t) mod k \<noteq> 0 \<Longrightarrow> t div k = - ((- t) div k) - 1" "(- t) mod k \<noteq> 0 \<Longrightarrow> t mod k = k - (- t) mod k"
proof -
  have "k \<noteq> t mod k" using pos_mod_bound [OF assms, of t] by linarith
  then show "(- t) mod k = 0 \<Longrightarrow> t div k = - ((- t) div k)" "(- t) mod k = 0 \<Longrightarrow> t mod k = 0"
    "(- t) mod k \<noteq> 0 \<Longrightarrow> t div k = - ((- t) div k) - 1" "(- t) mod k \<noteq> 0 \<Longrightarrow> t mod k = k - (- t) mod k"
    using assms by (simp_all add: zmod_zminus1_eq_if zdiv_zminus1_eq_if split: if_splits)
qed

lemma from_system_time_eq:
  assumes "- (2 ^ 63) * NANOS < t" "t < 2 ^ 63 * NANOS"
  shows "datetime_from_system_time t = from_unix (word_of_int (t div NANOS)) (word_of_int (t mod NANOS))"
proof (cases "0 \<le> t")
  case True
  have "t div NANOS \<le> 2 ^ 63 - 1" using assms(2) by simp
  then show ?thesis using True by (simp add: datetime_from_system_time_def)
next
  case False
  have m: "min ((- t) div NANOS) (2 ^ 63 - 1) = (- t) div NANOS" using assms(1) by simp
  have k: "(0 :: int) < NANOS" by simp
  show ?thesis
  proof (cases "(- t) mod NANOS = 0")
    case True
    then show ?thesis using False neg_div_mod(1,2) [OF k True] m
      by (simp only: datetime_from_system_time_def Let_def if_False if_True word_of_int_0 simp_thms)
  next
    case nz: False
    have "NANOS_PER_SECOND - word_of_int ((- t) mod NANOS) = word_of_int (NANOS - (- t) mod NANOS)"
      by (simp add: NANOS_PER_SECOND_def)
    then show ?thesis using False nz neg_div_mod(3,4) [OF k nz] m
      by (simp only: datetime_from_system_time_def Let_def if_False)
  qed
qed

text \<open>
  A system time becomes the datetime of the same instant, before the epoch as after it, and converting it back gives
  the same system time.\<close>
theorem system_time_round_trip:
  assumes "- (2 ^ 63) * NANOS < t" "t < 2 ^ 63 * NANOS" "representable t" "representable (t div NANOS * NANOS)"
  shows "instant (datetime_from_system_time t) = t \<and> datetime_valid (datetime_from_system_time t) \<and>
    system_time_try_from representable (datetime_from_system_time t) = Ok t"
proof -
  have s: "- (2 ^ 63) \<le> t div NANOS" "t div NANOS < 2 ^ 63" using assms(1,2) by simp_all
  have n: "0 \<le> t mod NANOS" "t mod NANOS < NANOS" by simp_all
  let ?d = "from_unix (word_of_int (t div NANOS)) (word_of_int (t mod NANOS))"
  note d = from_system_time_eq [OF assms(1,2)] and i = from_unix_instant [OF s n]
  have e: "sint (dt_epoch ?d) = t div NANOS" "uint (dt_nsec ?d) = t mod NANOS"
    using i(1) s n valid_nsec [OF i(2)] from_unix_fields [OF s n] by simp_all
  have t: "t div NANOS * NANOS + t mod NANOS = t" by simp
  have "system_time_try_from representable ?d = Ok t"
    unfolding system_time_try_from_def Let_def e using assms(3,4) t by (simp add: abs_if)
  then show ?thesis using i d t by simp
qed

theorem system_time_round_trip_witness:
  "instant (datetime_from_system_time (- 1)) = - 1 \<and> datetime_valid (datetime_from_system_time (- 1)) \<and>
    system_time_try_from (\<lambda>_. True) (datetime_from_system_time (- 1)) = Ok (- 1)"
  by (rule system_time_round_trip) simp_all

end
