(* ===== verification/Interval.thy ===== *)
theory Interval
  imports Ext
begin

text \<open>
  \<^verbatim>\<open>src/src/types/interval.rs\<close>: a calendar span kept unit by unit, its sparse payload of numbered fields, its
  saturating arithmetic and its text.
\<close>

datatype adjust = Limit | Excess | Snap

primrec adjust_code :: "adjust \<Rightarrow> i64" where
  "adjust_code Excess = 0"
| "adjust_code Limit = 1"
| "adjust_code Snap = 2"

definition adjust_from_code :: "i64 \<Rightarrow> adjust option" where
  "adjust_from_code code =
    (if code = 0 then Some Excess else if code = 1 then Some Limit else if code = 2 then Some Snap else None)"

record interval =
  iv_years :: i64
  iv_months :: i64
  iv_weeks :: i64
  iv_days :: i64
  iv_hours :: i64
  iv_minutes :: i64
  iv_seconds :: i64
  iv_nanoseconds :: i64
  iv_adjust :: adjust

abbreviation (input) YEAR :: u64 where "YEAR \<equiv> 0"
abbreviation (input) MONTH :: u64 where "MONTH \<equiv> 1"
abbreviation (input) WEEK :: u64 where "WEEK \<equiv> 2"
abbreviation (input) DAY :: u64 where "DAY \<equiv> 3"
abbreviation (input) HOUR :: u64 where "HOUR \<equiv> 4"
abbreviation (input) MINUTE :: u64 where "MINUTE \<equiv> 5"
abbreviation (input) SECOND :: u64 where "SECOND \<equiv> 6"
abbreviation (input) NANOSECOND :: u64 where "NANOSECOND \<equiv> 7"
abbreviation (input) ADJUST :: u64 where "ADJUST \<equiv> 8"

definition ZERO :: interval where
  "ZERO = \<lparr>iv_years = 0, iv_months = 0, iv_weeks = 0, iv_days = 0, iv_hours = 0, iv_minutes = 0,
    iv_seconds = 0, iv_nanoseconds = 0, iv_adjust = Limit\<rparr>"

definition years :: "i64 \<Rightarrow> interval" where "years n = ZERO\<lparr>iv_years := n\<rparr>"
definition months :: "i64 \<Rightarrow> interval" where "months n = ZERO\<lparr>iv_months := n\<rparr>"
definition weeks :: "i64 \<Rightarrow> interval" where "weeks n = ZERO\<lparr>iv_weeks := n\<rparr>"
definition days :: "i64 \<Rightarrow> interval" where "days n = ZERO\<lparr>iv_days := n\<rparr>"
definition hours :: "i64 \<Rightarrow> interval" where "hours n = ZERO\<lparr>iv_hours := n\<rparr>"
definition minutes :: "i64 \<Rightarrow> interval" where "minutes n = ZERO\<lparr>iv_minutes := n\<rparr>"
definition seconds :: "i64 \<Rightarrow> interval" where "seconds n = ZERO\<lparr>iv_seconds := n\<rparr>"
definition nanoseconds :: "i64 \<Rightarrow> interval" where "nanoseconds n = ZERO\<lparr>iv_nanoseconds := n\<rparr>"

definition with_adjust :: "adjust \<Rightarrow> interval \<Rightarrow> interval" where
  "with_adjust a i = i\<lparr>iv_adjust := a\<rparr>"

definition interval_is_zero :: "interval \<Rightarrow> bool" where
  "interval_is_zero i = (iv_years i = 0 \<and> iv_months i = 0 \<and> iv_weeks i = 0 \<and> iv_days i = 0 \<and>
    iv_hours i = 0 \<and> iv_minutes i = 0 \<and> iv_seconds i = 0 \<and> iv_nanoseconds i = 0)"

definition interval_fields :: "interval \<Rightarrow> (u64 \<times> i64 \<times> string) list" where
  "interval_fields i =
    [(YEAR, iv_years i, ''years''), (MONTH, iv_months i, ''months''), (WEEK, iv_weeks i, ''weeks''),
     (DAY, iv_days i, ''days''), (HOUR, iv_hours i, ''hours''), (MINUTE, iv_minutes i, ''minutes''),
     (SECOND, iv_seconds i, ''seconds''), (NANOSECOND, iv_nanoseconds i, ''nanoseconds'')]"

definition present_fields :: "interval \<Rightarrow> (u64 \<times> i64 \<times> string) list" where
  "present_fields i = filter (\<lambda>(_, value, _). value \<noteq> 0) (interval_fields i)"

definition interval_to_payload :: "rmp \<Rightarrow> interval \<Rightarrow> bytes" where
  "interval_to_payload R i =
    (let present = length (present_fields i) + (if iv_adjust i \<noteq> Excess then 1 else 0) in
     write_uint R (of_nat present) @
     concat (map (\<lambda>(field_id, value, _). write_uint R field_id @ write_sint R value) (present_fields i)) @
     (if iv_adjust i \<noteq> Excess then write_uint R ADJUST @ write_sint R (adjust_code (iv_adjust i)) else []))"

datatype interval_error = IntervalError string

definition interval_set :: "u64 \<Rightarrow> i64 \<Rightarrow> interval \<Rightarrow> (interval_error, interval) outcome" where
  "interval_set field_id value i =
    (if field_id = YEAR then Ok (i\<lparr>iv_years := value\<rparr>)
     else if field_id = MONTH then Ok (i\<lparr>iv_months := value\<rparr>)
     else if field_id = WEEK then Ok (i\<lparr>iv_weeks := value\<rparr>)
     else if field_id = DAY then Ok (i\<lparr>iv_days := value\<rparr>)
     else if field_id = HOUR then Ok (i\<lparr>iv_hours := value\<rparr>)
     else if field_id = MINUTE then Ok (i\<lparr>iv_minutes := value\<rparr>)
     else if field_id = SECOND then Ok (i\<lparr>iv_seconds := value\<rparr>)
     else if field_id = NANOSECOND then Ok (i\<lparr>iv_nanoseconds := value\<rparr>)
     else if field_id = ADJUST then
       map_ok (\<lambda>a. i\<lparr>iv_adjust := a\<rparr>) (ok_or (adjust_from_code value) (IntervalError ''unknown adjust''))
     else Err (IntervalError ''unknown field id''))"

text \<open>The \<open>for\<close> loop: as many fields as announced, and the cursor after them.\<close>

primrec interval_loop :: "rmp \<Rightarrow> nat \<Rightarrow> bytes \<Rightarrow> interval \<Rightarrow> (interval_error, interval \<times> bytes) outcome" where
  "interval_loop R 0 cursor i = Ok (i, cursor)"
| "interval_loop R (Suc n) cursor i =
    and_then (ok_or (read_int_u64 R cursor) (IntervalError ''bad field id'')) (\<lambda>(field_id, cursor).
    and_then (ok_or (read_int_i64 R cursor) (IntervalError ''bad field value'')) (\<lambda>(value, cursor).
    and_then (interval_set field_id value i) (interval_loop R n cursor)))"

definition interval_from_payload :: "rmp \<Rightarrow> bytes \<Rightarrow> (interval_error, interval) outcome" where
  "interval_from_payload R payload =
    and_then (ok_or (read_int_u64 R payload) (IntervalError ''payload does not start with a field count'')) (\<lambda>(count, cursor).
    and_then (interval_loop R (unat count) cursor (with_adjust Excess ZERO)) (\<lambda>(i, cursor).
    if cursor \<noteq> [] then Err (IntervalError ''trailing bytes'') else Ok i))"

definition interval_add :: "interval \<Rightarrow> interval \<Rightarrow> interval" where
  "interval_add a b =
    \<lparr>iv_years = saturating_add_i64 (iv_years a) (iv_years b),
     iv_months = saturating_add_i64 (iv_months a) (iv_months b),
     iv_weeks = saturating_add_i64 (iv_weeks a) (iv_weeks b),
     iv_days = saturating_add_i64 (iv_days a) (iv_days b),
     iv_hours = saturating_add_i64 (iv_hours a) (iv_hours b),
     iv_minutes = saturating_add_i64 (iv_minutes a) (iv_minutes b),
     iv_seconds = saturating_add_i64 (iv_seconds a) (iv_seconds b),
     iv_nanoseconds = saturating_add_i64 (iv_nanoseconds a) (iv_nanoseconds b),
     iv_adjust = (if iv_adjust a = Limit then iv_adjust b else iv_adjust a)\<rparr>"

definition interval_neg :: "interval \<Rightarrow> interval" where
  "interval_neg a =
    \<lparr>iv_years = saturating_neg_i64 (iv_years a), iv_months = saturating_neg_i64 (iv_months a),
     iv_weeks = saturating_neg_i64 (iv_weeks a), iv_days = saturating_neg_i64 (iv_days a),
     iv_hours = saturating_neg_i64 (iv_hours a), iv_minutes = saturating_neg_i64 (iv_minutes a),
     iv_seconds = saturating_neg_i64 (iv_seconds a), iv_nanoseconds = saturating_neg_i64 (iv_nanoseconds a),
     iv_adjust = iv_adjust a\<rparr>"

text \<open>\<open>{value:+}\<close> writes the sign of a number that is not negative.\<close>

fun display_units :: "string \<Rightarrow> (u64 \<times> i64 \<times> string) list \<Rightarrow> string" where
  "display_units out [] = out"
| "display_units out ((_, value, unit) # us) =
    display_units
      (if out = [] then (if 0 \<le> sint value then ''+'' else []) @ fmt_int (sint value) @ '' '' @ unit
       else out @ '', '' @ fmt_int (sint value) @ '' '' @ unit) us"

definition interval_display :: "interval \<Rightarrow> string" where
  "interval_display i =
    (let out = display_units [] (present_fields i) in if out = [] then ''0 seconds'' else out)"

definition interval_error_display :: "interval_error \<Rightarrow> string" where
  "interval_error_display e = (case e of IntervalError m \<Rightarrow> ''invalid interval: '' @ m)"

definition interval_deserialize :: "rmp \<Rightarrow> u8 \<times> bytes \<Rightarrow> (string, interval) outcome" where
  "interval_deserialize R = ext_deserialize EXT_INTERVAL ''an interval'' (interval_from_payload R) interval_error_display"

definition interval_try_from :: "rmp \<Rightarrow> mpvalue \<Rightarrow> (interval_error, interval) outcome" where
  "interval_try_from R = ext_try_from EXT_INTERVAL (interval_from_payload R) (IntervalError ''not an MP_INTERVAL value'')"

definition value_from_interval :: "rmp \<Rightarrow> interval \<Rightarrow> mpvalue" where
  "value_from_interval R i = VExt EXT_INTERVAL (interval_to_payload R i)"

section \<open>The payload round trip\<close>

text \<open>The fields of a payload, and what setting them one after the other gives.\<close>

fun set_all :: "(u64 \<times> i64) list \<Rightarrow> interval \<Rightarrow> (interval_error, interval) outcome" where
  "set_all [] i = Ok i"
| "set_all ((f, v) # es) i = and_then (interval_set f v i) (set_all es)"

lemma set_all_append: "set_all (xs @ ys) i = and_then (set_all xs i) (set_all ys)"
proof (induction xs i rule: set_all.induct)
  case (2 f v es i)
  then show ?case by (cases "interval_set f v i") (simp_all del: and_then_eq_Ok)
qed simp

definition unit_entry :: "u64 \<Rightarrow> i64 \<Rightarrow> (u64 \<times> i64) list" where
  "unit_entry f v = (if v \<noteq> 0 then [(f, v)] else [])"

definition wire_entries :: "interval \<Rightarrow> (u64 \<times> i64) list" where
  "wire_entries i = map (\<lambda>(f, v, _). (f, v)) (present_fields i) @
    (if iv_adjust i \<noteq> Excess then [(ADJUST, adjust_code (iv_adjust i))] else [])"

lemma entries_of_filter:
  "map (\<lambda>(f, v, _). (f, v)) (filter (\<lambda>(_, value, _). value \<noteq> 0) ((f, v, s) # xs)) =
    unit_entry f v @ map (\<lambda>(f, v, _). (f, v)) (filter (\<lambda>(_, value, _). value \<noteq> 0) xs)"
  by (simp add: unit_entry_def)

lemma present_entries: "map (\<lambda>(f, v, _). (f, v)) (present_fields i) =
  unit_entry YEAR (iv_years i) @ unit_entry MONTH (iv_months i) @ unit_entry WEEK (iv_weeks i) @
  unit_entry DAY (iv_days i) @ unit_entry HOUR (iv_hours i) @ unit_entry MINUTE (iv_minutes i) @
  unit_entry SECOND (iv_seconds i) @ unit_entry NANOSECOND (iv_nanoseconds i)"
  unfolding present_fields_def interval_fields_def
  by (simp only: entries_of_filter filter.simps(1) list.map(1) append_Nil2)

lemma set_unit:
  "iv_years i = 0 \<Longrightarrow> set_all (unit_entry YEAR v) i = Ok (i\<lparr>iv_years := v\<rparr>)"
  "iv_months i = 0 \<Longrightarrow> set_all (unit_entry MONTH v) i = Ok (i\<lparr>iv_months := v\<rparr>)"
  "iv_weeks i = 0 \<Longrightarrow> set_all (unit_entry WEEK v) i = Ok (i\<lparr>iv_weeks := v\<rparr>)"
  "iv_days i = 0 \<Longrightarrow> set_all (unit_entry DAY v) i = Ok (i\<lparr>iv_days := v\<rparr>)"
  "iv_hours i = 0 \<Longrightarrow> set_all (unit_entry HOUR v) i = Ok (i\<lparr>iv_hours := v\<rparr>)"
  "iv_minutes i = 0 \<Longrightarrow> set_all (unit_entry MINUTE v) i = Ok (i\<lparr>iv_minutes := v\<rparr>)"
  "iv_seconds i = 0 \<Longrightarrow> set_all (unit_entry SECOND v) i = Ok (i\<lparr>iv_seconds := v\<rparr>)"
  "iv_nanoseconds i = 0 \<Longrightarrow> set_all (unit_entry NANOSECOND v) i = Ok (i\<lparr>iv_nanoseconds := v\<rparr>)"
  by (simp_all add: unit_entry_def interval_set_def)

lemma set_wire_entries: "set_all (wire_entries i) (with_adjust Excess ZERO) = Ok i"
proof -
  have "set_all (map (\<lambda>(f, v, _). (f, v)) (present_fields i)) (with_adjust Excess ZERO) = Ok (i\<lparr>iv_adjust := Excess\<rparr>)"
    by (simp add: present_entries set_all_append set_unit with_adjust_def ZERO_def del: and_then_eq_Ok)
  then show ?thesis
    by (cases "iv_adjust i") (simp_all add: wire_entries_def set_all_append interval_set_def adjust_from_code_def del: and_then_eq_Ok)
qed

definition entries_bytes :: "rmp \<Rightarrow> (u64 \<times> i64) list \<Rightarrow> bytes" where
  "entries_bytes R es = concat (map (\<lambda>(f, v). write_uint R f @ write_sint R v) es)"

lemma interval_to_payload_alt:
  "interval_to_payload R i = write_uint R (of_nat (length (wire_entries i))) @ entries_bytes R (wire_entries i)"
  by (simp add: interval_to_payload_def wire_entries_def entries_bytes_def Let_def comp_def case_prod_unfold)

lemma length_wire_entries: "length (wire_entries i) \<le> 9"
proof -
  have "length (present_fields i) \<le> 8"
    using length_filter_le [of _ "interval_fields i"] by (simp add: present_fields_def interval_fields_def)
  then show ?thesis by (simp add: wire_entries_def)
qed

context rmp_int
begin

lemma interval_loop_entries:
  "interval_loop R (length es) (entries_bytes R es @ rest) i = map_ok (\<lambda>i. (i, rest)) (set_all es i)"
proof (induction es arbitrary: i)
  case (Cons e es)
  obtain f v where e: "e = (f, v)" by (cases e)
  show ?case using Cons
    by (cases "interval_set f v i") (simp_all add: e entries_bytes_def read_write_uint read_write_sint del: and_then_eq_Ok map_ok_eq_Ok)
qed (simp add: entries_bytes_def)

lemma interval_from_to: "interval_from_payload R (interval_to_payload R i) = Ok i"
proof -
  have n: "unat (of_nat (length (wire_entries i)) :: u64) = length (wire_entries i)"
    using length_wire_entries [of i] by (intro unat_of_nat_u64) simp
  have "interval_loop R (length (wire_entries i)) (entries_bytes R (wire_entries i)) (with_adjust Excess ZERO) = Ok (i, [])"
    using interval_loop_entries [of "wire_entries i" "[]"] set_wire_entries by simp
  then show ?thesis
    by (simp add: interval_from_payload_def interval_to_payload_alt read_write_uint n del: and_then_eq_Ok)
qed

end

lemma interval_set_no_panic: "interval_set f v i \<noteq> Panic"
  by (simp add: interval_set_def)

lemma interval_loop_no_panic: "interval_loop R n c i \<noteq> Panic"
  by (induction n arbitrary: c i) (auto simp: outcome_simps interval_set_no_panic split: prod.splits)

lemma interval_from_payload_no_panic: "interval_from_payload R p \<noteq> Panic"
  by (auto simp: interval_from_payload_def outcome_simps interval_loop_no_panic split: prod.splits if_splits)

sublocale rmp_int \<subseteq> interval_ext:
  payload_codec EXT_INTERVAL "\<lambda>_ :: interval. True" "interval_to_payload R" "interval_from_payload R"
  by unfold_locales (simp_all add: interval_from_to interval_from_payload_no_panic)

text \<open>
  Every interval survives its payload: only the units that are not zero are written, the rule for month ends is
  written unless it is the one an absent field means, and decoding gives all eight units and the rule back;
  decoding never panics, whatever the bytes.\<close>
theorem interval_wire_round_trip:
  assumes "rmp_int R"
  shows "interval_from_payload R (interval_to_payload R i) = Ok i \<and>
    interval_deserialize R (ext_serialize EXT_INTERVAL (interval_to_payload R i)) = Ok i \<and>
    interval_try_from R (value_from_interval R i) = Ok i \<and> interval_from_payload R p \<noteq> Panic"
  using rmp_int.interval_from_to [OF assms, of i]
  by (simp add: interval_from_payload_no_panic interval_deserialize_def interval_try_from_def value_from_interval_def
      ext_deserialize_def deserialize_tagged_def ext_serialize_def ext_try_from_def)

theorem interval_wire_round_trip_witness:
  "interval_from_payload ref_rmp (interval_to_payload ref_rmp (interval_add (years 1) (days (- 77)))) =
      Ok (interval_add (years 1) (days (- 77))) \<and>
    interval_deserialize ref_rmp (ext_serialize EXT_INTERVAL (interval_to_payload ref_rmp (interval_add (years 1) (days (- 77))))) =
      Ok (interval_add (years 1) (days (- 77))) \<and>
    interval_try_from ref_rmp (value_from_interval ref_rmp (interval_add (years 1) (days (- 77)))) =
      Ok (interval_add (years 1) (days (- 77))) \<and> interval_from_payload ref_rmp [1, 9, 1] \<noteq> Panic"
  by (rule interval_wire_round_trip [OF ref_int.rmp_int_axioms])

section \<open>Arithmetic\<close>

definition units :: "interval \<Rightarrow> int list" where
  "units i = map sint [iv_years i, iv_months i, iv_weeks i, iv_days i, iv_hours i, iv_minutes i, iv_seconds i, iv_nanoseconds i]"

lemma saturating_zero [simp]: "saturating_add_i64 a 0 = a" "saturating_add_i64 0 a = a"
proof -
  have "sint (saturating_add_i64 a 0) = sint a" "sint (saturating_add_i64 0 a) = sint a"
    using sint_i64_range [of a] by (simp_all add: sint_saturating_add clamp_signed_def)
  then show "saturating_add_i64 a 0 = a" "saturating_add_i64 0 a = a" by (simp_all only: signed_word_eqI)
qed

lemma saturating_neg_neg: "sint a \<noteq> - (2 ^ 63) \<Longrightarrow> saturating_neg_i64 (saturating_neg_i64 a) = a"
proof -
  assume "sint a \<noteq> - (2 ^ 63)"
  then have "sint (saturating_neg_i64 (saturating_neg_i64 a)) = sint a"
    using sint_i64_range [of a] by (simp add: sint_saturating_neg clamp_signed_def)
  then show ?thesis by (simp only: signed_word_eqI)
qed

text \<open>
  Interval arithmetic works unit by unit and saturates: each unit of a sum is the exact sum cut off at the ends of
  the range, and likewise a negation; zero is neutral on both sides, rule included, and negating twice gives
  the same interval unless a unit is the smallest number.\<close>
theorem interval_arithmetic:
  assumes "- (2 ^ 63) \<notin> set (units a)"
  shows "units (interval_add a b) = map2 (\<lambda>x y. clamp_signed 64 (x + y)) (units a) (units b) \<and>
    units (interval_neg a) = map (\<lambda>x. clamp_signed 64 (- x)) (units a) \<and>
    interval_add a ZERO = a \<and> interval_add ZERO a = a \<and> interval_neg (interval_neg a) = a"
  using assms
  by (simp add: units_def interval_add_def interval_neg_def sint_saturating_add sint_saturating_neg ZERO_def saturating_neg_neg)

theorem interval_arithmetic_witness:
  "units (interval_add (years 1) (days 2)) = map2 (\<lambda>x y. clamp_signed 64 (x + y)) (units (years 1)) (units (days 2)) \<and>
    units (interval_neg (years 1)) = map (\<lambda>x. clamp_signed 64 (- x)) (units (years 1)) \<and>
    interval_add (years 1) ZERO = years 1 \<and> interval_add ZERO (years 1) = years 1 \<and>
    interval_neg (interval_neg (years 1)) = years 1"
  by (rule interval_arithmetic) (simp add: units_def years_def ZERO_def)

end
