(* ===== verification/Conversions.thy ===== *)
theory Conversions
  imports Uuid Decimal Datetime Interval
begin

text \<open>
  What the value types share with the rest of Rust: the integer conversions of \<^verbatim>\<open>src/src/types/decimal.rs\<close>, the
  derived order of \<^verbatim>\<open>src/src/types/uuid.rs\<close> as an instance of \<open>linorder\<close>, and the visitors of
  \<^verbatim>\<open>src/src/types/ext.rs\<close>, which accept every way a serde format may hand an extension over.  What the format hands
  over is data of the model: the answers of \<open>next_element\<close>, and the visitor method it calls.
\<close>

section \<open>Integers as decimals\<close>

datatype machine_int =
    I8 "8 word" | I16 "16 word" | I32 i32 | I64 i64
  | U8 u8 | U16 u16 | U32 u32 | U64 u64

fun i128_from :: "machine_int \<Rightarrow> i128" where
  "i128_from (I8 w) = word_of_int (sint w)"
| "i128_from (I16 w) = word_of_int (sint w)"
| "i128_from (I32 w) = word_of_int (sint w)"
| "i128_from (I64 w) = word_of_int (sint w)"
| "i128_from (U8 w) = word_of_int (uint w)"
| "i128_from (U16 w) = word_of_int (uint w)"
| "i128_from (U32 w) = word_of_int (uint w)"
| "i128_from (U64 w) = word_of_int (uint w)"

text \<open>\<open>expect\<close> panics on an error.\<close>

definition expect_ok :: "('e, 'a) outcome \<Rightarrow> ('e, 'a) outcome" where
  "expect_ok r = (case r of Ok x \<Rightarrow> Ok x | _ \<Rightarrow> Panic)"

definition decimal_from :: "machine_int \<Rightarrow> decimal dresult" where
  "decimal_from v = expect_ok (from_parts (i128_from v) 0)"

definition decimal_try_from_i128 :: "i128 \<Rightarrow> decimal dresult" where
  "decimal_try_from_i128 v = from_parts v 0"

definition decimal_try_from_u128 :: "128 word \<Rightarrow> decimal dresult" where
  "decimal_try_from_u128 v = decimal_from_str (fmt_nat (unat v))"

definition decimal_error_display :: "decimal_error \<Rightarrow> string" where
  "decimal_error_display e = (case e of DecimalError m \<Rightarrow> ''invalid decimal: '' @ m)"

definition decimal_serialize :: "rmp \<Rightarrow> decimal \<Rightarrow> (u8 \<times> bytes) dresult" where
  "decimal_serialize R d = map_ok (ext_serialize EXT_DECIMAL) (decimal_to_payload R d)"

definition decimal_deserialize :: "rmp \<Rightarrow> u8 \<times> bytes \<Rightarrow> (string, decimal) outcome" where
  "decimal_deserialize R = ext_deserialize EXT_DECIMAL ''a decimal'' (decimal_from_payload R) decimal_error_display"

definition value_from_decimal :: "rmp \<Rightarrow> decimal \<Rightarrow> mpvalue dresult" where
  "value_from_decimal R d = map_ok (VExt EXT_DECIMAL) (decimal_to_payload R d)"

definition decimal_try_from :: "rmp \<Rightarrow> mpvalue \<Rightarrow> decimal dresult" where
  "decimal_try_from R = ext_try_from EXT_DECIMAL (decimal_from_payload R) (DecimalError ''not an MP_DECIMAL value'')"

section \<open>The order of uuids\<close>

text \<open>\<open>derive(PartialOrd, Ord)\<close> on the array of sixteen bytes compares it byte by byte.\<close>

definition uuid_cmp :: "uuid \<Rightarrow> uuid \<Rightarrow> ordering" where
  "uuid_cmp a b = cmp_bytes (uuid_bytes a) (uuid_bytes b)"

lemma cmp_bytes_Equal: "cmp_bytes as bs = Equal \<longleftrightarrow> as = bs"
  by (induction as bs rule: cmp_bytes.induct) auto

lemma cmp_bytes_swap: "cmp_bytes bs as = Greater \<longleftrightarrow> cmp_bytes as bs = Less"
  by (induction as bs rule: cmp_bytes.induct) auto

lemma cmp_bytes_trans: "cmp_bytes as bs = Less \<Longrightarrow> cmp_bytes bs cs = Less \<Longrightarrow> cmp_bytes as cs = Less"
proof (induction as bs arbitrary: cs rule: cmp_bytes.induct)
  case (4 a as b bs)
  then show ?case by (cases cs) (auto split: if_splits)
qed (auto elim: cmp_bytes.elims)

lemma uuid_cmp_Equal: "uuid_cmp a b = Equal \<longleftrightarrow> a = b"
  by (auto simp: uuid_cmp_def cmp_bytes_Equal intro: uuid.expand)

lemma uuid_cmp_swap: "uuid_cmp a b = Greater \<longleftrightarrow> uuid_cmp b a = Less"
  by (simp add: uuid_cmp_def cmp_bytes_swap)

instantiation uuid :: linorder
begin

definition less_uuid :: "uuid \<Rightarrow> uuid \<Rightarrow> bool" where
  "less_uuid a b \<longleftrightarrow> uuid_cmp a b = Less"

definition less_eq_uuid :: "uuid \<Rightarrow> uuid \<Rightarrow> bool" where
  "less_eq_uuid a b \<longleftrightarrow> uuid_cmp a b \<noteq> Greater"

instance
proof
  fix x y z :: uuid
  note eq = uuid_cmp_Equal and swap = uuid_cmp_swap
  have le: "a \<le> b \<longleftrightarrow> uuid_cmp a b = Less \<or> a = b" for a b :: uuid
    unfolding less_eq_uuid_def eq [symmetric] by (cases "uuid_cmp a b") auto
  have asym: "uuid_cmp a b = Less \<Longrightarrow> uuid_cmp b a \<noteq> Less" for a b
    using swap [of b a] by auto
  show "x < y \<longleftrightarrow> x \<le> y \<and> \<not> y \<le> x" unfolding le less_uuid_def using asym eq by auto
  show "x \<le> x" by (simp add: le)
  show "x \<le> y \<Longrightarrow> y \<le> z \<Longrightarrow> x \<le> z"
    unfolding le using cmp_bytes_trans by (auto simp: uuid_cmp_def)
  show "x \<le> y \<Longrightarrow> y \<le> x \<Longrightarrow> x = y" unfolding le using asym by auto
  show "x \<le> y \<or> y \<le> x" unfolding le using eq swap by (cases "uuid_cmp x y") auto
qed

end

section \<open>The visitors of an extension\<close>

text \<open>
  The bytes of a payload, as a format hands them over; a sequence is the answers of \<open>next_element\<close>.  Anything else that a format
  visits is an invalid type, by its name.
\<close>

datatype byte_access = VisitBytes bytes | VisitByteBuf bytes | VisitByteSeq "(string, u8) outcome list" | VisitByteOther string

definition invalid_type :: "string \<Rightarrow> string \<Rightarrow> string" where
  "invalid_type unexpected expected = ''invalid type: '' @ unexpected @ '', expected '' @ expected"

fun payload_seq :: "(string, u8) outcome list \<Rightarrow> (string, bytes) outcome" where
  "payload_seq [] = Ok []"
| "payload_seq (e # es) = and_then e (\<lambda>byte. map_ok (Cons byte) (payload_seq es))"

fun payload_visit :: "byte_access \<Rightarrow> (string, bytes) outcome" where
  "payload_visit (VisitBytes v) = Ok v"
| "payload_visit (VisitByteBuf v) = Ok v"
| "payload_visit (VisitByteSeq es) = payload_seq es"
| "payload_visit (VisitByteOther unexpected) = Err (invalid_type unexpected ''extension payload bytes'')"

text \<open>The two elements of the pair, \<open>None\<close> where the sequence has ended.\<close>

record pair_access =
  next_tag :: "(string, u8 option) outcome"
  next_payload :: "(string, byte_access option) outcome"

definition invalid_length :: "nat \<Rightarrow> string \<Rightarrow> string" where
  "invalid_length n expected = ''invalid length '' @ fmt_nat n @ '', expected '' @ expected"

definition pair_expecting :: string where
  "pair_expecting = ''an extension type tag followed by its payload''"

definition pair_visit_seq :: "pair_access \<Rightarrow> (string, u8 \<times> bytes) outcome" where
  "pair_visit_seq seq =
    and_then (next_tag seq) (\<lambda>tag.
    and_then (ok_or tag (invalid_length 0 pair_expecting)) (\<lambda>tag.
    and_then (next_payload seq) (\<lambda>p. case p of
      None \<Rightarrow> Err (invalid_length 1 pair_expecting)
    | Some access \<Rightarrow> map_ok (Pair tag) (payload_visit access))))"

text \<open>
  \<open>deserialize_newtype_struct\<close>: the format visits a newtype struct, whose inside it then reads as a tuple, or a
  sequence; anything else it visits is an invalid type, by its name.
\<close>

datatype tuple_access = TupleSeq pair_access | TupleOther string

datatype ext_access = VisitNewtype tuple_access | VisitSeq pair_access | VisitOther string

definition ext_expecting :: string where
  "ext_expecting = ''a MessagePack extension''"

fun ext_visit :: "ext_access \<Rightarrow> (string, u8 \<times> bytes) outcome" where
  "ext_visit (VisitNewtype (TupleSeq seq)) = pair_visit_seq seq"
| "ext_visit (VisitNewtype (TupleOther u)) = Err (invalid_type u pair_expecting)"
| "ext_visit (VisitSeq seq) = pair_visit_seq seq"
| "ext_visit (VisitOther u) = Err (invalid_type u ext_expecting)"

text \<open>The ways to hand over one extension.\<close>

definition byte_accesses :: "bytes \<Rightarrow> byte_access list" where
  "byte_accesses p = [VisitBytes p, VisitByteBuf p, VisitByteSeq (map Ok p)]"

definition pair_of :: "u8 \<Rightarrow> byte_access \<Rightarrow> pair_access" where
  "pair_of tag access = \<lparr>next_tag = Ok (Some tag), next_payload = Ok (Some access)\<rparr>"

definition accesses :: "u8 \<times> bytes \<Rightarrow> ext_access list" where
  "accesses ext = (case ext of (tag, p) \<Rightarrow>
     map (\<lambda>a. VisitNewtype (TupleSeq (pair_of tag a))) (byte_accesses p) @
     map (\<lambda>a. VisitSeq (pair_of tag a)) (byte_accesses p))"

lemma payload_seq_ok: "payload_seq (map Ok p) = Ok p"
  by (induction p) simp_all

lemma accesses_visit: "a \<in> set (accesses ext) \<Longrightarrow> ext_visit a = Ok ext"
  by (auto simp: accesses_def byte_accesses_def pair_of_def pair_visit_seq_def payload_seq_ok split: prod.splits)

text \<open>\<open>deserialize_tagged\<close> on what the format hands over, and the decoding of the four types.\<close>

definition read_ext :: "(u8 \<times> bytes \<Rightarrow> (string, 'a) outcome) \<Rightarrow> ext_access \<Rightarrow> (string, 'a) outcome" where
  "read_ext deserialize a = and_then (ext_visit a) deserialize"

lemma read_ext_accesses: "list_all (\<lambda>a. read_ext f a = f ext) (accesses ext)"
  by (auto simp: list_all_iff read_ext_def accesses_visit simp del: and_then_eq_Ok)

section \<open>Properties\<close>

definition machine_value :: "machine_int \<Rightarrow> int" where
  "machine_value v = (case v of
     I8 w \<Rightarrow> sint w | I16 w \<Rightarrow> sint w | I32 w \<Rightarrow> sint w | I64 w \<Rightarrow> sint w
   | U8 w \<Rightarrow> uint w | U16 w \<Rightarrow> uint w | U32 w \<Rightarrow> uint w | U64 w \<Rightarrow> uint w)"

lemma sint_within:
  fixes w :: "'a :: len word"
  assumes "LENGTH('a) \<le> 64"
  shows "- (2 ^ 63) \<le> sint w \<and> sint w < 2 ^ 64"
proof -
  have "(2 :: int) ^ (LENGTH('a) - 1) \<le> 2 ^ 63" using assms by (intro power_increasing) auto
  then show ?thesis using sint_ge [of w] sint_lt [of w] by (simp del: sint_lt)
qed

lemma uint_within:
  fixes w :: "'a :: len word"
  assumes "LENGTH('a) \<le> 64"
  shows "- (2 ^ 63) \<le> uint w \<and> uint w < 2 ^ 64"
proof
  have "(2 :: int) ^ LENGTH('a) \<le> 2 ^ 64" using assms by (intro power_increasing) auto
  with uint_bounded [of w] show "uint w < 2 ^ 64" by (rule order.strict_trans2)
  show "- (2 ^ 63) \<le> uint w" by (rule order.trans [OF _ uint_ge_0]) simp
qed

lemma machine_value_range: "- (2 ^ 63) \<le> machine_value v \<and> machine_value v < 2 ^ 64"
  unfolding machine_value_def by (cases v; simp only: machine_int.case; rule sint_within uint_within; simp)

lemma i128_from_value: "sint (i128_from v) = machine_value v"
proof -
  have "i128_from v = word_of_int (machine_value v)" by (cases v) (simp_all add: machine_value_def)
  moreover have "signed_take_bit 127 (machine_value v) = machine_value v"
    using machine_value_range [of v] by (intro signed_take_bit_int_eq_self) simp_all
  ultimately show ?thesis by (simp add: sint_sbintrunc')
qed

lemma from_parts_integer:
  "if \<bar>sint m\<bar> < 10 ^ 38 then \<exists>d. from_parts m 0 = Ok d \<and> decimal_inv d \<and> decimal_value d = of_int (sint m)
    else \<exists>e. from_parts m 0 = Err e"
  using from_parts_spec [of m 0] by (cases "from_parts m 0") auto

lemma digit_char_text:
  assumes "d < 10"
  shows "digit_char d = char_of_byte (48 + of_nat d)"
proof -
  have "list_all (\<lambda>d. digit_char d = char_of_byte (48 + of_nat d)) [0..<10]" by code_simp
  then show ?thesis using assms by (simp add: list_all_iff)
qed

lemma parse_fmt_nat:
  "\<exists>ds. digits_ok ds \<and> dval ds = n \<and> decimal_from_str (fmt_nat n) = assemble False 0 ds"
proof -
  obtain xs where xs: "fmt_nat n = map digit_char xs" "\<forall>d \<in> set xs. d < 10" "dec_value xs = n"
    using fmt_nat_digits by blast
  let ?ds = "map of_nat xs :: bytes"
  have ok: "digits_ok ?ds" and v: "map unat ?ds = xs"
    using xs(2) by (auto simp: unat_of_nat intro!: map_idI)
  have t: "fmt_nat n = digit_text ?ds"
    unfolding xs(1) digit_text_def using xs(2) by (simp add: digit_char_text)
  moreover from t have "?ds \<noteq> []" by (metis digit_text_def fmt_nat_nonempty list.simps(8))
  then obtain y ys where "?ds = y # ys" by (cases ?ds) auto
  then have "decimal_from_str (digit_text ?ds) = assemble False 0 ?ds"
    using parse_integer_text [of y ys False] ok by simp
  ultimately show ?thesis using ok v xs(3) by metis
qed

lemma try_from_u128_integer:
  "if unat v < 10 ^ 38
    then \<exists>d. decimal_try_from_u128 v = Ok d \<and> decimal_inv d \<and> decimal_value d = of_nat (unat v)
    else \<exists>e. decimal_try_from_u128 v = Err e"
proof -
  obtain ds where ds: "digits_ok ds" "dval ds = unat v" "decimal_try_from_u128 v = assemble False 0 ds"
    using parse_fmt_nat by (auto simp: decimal_try_from_u128_def)
  show ?thesis
    using assemble_limit [OF ds(1), of False 0] assemble_inv [OF ds(1), of False 0] assemble_value [of False 0 ds]
      assemble_no_panic [of False 0 ds] ds(2)
    unfolding ds(3) by (cases "assemble False 0 ds") auto
qed

text \<open>
  C38: integers become decimals exactly: each of the eight integer types converts without the panic its \<open>expect\<close> could
  raise, to a valid decimal of the same value; an \<open>i128\<close> or a \<open>u128\<close> converts exactly when it has at most 38 digits and is
  an error otherwise.
\<close>

theorem integers_become_decimals:
  "(\<exists>d. decimal_from v = Ok d \<and> decimal_inv d \<and> decimal_value d = of_int (machine_value v)) \<and>
   (if \<bar>sint m\<bar> < 10 ^ 38
    then \<exists>d. decimal_try_from_i128 m = Ok d \<and> decimal_inv d \<and> decimal_value d = of_int (sint m)
    else \<exists>e. decimal_try_from_i128 m = Err e) \<and>
   (if unat u < 10 ^ 38
    then \<exists>d. decimal_try_from_u128 u = Ok d \<and> decimal_inv d \<and> decimal_value d = of_nat (unat u)
    else \<exists>e. decimal_try_from_u128 u = Err e)"
proof -
  have "\<bar>sint (i128_from v)\<bar> < 10 ^ 38" unfolding i128_from_value using machine_value_range [of v] by (simp add: abs_less_iff)
  then have "\<exists>d. decimal_from v = Ok d \<and> decimal_inv d \<and> decimal_value d = of_int (machine_value v)"
    using from_parts_integer [of "i128_from v"] by (auto simp: decimal_from_def expect_ok_def i128_from_value)
  then show ?thesis unfolding decimal_try_from_i128_def
    using from_parts_integer [of m] try_from_u128_integer [of u] by blast
qed

lemma hex_order:
  assumes "m < 16" "n < 16"
  shows "byte_of_char (HEX ! m) < byte_of_char (HEX ! n) \<longleftrightarrow> m < n"
proof -
  have "list_all (\<lambda>m. list_all (\<lambda>n. byte_of_char (HEX ! m) < byte_of_char (HEX ! n) \<longleftrightarrow> m < n) [0..<16]) [0..<16]"
    by code_simp
  then show ?thesis using assms by (simp add: list_all_iff)
qed

lemma cmp_bytes_same: "cmp_bytes (xs @ as) (xs @ bs) = cmp_bytes as bs"
  by (induction xs) simp_all

lemma order_by_digits:
  assumes "a = 16 * h + l" "b = 16 * k + (m :: nat)" "l < 16" "m < 16"
  shows "a < b \<longleftrightarrow> h < k \<or> h = k \<and> l < m"
  using assms by presburger

lemma byte_order_by_nibbles:
  "(a :: u8) < b \<longleftrightarrow> unat (drop_bit 4 a) < unat (drop_bit 4 b) \<or>
     unat (drop_bit 4 a) = unat (drop_bit 4 b) \<and> unat (a AND 0x0f) < unat (b AND 0x0f)"
proof -
  have "unat x = 16 * unat (drop_bit 4 x) + unat (x AND 0x0f)" for x :: u8
    by (simp add: drop_bit_eq_div unat_div unat_and_15)
  from order_by_digits [OF this this nibbles_small(2) nibbles_small(2)]
  show ?thesis unfolding word_less_nat_alt [of a b] .
qed

lemma cmp_uuid_fmt:
  "length as = length bs \<Longrightarrow> cmp_bytes (str_bytes (uuid_fmt i as)) (str_bytes (uuid_fmt i bs)) = cmp_bytes as bs"
proof (induction as bs arbitrary: i rule: list_induct2)
  case (Cons a as b bs)
  have pair: "cmp_bytes ([byte_of_char (HEX ! unat (drop_bit 4 a)), byte_of_char (HEX ! unat (a AND 0x0f))] @ r)
      ([byte_of_char (HEX ! unat (drop_bit 4 b)), byte_of_char (HEX ! unat (b AND 0x0f))] @ s) =
      (if a < b then Less else if b < a then Greater else cmp_bytes r s)" for r s
    unfolding byte_order_by_nibbles by (simp add: hex_order nibbles_small del: unat_byte_lt)
  have fmt: "str_bytes (uuid_fmt i (c # cs)) = str_bytes (if i = 4 \<or> i = 6 \<or> i = 8 \<or> i = 10 then ''-'' else []) @
      [byte_of_char (HEX ! unat (drop_bit 4 c)), byte_of_char (HEX ! unat (c AND 0x0f))] @ str_bytes (uuid_fmt (i + 1) cs)"
    for c cs by (simp only: uuid_fmt.simps str_bytes_def map_append list.map)
  show ?case unfolding fmt cmp_bytes_same pair Cons.IH by simp
qed (simp add: str_bytes_def)

text \<open>
  The order derived for uuids is a total order, it is the order of their texts, and so sorting uuids by it sorts
  what they print as.
\<close>

theorem uuid_order_is_text_order:
  assumes "uuid_valid a" "uuid_valid b"
  shows "cmp_bytes (str_bytes (uuid_display a)) (str_bytes (uuid_display b)) = uuid_cmp a b \<and>
    uuid_cmp a b = cmp_of a b"
proof
  show "cmp_bytes (str_bytes (uuid_display a)) (str_bytes (uuid_display b)) = uuid_cmp a b"
    using assms cmp_uuid_fmt by (simp add: uuid_valid_def uuid_display_def uuid_cmp_def)
  show "uuid_cmp a b = cmp_of a b"
    using uuid_cmp_Equal [of a b] uuid_cmp_swap [of a b] uuid_cmp_swap [of b a]
    by (cases "uuid_cmp a b") (auto simp: cmp_of_def less_uuid_def)
qed

theorem uuid_order_is_text_order_witness:
  "cmp_bytes (str_bytes (uuid_display NIL)) (str_bytes (uuid_display (UUID (replicate 15 0 @ [0xa0])))) =
     uuid_cmp NIL (UUID (replicate 15 0 @ [0xa0])) \<and> uuid_cmp NIL (UUID (replicate 15 0 @ [0xa0])) = Less"
proof -
  have "uuid_cmp NIL (UUID (replicate 15 0 @ [0xa0])) = Less" by code_simp
  then show ?thesis using uuid_order_is_text_order [of NIL "UUID (replicate 15 0 @ [0xa0])"]
    by (simp add: uuid_valid_def NIL_def)
qed

text \<open>
  C37: a value of each of the four extension types is read back from whatever way a serde format hands its extension over
  (inside a newtype struct or as a plain sequence, its payload as borrowed bytes, owned bytes or a sequence of bytes).
\<close>

theorem extensions_read_back:
  assumes "rmp_int R" "uuid_valid u" "decimal_inv d" "datetime_valid t"
  shows "list_all (\<lambda>a. read_ext uuid_deserialize a = Ok u) (accesses (ext_serialize EXT_UUID (uuid_bytes u))) \<and>
    (\<exists>s. decimal_serialize R d = Ok s \<and> list_all (\<lambda>a. read_ext (decimal_deserialize R) a = Ok d) (accesses s)) \<and>
    list_all (\<lambda>a. read_ext datetime_deserialize a = Ok t) (accesses (ext_serialize EXT_DATETIME (datetime_to_payload t))) \<and>
    list_all (\<lambda>a. read_ext (interval_deserialize R) a = Ok i)
      (accesses (ext_serialize EXT_INTERVAL (interval_to_payload R i)))"
proof -
  obtain p where p: "decimal_to_payload R d = Ok p" "decimal_from_payload R p = Ok d"
    using rmp_int.decimal_payload_round_trip [OF assms(1,3)] by blast
  have "decimal_deserialize R (ext_serialize EXT_DECIMAL p) = Ok d"
    by (simp add: decimal_deserialize_def ext_deserialize_def deserialize_tagged_def ext_serialize_def p(2))
  moreover have "uuid_deserialize (ext_serialize EXT_UUID (uuid_bytes u)) = Ok u"
    unfolding uuid_deserialize_def by (rule uuid_ext.serde_round_trip [OF assms(2)])
  moreover have "datetime_deserialize (ext_serialize EXT_DATETIME (datetime_to_payload t)) = Ok t"
    unfolding datetime_deserialize_def by (rule datetime_ext.serde_round_trip [OF assms(4)])
  moreover have "interval_deserialize R (ext_serialize EXT_INTERVAL (interval_to_payload R i)) = Ok i"
    using rmp_int.interval_from_to [OF assms(1), of i]
    by (simp add: interval_deserialize_def ext_deserialize_def deserialize_tagged_def ext_serialize_def)
  moreover note read_ext_accesses
  ultimately show ?thesis using p(1) by (metis decimal_serialize_def map_ok.simps(1))
qed

theorem extensions_read_back_witness:
  "read_ext uuid_deserialize (VisitSeq (pair_of EXT_UUID (VisitByteSeq (map Ok (replicate 16 7))))) = Ok (UUID (replicate 16 7)) \<and>
   (\<exists>s. decimal_serialize ref_rmp decimal_zero = Ok s \<and>
     list_all (\<lambda>a. read_ext (decimal_deserialize ref_rmp) a = Ok decimal_zero) (accesses s))"
  using extensions_read_back [OF ref_int.rmp_int_axioms, of "UUID (replicate 16 7)" decimal_zero "from_unix 0 0" ZERO]
  by (simp add: uuid_valid_def decimal_inv_def decimal_zero_def MAX_DIGITS_def datetime_valid_def from_unix_small zero_nsec
      accesses_def byte_accesses_def ext_serialize_def del: and_then_eq_Ok)

end
