(* ===== verification/Options.thy ===== *)
theory Options
  imports Errors
begin

text \<open>
  \<^verbatim>\<open>src/src/options.rs\<close>: connection settings, the URL they are read from, percent-decoding of the
  credentials and the reconnection policy.  Durations are nanoseconds.
\<close>

definition DEFAULT_PORT :: u16 where "DEFAULT_PORT = 3301"

definition from_millis :: "nat \<Rightarrow> duration" where "from_millis n = n * 10 ^ 6"
definition from_secs :: "nat \<Rightarrow> duration" where "from_secs n = n * 10 ^ 9"

datatype reconnect = Backoff (backoff_min: duration) (backoff_max: duration) | Never

definition reconnect_default :: reconnect where
  "reconnect_default = Backoff (from_millis 100) (from_secs 5)"

record connect_options =
  addr :: string
  user :: "string option"
  password :: "string option"
  connect_timeout :: duration
  request_timeout :: "duration option"
  reconnect_policy :: reconnect
  tcp_nodelay :: bool

definition options_new :: "string \<Rightarrow> connect_options" where
  "options_new a =
    \<lparr>addr = (if CHR '':'' \<in> set a then a else a @ '':'' @ fmt_nat (unat DEFAULT_PORT)),
     user = None, password = None, connect_timeout = from_secs 5, request_timeout = None,
     reconnect_policy = reconnect_default, tcp_nodelay = True\<rparr>"

section \<open>Percent-decoding\<close>

text \<open>
  \<open>u8::from_str_radix(_, 16)\<close>: an optional plus sign before at least one hexadecimal digit of either
  case, and a value that fits the byte.
\<close>

definition to_digit16 :: "char \<Rightarrow> nat option" where
  "to_digit16 c = (let n = of_char c in
    if 48 \<le> n \<and> n \<le> 57 then Some (n - 48)
    else if 97 \<le> n \<and> n \<le> 102 then Some (n - 87)
    else if 65 \<le> n \<and> n \<le> 70 then Some (n - 55)
    else None)"

fun digits16 :: "nat \<Rightarrow> string \<Rightarrow> nat option" where
  "digits16 acc [] = Some acc"
| "digits16 acc (c # cs) = Option.bind (to_digit16 c) (\<lambda>d. digits16 (acc * 16 + d) cs)"

definition u8_from_str_radix16 :: "string \<Rightarrow> u8 option" where
  "u8_from_str_radix16 s =
    (let body = (if s \<noteq> [] \<and> hd s = CHR ''+'' then tl s else s) in
     if body = [] then None
     else Option.bind (digits16 0 body) (\<lambda>n. if n < 256 then Some (of_nat n) else None))"

definition bad_escape :: "string \<Rightarrow> error" where
  "bad_escape input = Url (''bad percent-escape in `'' @ input @ ''`'')"

text \<open>The \<open>while\<close> loop, on the bytes from index \<open>i\<close> on, with the bytes written so far.\<close>

fun percent_loop :: "string \<Rightarrow> bytes \<Rightarrow> bytes \<Rightarrow> bytes result" where
  "percent_loop input [] out = Ok out"
| "percent_loop input (b # rest) out =
    (if b = 37 then
       and_then (ok_or (Option.bind (get_range (b # rest) 1 3) (\<lambda>h.
         Option.bind (from_utf8 h) u8_from_str_radix16)) (bad_escape input)) (\<lambda>hex.
       percent_loop input (drop 3 (b # rest)) (out @ [hex]))
     else percent_loop input rest (out @ [b]))"

definition percent_decode :: "string \<Rightarrow> string result" where
  "percent_decode input =
    and_then (percent_loop input (str_bytes input) []) (\<lambda>out.
    ok_or (from_utf8 out) (Url (''`'' @ input @ ''` is not valid UTF-8'')))"

section \<open>Parsing and setters\<close>

definition options_parse :: "string \<Rightarrow> connect_options result" where
  "options_parse url =
    (let rest = (case strip_prefix ''tarantool://'' url of Some r \<Rightarrow> r | None \<Rightarrow> url);
         (credentials, host) = (case rsplit_once (CHR ''@'') rest of
            Some (c, h) \<Rightarrow> (Some c, h) | None \<Rightarrow> (None, rest))
     in if host = [] then Err (Url (''no host in `'' @ url @ ''`''))
        else if CHR ''/'' \<in> set host then Err (Url (''unexpected path in `'' @ url @ ''`''))
        else (let options = options_new host in
          case credentials of
            None \<Rightarrow> Ok options
          | Some c \<Rightarrow>
              (let (u, p) = (case split_once (CHR '':'') c of
                 Some (u, p) \<Rightarrow> (u, Some p) | None \<Rightarrow> (c, None))
               in and_then (percent_decode u) (\<lambda>u'.
                  and_then (case p of None \<Rightarrow> Ok None | Some p \<Rightarrow> map_ok Some (percent_decode p)) (\<lambda>p'.
                  Ok (options\<lparr>user := Some u', password := p'\<rparr>))))))"

definition options_user :: "string \<Rightarrow> connect_options \<Rightarrow> connect_options" where
  "options_user u o' = o'\<lparr>user := Some u\<rparr>"

definition options_password :: "string \<Rightarrow> connect_options \<Rightarrow> connect_options" where
  "options_password p o' = o'\<lparr>password := Some p\<rparr>"

definition options_connect_timeout :: "duration \<Rightarrow> connect_options \<Rightarrow> connect_options" where
  "options_connect_timeout t o' = o'\<lparr>connect_timeout := t\<rparr>"

definition options_request_timeout :: "duration \<Rightarrow> connect_options \<Rightarrow> connect_options" where
  "options_request_timeout t o' = o'\<lparr>request_timeout := Some t\<rparr>"

definition options_reconnect :: "reconnect \<Rightarrow> connect_options \<Rightarrow> connect_options" where
  "options_reconnect p o' = o'\<lparr>reconnect_policy := p\<rparr>"

definition options_tcp_nodelay :: "bool \<Rightarrow> connect_options \<Rightarrow> connect_options" where
  "options_tcp_nodelay b o' = o'\<lparr>tcp_nodelay := b\<rparr>"

definition user_name :: "connect_options \<Rightarrow> string option" where
  "user_name o' = user o'"

definition password_str :: "connect_options \<Rightarrow> string" where
  "password_str o' = (case password o' of Some p \<Rightarrow> p | None \<Rightarrow> [])"

text \<open>What \<open>Debug\<close> hands to \<open>debug_struct\<close>: the fields by name, each with its own \<open>Debug\<close> value.\<close>

datatype debug_value =
    DStr string
  | DOptStr "string option"
  | DDuration duration
  | DOptDuration "duration option"
  | DReconnect reconnect
  | DBool bool

definition options_debug :: "connect_options \<Rightarrow> (string \<times> debug_value) list" where
  "options_debug o' =
    [(''addr'', DStr (addr o')), (''user'', DOptStr (user o')),
     (''password'', DOptStr (map_option (\<lambda>_. ''<redacted>'') (password o'))),
     (''connect_timeout'', DDuration (connect_timeout o')),
     (''request_timeout'', DOptDuration (request_timeout o')),
     (''reconnect'', DReconnect (reconnect_policy o')),
     (''tcp_nodelay'', DBool (tcp_nodelay o'))]"

lemma map_ok_eq_Err: "map_ok f m = Err e \<longleftrightarrow> m = Err e"
  by (cases m) auto

section \<open>What an escaped text stands for\<close>

text \<open>
  RFC 3986: every byte stands for itself, a percent sign excepted, or is written as a percent sign and two
  hexadecimal digits of either case.
\<close>

inductive pct_form :: "bytes \<Rightarrow> string \<Rightarrow> bool" where
  pct_nil: "pct_form [] []"
| pct_literal: "c \<noteq> CHR ''%'' \<Longrightarrow> pct_form bs t \<Longrightarrow> pct_form (byte_of_char c # bs) (c # t)"
| pct_escape: "to_digit16 h = Some a \<Longrightarrow> to_digit16 l = Some b \<Longrightarrow> pct_form bs t \<Longrightarrow>
    pct_form (of_nat (16 * a + b) # bs) (CHR ''%'' # h # l # t)"

text \<open>The encoder a user would apply: escape the characters of a set and the percent sign.\<close>

definition upper_hex :: "nat \<Rightarrow> char" where
  "upper_hex d = (if d < 10 then char_of (48 + d) else char_of (55 + d))"

fun percent_encode :: "(char \<Rightarrow> bool) \<Rightarrow> string \<Rightarrow> string" where
  "percent_encode esc [] = []"
| "percent_encode esc (c # cs) =
    (if esc c \<or> c = CHR ''%'' then [CHR ''%'', upper_hex (of_char c div 16), upper_hex (of_char c mod 16)] else [c])
    @ percent_encode esc cs"

lemma to_digit16_upper: "d < 16 \<Longrightarrow> to_digit16 (upper_hex d) = Some d"
  by (simp add: to_digit16_def upper_hex_def Let_def)

lemma to_digit16_less: "to_digit16 c = Some d \<Longrightarrow> d < 16"
  by (auto simp: to_digit16_def Let_def split: if_splits)

lemma of_char_lt: "(of_char c :: nat) < 256"
  using nat_of_char_less_256 [of c] by simp

lemma char_nibbles: "(of_char c :: nat) div 16 < 16" "(of_char c :: nat) mod 16 < 16"
proof -
  have "(of_char c :: nat) < 16 * 16" using of_char_lt [of c] by simp
  then show "(of_char c :: nat) div 16 < 16" by (rule less_mult_imp_div_less)
qed simp

lemma pct_form_encode: "pct_form (str_bytes s) (percent_encode esc s)"
proof (induction s)
  case Nil
  show ?case by (simp add: str_bytes_def pct_nil)
next
  case (Cons c s)
  have "pct_form (of_nat (16 * (of_char c div 16) + of_char c mod 16) # str_bytes s)
    (CHR ''%'' # upper_hex (of_char c div 16) # upper_hex (of_char c mod 16) # percent_encode esc s)"
    using Cons by (intro pct_escape to_digit16_upper char_nibbles)
  moreover have "of_nat (16 * (of_char c div 16) + of_char c mod 16) = byte_of_char c"
    by (simp only: mult_div_mod_eq byte_of_char_def)
  ultimately show ?case using Cons by (simp add: str_bytes_def pct_literal)
qed

lemma to_digit16_range: "to_digit16 c = Some d \<Longrightarrow> (of_char c :: nat) < 128 \<and> c \<noteq> CHR ''+''"
  by (auto simp: to_digit16_def Let_def split: if_splits)

lemma radix_two_digits:
  assumes "to_digit16 h = Some a" "to_digit16 l = Some b"
  shows "u8_from_str_radix16 [h, l] = Some (of_nat (16 * a + b))"
  using assms to_digit16_less [OF assms(1)] to_digit16_less [OF assms(2)] to_digit16_range [OF assms(1)]
  by (simp add: u8_from_str_radix16_def Let_def mult.commute)

lemma small_byte: "(of_char c :: nat) < 128 \<Longrightarrow> byte_of_char c < 0x80"
  by (simp add: byte_of_char_def word_less_nat_alt)

lemma percent_byte: "byte_of_char c = 37 \<longleftrightarrow> c = CHR ''%''"
proof -
  have "byte_of_char (CHR ''%'') = 37" by (simp add: byte_of_char_def)
  then show ?thesis by (metis byte_of_char_eq)
qed

lemma percent_loop_form: "pct_form bs t \<Longrightarrow> percent_loop input (str_bytes t) out = Ok (out @ bs)"
proof (induction arbitrary: out rule: pct_form.induct)
  case pct_nil
  show ?case by (simp add: str_bytes_def)
next
  case (pct_literal c bs t)
  then show ?case by (simp add: str_bytes_def percent_byte)
next
  case (pct_escape h a l b bs t)
  have "utf8_valid (str_bytes [h, l])"
    using to_digit16_range [OF pct_escape(1)] to_digit16_range [OF pct_escape(2)]
    by (intro utf8_valid_ascii) (simp add: str_bytes_def small_byte)
  then have "from_utf8 [byte_of_char h, byte_of_char l] = Some [h, l]"
    using from_utf8_str_bytes [of "[h, l]"] by (simp add: str_bytes_def)
  then show ?case
    using pct_escape.IH [of "out @ [of_nat (16 * a + b)]"] radix_two_digits [OF pct_escape(1,2)]
    by (simp add: str_bytes_def percent_byte [THEN iffD2] get_range_def)
qed

lemma percent_decode_form:
  "pct_form (str_bytes s) t \<Longrightarrow> utf8_valid (str_bytes s) \<Longrightarrow> percent_decode t = Ok s"
  by (simp add: percent_decode_def percent_loop_form from_utf8_def)

lemma percent_loop_no_panic: "percent_loop input bs out \<noteq> Panic"
  by (induction input bs out rule: percent_loop.induct) (auto simp: and_then_eq_Panic)

lemma percent_loop_Err: "percent_loop input bs out = Err e \<Longrightarrow> \<exists>m. e = Url m"
  by (induction input bs out rule: percent_loop.induct)
    (auto simp: and_then_eq_Err bad_escape_def split: if_splits)

lemma percent_decode_Err: "percent_decode t = Err e \<Longrightarrow> \<exists>m. e = Url m"
  by (auto simp: percent_decode_def and_then_eq_Err dest: percent_loop_Err)

lemma percent_decode_no_panic: "percent_decode t \<noteq> Panic"
  by (simp add: percent_decode_def and_then_eq_Panic percent_loop_no_panic)

text \<open>
  Percent-decoding inverts percent-encoding: every UTF-8 text, whatever further characters the
  encoder escapes, is read back, and it is read back from any spelling of the escapes.\<close>
theorem percent_round_trip:
  assumes "utf8_valid (str_bytes s)" "pct_form (str_bytes s) t"
  shows "percent_decode (percent_encode esc s) = Ok s \<and> percent_decode t = Ok s"
  using assms by (simp add: percent_decode_form pct_form_encode)

theorem percent_round_trip_witness:
  "percent_decode (percent_encode (\<lambda>c. c = CHR ''@'') ''s@c%ret'') = Ok ''s@c%ret'' \<and>
    percent_decode (percent_encode (\<lambda>_. False) ''s@c%ret'') = Ok ''s@c%ret''"
proof (rule percent_round_trip)
  show "utf8_valid (str_bytes ''s@c%ret'')" by code_simp
qed (rule pct_form_encode)

lemma upper_hex_plain: "d < 16 \<Longrightarrow> upper_hex d \<noteq> CHR '':''"
proof
  assume "d < 16" "upper_hex d = CHR '':''"
  then have "to_digit16 (CHR '':'') = Some d" using to_digit16_upper by metis
  moreover have "to_digit16 (CHR '':'') = None" by code_simp
  ultimately show False by simp
qed

lemma colon_escaped: "esc (CHR '':'') \<Longrightarrow> CHR '':'' \<notin> set (percent_encode esc s)"
proof (induction s)
  case (Cons x s)
  have "CHR '':'' \<noteq> upper_hex (of_char x div 16)" "CHR '':'' \<noteq> upper_hex (of_char x mod 16)"
    using upper_hex_plain char_nibbles [of x] by metis+
  then show ?case using Cons by auto
qed simp

text \<open>
  C36: a URL built from credentials and a host parses to options with exactly those: the credentials are
  percent-decoded, a host without a port gets the default one, and everything else has its default.  Only a
  colon has to be escaped in the user name; the last at sign is the separator.\<close>
theorem parse_url_round_trip:
  assumes "utf8_valid (str_bytes u)" "utf8_valid (str_bytes p)"
    and "esc (CHR '':'')" "host \<noteq> []" "CHR ''@'' \<notin> set host" "CHR ''/'' \<notin> set host"
  shows "options_parse (''tarantool://'' @ percent_encode esc u @ '':'' @ percent_encode esc p @ ''@'' @ host) =
      Ok (options_password p (options_user u (options_new host))) \<and>
    options_parse (''tarantool://'' @ percent_encode esc u @ ''@'' @ host) =
      Ok (options_user u (options_new host)) \<and>
    options_parse (''tarantool://'' @ host) = Ok (options_new host)"
proof -
  have colon: "CHR '':'' \<notin> set (percent_encode esc u)" using assms(3) by (rule colon_escaped)
  have split: "rsplit_once (CHR ''@'') (c @ CHR ''@'' # host) = Some (c, host)" for c
    using assms(5) by (simp add: rsplit_once_Some)
  have creds: "split_once (CHR '':'') (percent_encode esc u @ CHR '':'' # percent_encode esc p) =
      Some (percent_encode esc u, percent_encode esc p)"
    "split_once (CHR '':'') (percent_encode esc u) = None"
    using colon by (simp_all add: split_once_Some split_once_None)
  have dec: "percent_decode (percent_encode esc u) = Ok u" "percent_decode (percent_encode esc p) = Ok p"
    using assms(1,2) by (simp_all add: percent_decode_form pct_form_encode)
  have none: "rsplit_once (CHR ''@'') host = None" using assms(5) by (simp add: rsplit_once_None)
  have pre: "strip_prefix ''tarantool://'' (''tarantool://'' @ x) = Some x" for x
    by (rule strip_prefix_append)
  note facts = options_parse_def options_user_def options_password_def
  have 1: "options_parse (''tarantool://'' @ percent_encode esc u @ '':'' @ percent_encode esc p @ ''@'' @ host) =
      Ok (options_password p (options_user u (options_new host)))"
    unfolding facts pre using split [of "percent_encode esc u @ CHR '':'' # percent_encode esc p"] assms(4,6)
    by (simp add: creds dec)
  have 2: "options_parse (''tarantool://'' @ percent_encode esc u @ ''@'' @ host) =
      Ok (options_user u (options_new host))"
    unfolding facts pre using split [of "percent_encode esc u"] assms(4,6)
    by (simp add: creds dec options_new_def)
  have 3: "options_parse (''tarantool://'' @ host) = Ok (options_new host)"
    unfolding facts pre using assms(4,6) by (simp add: none)
  from 1 2 3 show ?thesis by blast
qed

theorem parse_url_round_trip_witness:
  "options_parse (''tarantool://'' @ percent_encode (\<lambda>c. c = CHR '':'') ''a:b'' @ '':'' @
      percent_encode (\<lambda>c. c = CHR '':'') ''s@c'' @ ''@'' @ ''db:3302'') =
      Ok (options_password ''s@c'' (options_user ''a:b'' (options_new ''db:3302''))) \<and>
    options_parse (''tarantool://'' @ percent_encode (\<lambda>c. c = CHR '':'') ''a:b'' @ ''@'' @ ''db:3302'') =
      Ok (options_user ''a:b'' (options_new ''db:3302'')) \<and>
    options_parse (''tarantool://'' @ ''db:3302'') = Ok (options_new ''db:3302'')"
proof (rule parse_url_round_trip)
  show "utf8_valid (str_bytes ''a:b'')" by code_simp
  show "utf8_valid (str_bytes ''s@c'')" by code_simp
qed simp_all

text \<open>
  Reading a URL never panics; its only failures are URL errors; and a URL without a host or with a path
  is refused.\<close>
theorem parse_url_errors:
  assumes "CHR ''@'' \<notin> set h"
  shows "(case options_parse url of Ok _ \<Rightarrow> True | Err e \<Rightarrow> \<exists>m. e = Url m | Panic \<Rightarrow> False) \<and>
   (\<exists>m. options_parse (''tarantool://'' @ c @ ''@'') = Err (Url m)) \<and>
   (\<exists>m. options_parse (''tarantool://'' @ h @ ''/'') = Err (Url m))"
proof -
  have total: "options_parse url \<noteq> Panic"
    by (auto simp: options_parse_def Let_def and_then_eq_Panic percent_decode_no_panic
        split: option.splits prod.splits if_splits)
  have errors: "\<exists>m. e = Url m" if "options_parse url = Err e" for e
    using that by (auto simp: options_parse_def Let_def and_then_eq_Err map_ok_eq_Err
        dest!: percent_decode_Err split: option.splits prod.splits if_splits)
  have at: "rsplit_once (CHR ''@'') (c @ ''@'') = Some (c, [])" for c
    by (simp add: rsplit_once_Some)
  have empty: "\<exists>m. options_parse (''tarantool://'' @ c @ ''@'') = Err (Url m)"
    unfolding options_parse_def strip_prefix_append by (simp add: at)
  have path: "\<exists>m. options_parse (''tarantool://'' @ h @ ''/'') = Err (Url m)"
  proof -
    have "rsplit_once (CHR ''@'') (h @ ''/'') = None" using assms by (simp add: rsplit_once_None)
    then show ?thesis unfolding options_parse_def strip_prefix_append by simp
  qed
  have "case options_parse url of Ok _ \<Rightarrow> True | Err e \<Rightarrow> \<exists>m. e = Url m | Panic \<Rightarrow> False"
    using total errors by (cases "options_parse url") auto
  with empty path show ?thesis by blast
qed

theorem parse_url_errors_witness:
  "(case options_parse ''x'' of Ok _ \<Rightarrow> True | Err e \<Rightarrow> \<exists>m. e = Url m | Panic \<Rightarrow> False) \<and>
   (\<exists>m. options_parse (''tarantool://'' @ ''app'' @ ''@'') = Err (Url m)) \<and>
   (\<exists>m. options_parse (''tarantool://'' @ ''db'' @ ''/'') = Err (Url m))"
  by (rule parse_url_errors) simp

text \<open>
  The debug output does not depend on the password, only on whether there is one.\<close>
theorem debug_hides_password:
  "options_debug (options_password p o') = options_debug (options_password q o')"
  by (simp add: options_debug_def options_password_def)

text \<open>
  An escape may carry a plus sign, which \<open>from_str_radix\<close> reads as a sign: \<open>%+5\<close> is accepted
  and stands for the byte 5, although it is no escape of the URL grammar.\<close>
theorem percent_plus_accepted:
  "percent_decode ''%+5'' = Ok [char_of (5 :: nat)] \<and> \<not> (\<exists>bs. pct_form bs ''%+5'')"
proof -
  have "to_digit16 (CHR ''+'') = None" by code_simp
  then have "\<not> pct_form bs ''%+5''" for bs by (auto elim: pct_form.cases)
  moreover have "percent_decode ''%+5'' = Ok [char_of (5 :: nat)]" by code_simp
  ultimately show ?thesis by blast
qed

end
