(* ===== verification/Machine.thy ===== *)
theory Machine
  imports Main
begin

text \<open>
  Machines that take inputs: a step function that refuses an input with \<open>None\<close>, the states it reaches
  with legal inputs, and the contract of an invariant.
\<close>

inductive reach :: "('i \<Rightarrow> 's \<Rightarrow> 's option) \<Rightarrow> ('i \<Rightarrow> bool) \<Rightarrow> 's \<Rightarrow> 's \<Rightarrow> bool"
  for step :: "'i \<Rightarrow> 's \<Rightarrow> 's option" and legal :: "'i \<Rightarrow> bool" and init :: 's where
  reach_init: "reach step legal init init"
| reach_step: "reach step legal init s \<Longrightarrow> legal i \<Longrightarrow> step i s = Some s' \<Longrightarrow> reach step legal init s'"

fun run_inputs :: "('i \<Rightarrow> 's \<Rightarrow> 's option) \<Rightarrow> 'i list \<Rightarrow> 's \<Rightarrow> 's option" where
  "run_inputs step [] s = Some s"
| "run_inputs step (i # is) s = Option.bind (step i s) (run_inputs step is)"

lemma run_inputs_reach:
  "reach step legal init s \<Longrightarrow> list_all legal is \<Longrightarrow> run_inputs step is s = Some s' \<Longrightarrow> reach step legal init s'"
proof (induction "is" arbitrary: s)
  case (Cons i "is")
  then show ?case by (auto simp: bind_eq_Some_conv intro: reach_step)
qed simp

lemma run_inputs_append: "run_inputs step (xs @ ys) s = Option.bind (run_inputs step xs s) (run_inputs step ys)"
  by (induction xs arbitrary: s) (simp_all split: Option.bind_splits)

lemma reach_run_inputs:
  assumes "reach step legal init s"
  shows "\<exists>is. list_all legal is \<and> run_inputs step is init = Some s"
  using assms
proof induction
  case reach_init
  show ?case by (rule exI [of _ "[]"]) simp
next
  case (reach_step s i s')
  then obtain "is" where "list_all legal is" "run_inputs step is init = Some s" by blast
  then show ?case using reach_step by (intro exI [of _ "is @ [i]"]) (simp add: run_inputs_append)
qed

locale machine_invariant =
  fixes step :: "'i \<Rightarrow> 's \<Rightarrow> 's option" and legal :: "'i \<Rightarrow> bool" and init :: 's and inv :: "'s \<Rightarrow> bool"
  assumes init_inv: "inv init"
    and step_inv: "reach step legal init s \<Longrightarrow> inv s \<Longrightarrow> legal i \<Longrightarrow> step i s = Some s' \<Longrightarrow> inv s'"
begin

lemma reach_inv: "reach step legal init s \<Longrightarrow> inv s"
  by (induction rule: reach.induct) (auto intro: init_inv step_inv)

end

end
