(* ===== verification/Connection.thy ===== *)
theory Connection
  imports Codec Options Machine "HOL-Library.AList" "HOL-Library.Multiset"
begin

text \<open>
  \<^verbatim>\<open>src/src/connection.rs\<close>, the task that owns the socket: the commands a handle sends it, the state it
  keeps, and its loop.  The loop is a machine whose state says where the task waits; an input says what the
  \<open>select!\<close> it waits in returned, and with it what the writes to the socket gave.  The ends of the
  channels (a reply, a push stream, a watcher) are numbers, and what is sent on
  them is recorded in the order it is sent.  A hash map is the list of its entries; nothing below depends on their order.
\<close>

type_synonym reply = nat
type_synonym pushes = nat
type_synonym sender = nat

datatype command =
    CRequest (c_sync: u64) (c_packet: bytes) (c_reply: reply) (c_pushes: "pushes option")
  | CWatch (w_id: u64) (w_key: string) (w_sender: sender)
  | CUnwatch (w_id: u64) (w_key: string)
  | CFire (c_packet: bytes)
  | CClose

record pending =
  p_reply :: reply
  p_pushes :: "pushes option"

text \<open>
  What the task does to the outside: a oneshot is answered or dropped unanswered, a chunk is
  pushed, a watched value is published, a packet is written to the socket.
\<close>

datatype effect =
    ESettle reply "response result"
  | EDrop reply
  | EPush pushes bytes
  | ENotify sender bytes
  | ESent bytes

record task =
  t_options :: connect_options
  t_pending :: "(u64 \<times> pending) list"
  t_watchers :: "(string \<times> (u64 \<times> sender) list) list"
  t_deferred :: "command list"
  t_shutting_down :: bool
  t_schema_version :: u64
  t_closed :: bool
  t_rx_closed :: bool
  t_log :: "effect list"
  t_taken :: "command list"

text \<open>
  The last field is no state of the code: it lists the commands received so far, for the statements below.
\<close>

definition task_new :: "connect_options \<Rightarrow> task" where
  "task_new options =
    \<lparr>t_options = options, t_pending = [], t_watchers = [], t_deferred = [], t_shutting_down = False,
     t_schema_version = 0, t_closed = False, t_rx_closed = False, t_log = [], t_taken = []\<rparr>"

definition record_effect :: "effect \<Rightarrow> task \<Rightarrow> task" where
  "record_effect e t = t\<lparr>t_log := t_log t @ [e]\<rparr>"

definition settle :: "reply \<Rightarrow> response result \<Rightarrow> task \<Rightarrow> task" where
  "settle r v = record_effect (ESettle r v)"

definition watch_packet :: "rmp \<Rightarrow> u64 \<Rightarrow> string \<Rightarrow> bytes result" where
  "watch_packet R ty key =
    map_ok (request_finish R) (request_str R KEY_EVENT_KEY key (request_new R ty 0 None))"

text \<open>
  \<open>send(link, packet)\<close>: the encoder of the link may refuse the packet; else it is written, and \<open>sent\<close>
  is the error of the socket, if any.  \<open>ESent\<close> records that the link took the packet for writing: when the write then
  fails, some or none of its bytes have reached the socket.
\<close>

definition send :: "error option \<Rightarrow> bytes result \<Rightarrow> task \<Rightarrow> task \<times> unit result" where
  "send sent packet t = (case packet of
     Ok p \<Rightarrow> (case encode p [] of
         Ok _ \<Rightarrow> (record_effect (ESent p) t, case sent of None \<Rightarrow> Ok () | Some e \<Rightarrow> Err e)
       | Err e \<Rightarrow> (t, Err e)
       | Panic \<Rightarrow> (t, Panic))
   | Err e \<Rightarrow> (t, Err e)
   | Panic \<Rightarrow> (t, Panic))"

text \<open>\<open>pending.insert\<close> drops the entry it replaces, and with it the reply nobody answered.\<close>

definition insert_pending :: "u64 \<Rightarrow> pending \<Rightarrow> task \<Rightarrow> task" where
  "insert_pending sync p t =
    (case map_of (t_pending t) sync of
       Some old \<Rightarrow> record_effect (EDrop (p_reply old)) t
     | None \<Rightarrow> t)\<lparr>t_pending := AList.update sync p (t_pending t)\<rparr>"

definition handle_command :: "rmp \<Rightarrow> error option \<Rightarrow> command \<Rightarrow> task \<Rightarrow> task \<times> unit result" where
  "handle_command R sent command t = (case command of
     CRequest sync packet reply pushes \<Rightarrow>
       if t_shutting_down t then (settle reply (Err ShuttingDown) t, Ok ())
       else send sent (Ok packet) (insert_pending sync \<lparr>p_reply = reply, p_pushes = pushes\<rparr> t)
   | CFire packet \<Rightarrow> send sent (Ok packet) t
   | CWatch i key sender \<Rightarrow>
       (let first = (map_of (t_watchers t) key = None);
            list = unwrap_or (map_of (t_watchers t) key) [];
            t = t\<lparr>t_watchers := AList.update key (list @ [(i, sender)]) (t_watchers t)\<rparr>
        in if first then send sent (watch_packet R REQ_WATCH key) t else (t, Ok ()))
   | CUnwatch i key \<Rightarrow>
       (case map_of (t_watchers t) key of
          None \<Rightarrow> (t, Ok ())
        | Some list \<Rightarrow>
            (let list = filter (\<lambda>(watcher, _). watcher \<noteq> i) list in
             if list = []
             then send sent (watch_packet R REQ_UNWATCH key)
               (t\<lparr>t_watchers := AList.delete key (t_watchers t)\<rparr>)
             else (t\<lparr>t_watchers := AList.update key list (t_watchers t)\<rparr>, Ok ())))
   | CClose \<Rightarrow> (t, Panic))"

definition handle_reply :: "response \<Rightarrow> task \<Rightarrow> task" where
  "handle_reply response t = (case map_of (t_pending t) (rs_sync response) of
     Some p \<Rightarrow> settle (p_reply p) (Ok response) (t\<lparr>t_pending := AList.delete (rs_sync response) (t_pending t)\<rparr>)
   | None \<Rightarrow> t)"

definition handle_chunk :: "response \<Rightarrow> task \<Rightarrow> task result" where
  "handle_chunk response t =
    (case Option.bind (map_of (t_pending t) (rs_sync response)) p_pushes of
       Some pushes \<Rightarrow> map_ok (\<lambda>bs. record_effect (EPush pushes bs) t) (data_bytes response)
     | None \<Rightarrow> Ok t)"

text \<open>
  \<open>alive\<close> says of each watcher whether its receiver still exists; publishing to one that does
  not fails and removes it.
\<close>

definition publish :: "(sender \<Rightarrow> bool) \<Rightarrow> bytes \<Rightarrow> (u64 \<times> sender) list \<Rightarrow> task \<Rightarrow> task" where
  "publish alive d list t = fold (\<lambda>(_, s). record_effect (ENotify s d)) (filter (\<lambda>(_, s). alive s) list) t"

definition handle_event :: "rmp \<Rightarrow> (sender \<Rightarrow> bool) \<Rightarrow> error option \<Rightarrow> response \<Rightarrow> task \<Rightarrow> task result" where
  "handle_event R alive sent response t =
    and_then (event response) (\<lambda>ev. case ev of
      None \<Rightarrow> Ok t
    | Some (key, d) \<Rightarrow>
       (let t = (if key = ''box.shutdown'' \<and> get d 0 = Some 0xc3 then t\<lparr>t_shutting_down := True\<rparr> else t) in
        case map_of (t_watchers t) key of
          None \<Rightarrow> Ok t
        | Some list \<Rightarrow>
            (let t = publish alive d list t;
                 t = t\<lparr>t_watchers := AList.update key (filter (\<lambda>(_, s). alive s) list) (t_watchers t)\<rparr>
             in case send sent (watch_packet R REQ_WATCH key) t of
                  (t, Panic) \<Rightarrow> Panic
                | (t, _) \<Rightarrow> Ok t)))"

definition handle_response ::
  "rmp \<Rightarrow> (sender \<Rightarrow> bool) \<Rightarrow> error option \<Rightarrow> response \<Rightarrow> task \<Rightarrow> task result" where
  "handle_response R alive sent response t =
    (let t = (case rs_schema_version response of
          Some version \<Rightarrow> t\<lparr>t_schema_version := max (t_schema_version t) version\<rparr> | None \<Rightarrow> t)
     in case rs_kind response of
          KOk \<Rightarrow> Ok (handle_reply response t)
        | KError \<Rightarrow> Ok (handle_reply response t)
        | KChunk \<Rightarrow> handle_chunk response t
        | KEvent \<Rightarrow> handle_event R alive sent response t)"

section \<open>Failing what waits\<close>

text \<open>\<open>display\<close> is the text of an error; it is only asked for errors other than the two kept as they are.\<close>

definition clone_error :: "(duration \<Rightarrow> string) \<Rightarrow> error \<Rightarrow> error" where
  "clone_error dbg err = (case err of
     Closed \<Rightarrow> Closed
   | ShuttingDown \<Rightarrow> ShuttingDown
   | other \<Rightarrow> Protocol (display_error dbg other))"

definition fail_pending :: "(duration \<Rightarrow> string) \<Rightarrow> error \<Rightarrow> task \<Rightarrow> task" where
  "fail_pending dbg err t =
    (fold (\<lambda>(_, p). settle (p_reply p) (Err (clone_error dbg err))) (t_pending t) t)\<lparr>t_pending := []\<rparr>"

definition fail_link :: "(duration \<Rightarrow> string) \<Rightarrow> error \<Rightarrow> task \<Rightarrow> task" where
  "fail_link dbg err t = fail_pending dbg Closed t"

definition fail_request :: "command \<Rightarrow> task \<Rightarrow> task" where
  "fail_request command t = (case command of
     CRequest _ _ reply _ \<Rightarrow> settle reply (Err Closed) t
   | _ \<Rightarrow> t)"

definition fail_deferred :: "task \<Rightarrow> task" where
  "fail_deferred t = (fold fail_request (t_deferred t) t)\<lparr>t_deferred := [], t_rx_closed := True\<rparr>"

definition MAX_DEFERRED :: nat where "MAX_DEFERRED = 4096"

definition defer_command :: "command \<Rightarrow> task \<Rightarrow> task" where
  "defer_command command t =
    (if length (t_deferred t) \<ge> MAX_DEFERRED then fail_request command t
     else t\<lparr>t_deferred := t_deferred t @ [command]\<rparr>)"

text \<open>The task is dropped when \<open>run\<close> returns: replies it still holds are dropped unanswered.\<close>

definition command_replies :: "command \<Rightarrow> reply list" where
  "command_replies c = (case c of CRequest _ _ r _ \<Rightarrow> [r] | _ \<Rightarrow> [])"

definition drop_task :: "task \<Rightarrow> task" where
  "drop_task t =
    fold (\<lambda>r. record_effect (EDrop r)) (map (p_reply \<circ> snd) (t_pending t) @ concat (map command_replies (t_deferred t)))
      (t\<lparr>t_pending := [], t_deferred := [], t_watchers := [], t_rx_closed := True\<rparr>)"

section \<open>The loop\<close>

text \<open>
  Where the task is: draining the commands deferred during a reconnect, waiting in the
  \<open>select!\<close> of \<open>run\<close>, waiting out a delay of \<open>reconnect\<close> before an attempt to connect, attempting the
  handshake, returned, or panicked.
\<close>

datatype phase = Draining | Selecting | Waiting duration | Connecting duration | Finished | Panicked

datatype run_outcome = Continue | CloseLink | Lost error

datatype input =
    IDrain "error option"
  | ICommand "command option" "error option"
  | IPacket "response result option" "sender \<Rightarrow> bool" "error option"
  | IElapsed nat
  | IWake nat "command option"
  | IHandshake "unit result" "error option list"

text \<open>The largest \<open>Duration\<close> and the largest \<open>Instant\<close>, in nanoseconds.\<close>

definition DURATION_MAX :: nat where "DURATION_MAX = (2 ^ 64 - 1) * 10 ^ 9 + 999999999"
definition INSTANT_MAX :: nat where "INSTANT_MAX = (2 ^ 63 - 1) * 10 ^ 9 + 999999999"

definition take_command :: "command option \<Rightarrow> task \<Rightarrow> task" where
  "take_command c t = (case c of Some c \<Rightarrow> t\<lparr>t_taken := t_taken t @ [c]\<rparr> | None \<Rightarrow> t)"

definition select_command :: "rmp \<Rightarrow> command option \<Rightarrow> error option \<Rightarrow> task \<Rightarrow> task \<times> run_outcome result" where
  "select_command R command sent t = (case command of
     None \<Rightarrow> (t, Ok CloseLink)
   | Some CClose \<Rightarrow> (t, Ok CloseLink)
   | Some command \<Rightarrow> (case handle_command R sent command t of
       (t, Ok _) \<Rightarrow> (t, Ok Continue)
     | (t, Err e) \<Rightarrow> (t, Ok (Lost e))
     | (t, Panic) \<Rightarrow> (t, Panic)))"

definition select_packet ::
  "rmp \<Rightarrow> response result option \<Rightarrow> (sender \<Rightarrow> bool) \<Rightarrow> error option \<Rightarrow> task \<Rightarrow> task \<times> run_outcome result" where
  "select_packet R packet alive sent t = (case packet of
     None \<Rightarrow> (t, Ok (Lost Closed))
   | Some (Err e) \<Rightarrow> (t, Ok (Lost e))
   | Some Panic \<Rightarrow> (t, Panic)
   | Some (Ok response) \<Rightarrow> (case handle_response R alive sent response t of
       Ok t \<Rightarrow> (t, Ok (if t_shutting_down t \<and> t_pending t = [] then CloseLink else Continue))
     | Err e \<Rightarrow> (t, Ok (Lost e))
     | Panic \<Rightarrow> (t, Panic)))"

text \<open>\<open>None\<close> from \<open>reconnect\<close>: the task ends.\<close>

definition give_up :: "task \<Rightarrow> phase \<times> task" where
  "give_up t = (Finished, drop_task (fail_deferred (t\<lparr>t_closed := True\<rparr>)))"

definition enter_reconnect :: "task \<Rightarrow> phase \<times> task" where
  "enter_reconnect t = (case reconnect_policy (t_options t) of
     Backoff mn mx \<Rightarrow> (Waiting mn, t)
   | Never \<Rightarrow> give_up t)"

definition after_select :: "(duration \<Rightarrow> string) \<Rightarrow> task \<times> run_outcome result \<Rightarrow> phase \<times> task" where
  "after_select dbg r = (case r of
     (t, Ok Continue) \<Rightarrow> (Draining, t)
   | (t, Ok CloseLink) \<Rightarrow> (Finished, drop_task (fail_pending dbg Closed (t\<lparr>t_closed := True\<rparr>)))
   | (t, Ok (Lost err)) \<Rightarrow> enter_reconnect (fail_link dbg err t)
   | (t, Err e) \<Rightarrow> (Panicked, t)
   | (t, Panic) \<Rightarrow> (Panicked, t))"

text \<open>One round of the drain loop, or its end.\<close>

definition drain_step :: "rmp \<Rightarrow> (duration \<Rightarrow> string) \<Rightarrow> error option \<Rightarrow> task \<Rightarrow> phase \<times> task" where
  "drain_step R dbg sent t = (case t_deferred t of
     [] \<Rightarrow> (Selecting, t)
   | command # rest \<Rightarrow> (case handle_command R sent command (t\<lparr>t_deferred := rest\<rparr>) of
       (t, Ok _) \<Rightarrow> (Draining, t)
     | (t, Err err) \<Rightarrow> (Selecting, fail_link dbg err t)
     | (t, Panic) \<Rightarrow> (Panicked, t)))"

text \<open>
  A round of the loop of \<open>reconnect\<close>: the wake-up instant is computed first, and one past the largest instant
  panics; then the delay passes or a command arrives.
\<close>

definition wait_step :: "nat \<Rightarrow> command option option \<Rightarrow> duration \<Rightarrow> task \<Rightarrow> phase \<times> task" where
  "wait_step now attempt delay t =
    (if now + delay > INSTANT_MAX then (Panicked, t)
     else case attempt of
       None \<Rightarrow> (Connecting delay, t)
     | Some received \<Rightarrow> (let t = take_command received t in
         case received of
           None \<Rightarrow> give_up t
         | Some CClose \<Rightarrow> give_up t
         | Some command \<Rightarrow> (Connecting delay, defer_command command t)))"

text \<open>Re-subscribing after a handshake stops at the first write that fails.\<close>

fun resubscribe :: "rmp \<Rightarrow> string list \<Rightarrow> error option list \<Rightarrow> task \<Rightarrow> task result" where
  "resubscribe R [] sents t = Ok t"
| "resubscribe R (key # keys) sents t =
    (case send (case sents of s # _ \<Rightarrow> s | [] \<Rightarrow> None) (watch_packet R REQ_WATCH key) t of
       (t, Ok _) \<Rightarrow> resubscribe R keys (tl sents) t
     | (t, Err e) \<Rightarrow> Ok t
     | (t, Panic) \<Rightarrow> Panic)"

definition next_delay :: "duration \<Rightarrow> duration \<Rightarrow> duration option" where
  "next_delay mx delay = (if delay * 2 > DURATION_MAX then None else Some (min (delay * 2) mx))"

definition connect_step :: "rmp \<Rightarrow> unit result \<Rightarrow> error option list \<Rightarrow> duration \<Rightarrow> task \<Rightarrow> phase \<times> task" where
  "connect_step R shaken sents delay t = (case shaken of
     Ok _ \<Rightarrow> (case resubscribe R (map fst (t_watchers t)) sents t of
         Ok t \<Rightarrow> (Draining, t)
       | _ \<Rightarrow> (Panicked, t))
   | Err e \<Rightarrow> (case next_delay (backoff_max (reconnect_policy (t_options t))) delay of
         Some d \<Rightarrow> (Waiting d, t)
       | None \<Rightarrow> (Panicked, t))
   | Panic \<Rightarrow> (Panicked, t))"

text \<open>
  One step of the task; an input that the task does not wait for is refused.  Of a handshake the task sees whether it succeeded:
  \<open>handshake_inner\<close> in \<open>Handshake\<close> reads the two replies itself and passes on neither of them.
\<close>

fun task_step :: "rmp \<Rightarrow> (duration \<Rightarrow> string) \<Rightarrow> input \<Rightarrow> phase \<times> task \<Rightarrow> (phase \<times> task) option" where
  "task_step R dbg (IDrain sent) (Draining, t) = Some (drain_step R dbg sent t)"
| "task_step R dbg (ICommand c sent) (Selecting, t) =
    Some (after_select dbg (select_command R c sent (take_command c t)))"
| "task_step R dbg (IPacket p alive sent) (Selecting, t) =
    Some (after_select dbg (select_packet R p alive sent t))"
| "task_step R dbg (IElapsed now) (Waiting d, t) = Some (wait_step now None d t)"
| "task_step R dbg (IWake now c) (Waiting d, t) = Some (wait_step now (Some c) d t)"
| "task_step R dbg (IHandshake shaken sents) (Connecting d, t) = Some (connect_step R shaken sents d t)"
| "task_step R dbg _ _ = None"

fun_cases task_step_Some: "task_step R dbg i (ph, t) = Some m'"

lemmas task_step_cases [consumes 1, case_names Drain Command Packet Elapsed Wake Handshake] = task_step_Some

section \<open>The handle\<close>

text \<open>The counters every handle shares; \<open>fetch_add\<close> returns the old value and wraps.\<close>

record counters =
  next_sync_value :: u64
  next_stream_id_value :: u64
  next_watch_id_value :: u64

definition counters_new :: counters where
  "counters_new = \<lparr>next_sync_value = 1, next_stream_id_value = 1, next_watch_id_value = 1\<rparr>"

definition next_sync :: "counters \<Rightarrow> u64 \<times> counters" where
  "next_sync c = (next_sync_value c, c\<lparr>next_sync_value := next_sync_value c + 1\<rparr>)"

definition next_stream_id :: "counters \<Rightarrow> u64 \<times> counters" where
  "next_stream_id c = (next_stream_id_value c, c\<lparr>next_stream_id_value := next_stream_id_value c + 1\<rparr>)"

definition next_watch_id :: "counters \<Rightarrow> u64 \<times> counters" where
  "next_watch_id c = (next_watch_id_value c, c\<lparr>next_watch_id_value := next_watch_id_value c + 1\<rparr>)"

text \<open>
  Waiting for a reply: \<open>elapsed\<close> says whether the request timeout, if there is one, passes first; \<open>received\<close> is
  what the oneshot gives, \<open>None\<close> when its sender was dropped.
\<close>

definition await_reply :: "duration option \<Rightarrow> bool \<Rightarrow> response result option \<Rightarrow> response result" where
  "await_reply limit elapsed received =
    and_then (case limit of
        Some l \<Rightarrow> if elapsed then Err (Timeout l) else Ok received
      | None \<Rightarrow> Ok received) (\<lambda>received.
    and_then (ok_or received Closed) (\<lambda>result.
    and_then result (\<lambda>response.
    if rs_kind response = KError then Err (Server (into_error response)) else Ok response)))"

text \<open>\<open>sent\<close> says whether the channel to the task took the command.\<close>

definition request_inner :: "bool \<Rightarrow> bool \<Rightarrow> duration option \<Rightarrow> bool \<Rightarrow> response result option \<Rightarrow> response result" where
  "request_inner closed sent limit elapsed received =
    (if closed then Err Closed else if \<not> sent then Err Closed else await_reply limit elapsed received)"

definition request_with_pushes :: "bool \<Rightarrow> bool \<Rightarrow> duration option \<Rightarrow> duration option result" where
  "request_with_pushes closed sent limit = (if closed then Err Closed else if \<not> sent then Err Closed else Ok limit)"

definition push_stream_finish :: "duration option \<Rightarrow> bool \<Rightarrow> response result option \<Rightarrow> response result" where
  "push_stream_finish = await_reply"

end
