(* ===== verification/Connection_Invariants.thy ===== *)
theory Connection_Invariants
  imports Connection
begin

text \<open>
  What holds in every state the connection task reaches: the books of replies balance, replies go where they belong, delays
  and queues are bounded, nothing panics, and chunks come before the reply.  Each is stated for the operations first
  and then, as an interpretation of \<open>machine_invariant\<close>, for the loop.
\<close>

section \<open>Every request is answered once\<close>

text \<open>
  Bookkeeping of replies: those the task holds (pending or deferred), those answered or dropped so
  far, and those of all commands received.
\<close>

fun effect_reply :: "effect \<Rightarrow> reply option" where
  "effect_reply (ESettle r _) = Some r"
| "effect_reply (EDrop r) = Some r"
| "effect_reply _ = None"

definition pending_replies :: "task \<Rightarrow> reply list" where
  "pending_replies t = map (p_reply \<circ> snd) (t_pending t)"

definition replies_of :: "command list \<Rightarrow> reply list" where
  "replies_of cs = concat (map command_replies cs)"

definition answered :: "task \<Rightarrow> reply list" where
  "answered t = List.map_filter effect_reply (t_log t)"

definition balance :: "task \<Rightarrow> reply multiset" where
  "balance t = mset (answered t) + mset (pending_replies t) + mset (replies_of (t_deferred t))"

lemmas ledger_defs = answered_def pending_replies_def replies_of_def balance_def

lemma map_filter_append [simp]: "List.map_filter f (xs @ ys) = List.map_filter f xs @ List.map_filter f ys"
  by (simp add: List.map_filter_def)

lemma map_filter_single: "List.map_filter f [x] = (case f x of Some y \<Rightarrow> [y] | None \<Rightarrow> [])"
  by (simp add: List.map_filter_def split: option.split)

lemma replies_of_append [simp]: "replies_of (xs @ ys) = replies_of xs @ replies_of ys"
  by (simp add: replies_of_def)

lemma replies_of_Cons [simp]: "replies_of (c # cs) = command_replies c @ replies_of cs"
  by (simp add: replies_of_def)

lemma replies_of_Nil [simp]: "replies_of [] = []"
  by (simp add: replies_of_def)

text \<open>Recording an effect changes the log alone.\<close>

lemma record_effect_fields [simp]:
  "t_pending (record_effect e t) = t_pending t" "t_watchers (record_effect e t) = t_watchers t"
  "t_deferred (record_effect e t) = t_deferred t" "t_shutting_down (record_effect e t) = t_shutting_down t"
  "t_options (record_effect e t) = t_options t" "t_closed (record_effect e t) = t_closed t"
  "t_taken (record_effect e t) = t_taken t" "t_log (record_effect e t) = t_log t @ [e]"
  "t_schema_version (record_effect e t) = t_schema_version t" "t_rx_closed (record_effect e t) = t_rx_closed t"
  by (simp_all add: record_effect_def)

lemma fold_effects: "fold (\<lambda>x. record_effect (f x)) xs t = t\<lparr>t_log := t_log t @ map f xs\<rparr>"
  by (induction xs arbitrary: t) (simp_all add: record_effect_def)

lemma publish_eq:
  "publish alive d list t = t\<lparr>t_log := t_log t @ map (\<lambda>(_, s). ENotify s d) (filter (\<lambda>(_, s). alive s) list)\<rparr>"
  unfolding publish_def by (simp add: case_prod_unfold fold_effects)

lemma fail_pending_eq:
  "fail_pending dbg err t =
    t\<lparr>t_pending := [], t_log := t_log t @ map (\<lambda>r. ESettle r (Err (clone_error dbg err))) (pending_replies t)\<rparr>"
  unfolding fail_pending_def settle_def by (simp add: case_prod_unfold fold_effects pending_replies_def)

lemma fail_request_eq:
  "fail_request c t = t\<lparr>t_log := t_log t @ map (\<lambda>r. ESettle r (Err Closed)) (command_replies c)\<rparr>"
  by (cases c) (simp_all add: fail_request_def settle_def record_effect_def command_replies_def)

lemma fold_fail_request:
  "fold fail_request cs t = t\<lparr>t_log := t_log t @ map (\<lambda>r. ESettle r (Err Closed)) (replies_of cs)\<rparr>"
  by (induction cs arbitrary: t) (simp_all add: fail_request_eq)

lemma fail_deferred_eq:
  "fail_deferred t = t\<lparr>t_deferred := [], t_rx_closed := True,
    t_log := t_log t @ map (\<lambda>r. ESettle r (Err Closed)) (replies_of (t_deferred t))\<rparr>"
  by (simp add: fail_deferred_def fold_fail_request)

lemma drop_task_eq:
  "drop_task t = t\<lparr>t_pending := [], t_deferred := [], t_watchers := [], t_rx_closed := True,
    t_log := t_log t @ map EDrop (pending_replies t @ replies_of (t_deferred t))\<rparr>"
  by (simp add: drop_task_def fold_effects pending_replies_def replies_of_def)

lemma answered_map:
  "List.map_filter effect_reply (map (\<lambda>r. ESettle r v) rs) = rs" "List.map_filter effect_reply (map EDrop rs) = rs"
  by (induction rs) (auto simp: List.map_filter_def)

lemma answered_notify: "List.map_filter effect_reply (map (\<lambda>(i, s). ENotify s d) ws) = []"
  by (induction ws) (auto simp: List.map_filter_def)

lemma pending_replies_Nil [simp]: "t_pending t = [] \<Longrightarrow> pending_replies t = []"
  by (simp add: pending_replies_def)

lemma pending_replies_cong: "t_pending t' = t_pending t \<Longrightarrow> pending_replies t' = pending_replies t"
  by (simp add: pending_replies_def)

lemma balance_fail_pending: "balance (fail_pending dbg e t) = balance t"
  by (simp add: balance_def answered_def answered_map fail_pending_eq)

lemma balance_fail_deferred: "balance (fail_deferred t) = balance t"
  using pending_replies_cong [of "fail_deferred t" t]
  by (simp add: balance_def answered_def answered_map fail_deferred_eq)

lemma balance_drop_task: "balance (drop_task t) = balance t"
  by (simp add: balance_def answered_def answered_map drop_task_eq del: map_append)

lemma balance_fail_request: "balance (fail_request c t) = balance t + mset (command_replies c)"
  using pending_replies_cong [of "fail_request c t" t]
  by (simp add: balance_def answered_def answered_map fail_request_eq)

text \<open>What one write does: the log grows by at most the packet.\<close>

lemma send_cases:
  obtains (written) p where "send sent packet t = (record_effect (ESent p) t, case sent of None \<Rightarrow> Ok () | Some e \<Rightarrow> Err e)"
      "packet = Ok p" "length p < 2 ^ 32"
  | (refused) e where "send sent packet t = (t, Err e)"
  | (panic) "send sent packet t = (t, Panic)" "packet = Panic"
proof (cases packet)
  case (Ok p)
  show thesis
  proof (cases "length p < 2 ^ 32")
    case True
    then show thesis using Ok by (intro written [of p]) (simp_all add: send_def encode_def)
  next
    case False
    then show thesis using Ok by (intro refused) (simp add: send_def encode_def)
  qed
next
  case (Err e)
  then show thesis by (intro refused [of e]) (simp add: send_def)
next
  case Panic
  then show thesis by (intro panic) (simp_all add: send_def)
qed

lemma watch_packet_Ok: "\<exists>p. watch_packet R ty key = Ok p"
  by (simp add: watch_packet_def request_str_def request_key_def request_new_def Let_def)

lemma mset_pending_update:
  assumes "distinct (map fst ps)"
  shows "mset (map (p_reply \<circ> snd) (AList.update k p ps)) + (case map_of ps k of Some q \<Rightarrow> {#p_reply q#} | None \<Rightarrow> {#}) =
    add_mset (p_reply p) (mset (map (p_reply \<circ> snd) ps))"
  using assms
proof (induction ps)
  case (Cons q ps)
  have "map_of ps (fst q) = None" using Cons.prems by (metis distinct.simps(2) list.simps(9) map_of_eq_None_iff list.set_map)
  with Cons show ?case by (cases q) auto
qed simp

lemma mset_pending_delete:
  assumes "distinct (map fst ps)" "map_of ps k = Some q"
  shows "add_mset (p_reply q) (mset (map (p_reply \<circ> snd) (AList.delete k ps))) = mset (map (p_reply \<circ> snd) ps)"
  using assms
proof (induction ps)
  case (Cons x ps)
  show ?case
  proof (cases "fst x = k")
    case True
    then have "AList.delete k ps = ps" using Cons.prems by (auto intro!: AList.delete_id)
    then show ?thesis using True Cons.prems by (cases x) auto
  next
    case False
    then show ?thesis using Cons by (cases x) auto
  qed
qed simp

subsection \<open>What each operation leaves alone\<close>

lemma send_fields [simp]:
  "t_pending (fst (send s p t)) = t_pending t" "t_watchers (fst (send s p t)) = t_watchers t"
  "t_deferred (fst (send s p t)) = t_deferred t" "t_shutting_down (fst (send s p t)) = t_shutting_down t"
  "t_options (fst (send s p t)) = t_options t" "t_closed (fst (send s p t)) = t_closed t"
  "t_taken (fst (send s p t)) = t_taken t"
  by (cases rule: send_cases [of s p t]; simp)+

lemma send_answered [simp]: "answered (fst (send s p t)) = answered t"
  by (cases rule: send_cases [of s p t]) (simp_all add: answered_def map_filter_single)

lemma handle_command_fields [simp]:
  "t_taken (fst (handle_command R s c t)) = t_taken t" "t_options (fst (handle_command R s c t)) = t_options t"
  "t_deferred (fst (handle_command R s c t)) = t_deferred t" "t_closed (fst (handle_command R s c t)) = t_closed t"
  "t_shutting_down (fst (handle_command R s c t)) = t_shutting_down t"
  by (cases c; simp add: handle_command_def Let_def settle_def insert_pending_def split: option.splits)+

lemma handle_reply_fields [simp]:
  "t_taken (handle_reply r t) = t_taken t" "t_options (handle_reply r t) = t_options t"
  "t_deferred (handle_reply r t) = t_deferred t" "t_closed (handle_reply r t) = t_closed t"
  by (simp_all add: handle_reply_def settle_def split: option.split)

lemma handle_chunk_Ok:
  assumes "handle_chunk r t = Ok t'"
  obtains "t' = t"
  | p pushes bs where "map_of (t_pending t) (rs_sync r) = Some p" "p_pushes p = Some pushes"
      "t' = record_effect (EPush pushes bs) t"
proof (cases "Option.bind (map_of (t_pending t) (rs_sync r)) p_pushes")
  case None
  then show ?thesis using assms that(1) by (simp add: handle_chunk_def)
next
  case (Some pushes)
  then obtain p where p: "map_of (t_pending t) (rs_sync r) = Some p" "p_pushes p = Some pushes"
    by (auto simp: bind_eq_Some_conv)
  from Some assms obtain bs where "t' = record_effect (EPush pushes bs) t" by (auto simp: handle_chunk_def)
  with p show ?thesis by (rule that(2))
qed

text \<open>An event changes the subscriptions, the flag and the log, and answers nobody.\<close>

definition announces_shutdown :: "string \<Rightarrow> bytes \<Rightarrow> bool" where
  "announces_shutdown key d \<longleftrightarrow> key = ''box.shutdown'' \<and> get d 0 = Some 0xc3"

lemma handle_event_cases:
  assumes "handle_event R alive s r t = Ok t'"
  obtains "t' = t"
  | (unwatched) key d where "event r = Ok (Some (key, d))" "map_of (t_watchers t) key = None"
      "t' = t\<lparr>t_shutting_down := t_shutting_down t \<or> announces_shutdown key d\<rparr>"
  | (watched) key d list p where "event r = Ok (Some (key, d))" "map_of (t_watchers t) key = Some list"
      "watch_packet R REQ_WATCH key = Ok p"
      "t' = t\<lparr>t_shutting_down := t_shutting_down t \<or> announces_shutdown key d,
         t_watchers := AList.update key (filter (\<lambda>(_, s). alive s) list) (t_watchers t),
         t_log := t_log t @ map (\<lambda>(_, s). ENotify s d) (filter (\<lambda>(_, s). alive s) list) @
           (if length p < 2 ^ 32 then [ESent p] else [])\<rparr>"
proof -
  from assms obtain ev where ev: "event r = Ok ev" by (auto simp: handle_event_def)
  show thesis
  proof (cases ev)
    case None
    then show thesis using assms ev that(1) by (simp add: handle_event_def)
  next
    case (Some kd)
    obtain key d where kd: "kd = (key, d)" by (cases kd)
    show thesis
    proof (cases "map_of (t_watchers t) key")
      case None
      then show thesis using assms ev Some kd
        by (intro unwatched [of key d]) (auto simp: handle_event_def announces_shutdown_def Let_def split: if_splits)
    next
      case (Some list)
      obtain p where p: "watch_packet R REQ_WATCH key = Ok p" using watch_packet_Ok by blast
      show thesis
        by (rule watched [of key d list p])
          (use assms ev \<open>ev = Some kd\<close> kd Some p in \<open>auto simp: handle_event_def announces_shutdown_def Let_def
            publish_eq send_def encode_def record_effect_def split: if_splits option.splits\<close>)
    qed
  qed
qed


subsection \<open>The books balance\<close>

text \<open>
  \<open>balance\<close> counts a reply wherever it is; only receiving a command may add to it.  The keys of the two hash
  maps stay distinct, which is what makes the entry of a sync unique.
\<close>

definition keys_distinct :: "task \<Rightarrow> bool" where
  "keys_distinct t \<longleftrightarrow> distinct (map fst (t_pending t)) \<and> distinct (map fst (t_watchers t))"

lemma balance_record: "effect_reply e = None \<Longrightarrow> balance (record_effect e t) = balance t"
  by (simp add: ledger_defs map_filter_single)

lemma balance_send [simp]: "balance (fst (send s p t)) = balance t"
  by (simp add: balance_def pending_replies_def)

lemma balance_settle: "balance (settle r v t) = add_mset r (balance t)"
  by (simp add: ledger_defs settle_def map_filter_single)

lemma balance_insert_pending:
  assumes "distinct (map fst (t_pending t))"
  shows "balance (insert_pending s p t) = add_mset (p_reply p) (balance t)"
  using mset_pending_update [OF assms, of s p]
  by (cases "map_of (t_pending t) s") (simp_all add: insert_pending_def ledger_defs map_filter_single)

lemma handle_command_balance:
  assumes "keys_distinct t"
  shows "balance (fst (handle_command R s c t)) = balance t + mset (command_replies c)"
proof (cases c)
  case (CRequest sync packet reply pushes)
  then show ?thesis
    using assms by (simp add: handle_command_def command_replies_def balance_settle balance_insert_pending keys_distinct_def)
next
  case (CWatch i key w)
  have "balance (t\<lparr>t_watchers := x\<rparr>) = balance t" for x by (simp add: ledger_defs)
  then show ?thesis using CWatch by (simp add: handle_command_def command_replies_def Let_def)
next
  case (CUnwatch i key)
  have "balance (t\<lparr>t_watchers := x\<rparr>) = balance t" for x by (simp add: ledger_defs)
  then show ?thesis using CUnwatch by (simp add: handle_command_def command_replies_def Let_def split: option.split)
qed (simp_all add: handle_command_def command_replies_def)

lemma handle_command_keys:
  assumes "keys_distinct t"
  shows "keys_distinct (fst (handle_command R s c t))"
  using assms by (cases c)
    (simp_all add: handle_command_def keys_distinct_def Let_def settle_def insert_pending_def distinct_update
      distinct_delete split: option.splits)

lemma balance_handle_reply:
  assumes "distinct (map fst (t_pending t))"
  shows "balance (handle_reply r t) = balance t"
proof (cases "map_of (t_pending t) (rs_sync r)")
  case (Some p)
  then show ?thesis
    using mset_pending_delete [OF assms Some]
    by (simp add: handle_reply_def ledger_defs settle_def map_filter_single)
qed (simp add: handle_reply_def)

text \<open>The response handler as a whole, with the schema version put aside.\<close>

definition note_schema :: "response \<Rightarrow> task \<Rightarrow> task" where
  "note_schema r t = (case rs_schema_version r of
     Some version \<Rightarrow> t\<lparr>t_schema_version := max (t_schema_version t) version\<rparr> | None \<Rightarrow> t)"

lemma note_schema_fields [simp]:
  "t_pending (note_schema r t) = t_pending t" "t_watchers (note_schema r t) = t_watchers t"
  "t_deferred (note_schema r t) = t_deferred t" "t_shutting_down (note_schema r t) = t_shutting_down t"
  "t_options (note_schema r t) = t_options t" "t_closed (note_schema r t) = t_closed t"
  "t_taken (note_schema r t) = t_taken t" "t_log (note_schema r t) = t_log t"
  by (simp_all add: note_schema_def split: option.split)

lemma handle_response_alt:
  "handle_response R alive s r t =
    (if rs_kind r = KOk \<or> rs_kind r = KError then Ok (handle_reply r (note_schema r t))
     else if rs_kind r = KChunk then handle_chunk r (note_schema r t)
     else handle_event R alive s r (note_schema r t))"
  by (simp add: handle_response_def note_schema_def Let_def split: kind.splits)

lemma balance_cong:
  "t_log t' = t_log t \<Longrightarrow> t_pending t' = t_pending t \<Longrightarrow> t_deferred t' = t_deferred t \<Longrightarrow> balance t' = balance t"
  by (simp add: ledger_defs)

lemma balance_note_schema [simp]: "balance (note_schema r t) = balance t"
  by (rule balance_cong) simp_all

lemma keys_note_schema [simp]: "keys_distinct (note_schema r t) = keys_distinct t"
  by (simp add: keys_distinct_def)

lemma keys_handle_reply: "keys_distinct t \<Longrightarrow> keys_distinct (handle_reply r t)"
  by (auto simp: keys_distinct_def handle_reply_def settle_def distinct_delete split: option.split)

lemma handle_response_balance:
  assumes "keys_distinct t" "handle_response R alive s r t = Ok t'"
  shows "balance t' = balance t" "keys_distinct t'" "t_taken t' = t_taken t" "t_deferred t' = t_deferred t"
    "t_options t' = t_options t" "t_closed t' = t_closed t"
proof -
  let ?t = "note_schema r t"
  have "balance t' = balance t \<and> keys_distinct t' \<and> t_taken t' = t_taken t \<and> t_deferred t' = t_deferred t \<and>
    t_options t' = t_options t \<and> t_closed t' = t_closed t"
  proof (cases "rs_kind r")
    case KChunk
    then have "handle_chunk r ?t = Ok t'" using assms(2) by (simp add: handle_response_alt)
    then show ?thesis using assms(1) by (cases rule: handle_chunk_Ok) (simp_all add: keys_distinct_def balance_record)
  next
    case KEvent
    then have "handle_event R alive s r ?t = Ok t'" using assms(2) by (simp add: handle_response_alt)
    then show ?thesis using assms(1)
      by (cases rule: handle_event_cases)
        (simp_all add: keys_distinct_def distinct_update ledger_defs answered_notify map_filter_single)
  qed (use assms keys_handle_reply [of ?t r] balance_handle_reply [of ?t r] in
      \<open>auto simp: handle_response_alt keys_distinct_def [of t]\<close>)
  then show "balance t' = balance t" "keys_distinct t'" "t_taken t' = t_taken t" "t_deferred t' = t_deferred t"
    "t_options t' = t_options t" "t_closed t' = t_closed t" by simp_all
qed


subsection \<open>Replies go where they belong\<close>

definition from_request :: "command list \<Rightarrow> u64 \<Rightarrow> reply \<Rightarrow> pushes option \<Rightarrow> bool" where
  "from_request cs s r ps \<longleftrightarrow> (\<exists>packet. CRequest s packet r ps \<in> set cs)"

definition matched :: "task \<Rightarrow> bool" where
  "matched t \<longleftrightarrow>
    (\<forall>(s, p) \<in> set (t_pending t). from_request (t_taken t) s (p_reply p) (p_pushes p)) \<and>
    set (t_deferred t) \<subseteq> set (t_taken t) \<and>
    (\<forall>r v. ESettle r (Ok v) \<in> set (t_log t) \<longrightarrow>
      (\<exists>ps. from_request (t_taken t) (rs_sync v) r ps) \<and> rs_kind v \<in> {KOk, KError})"

text \<open>A change that keeps the commands and adds no successful answer and no pending entry keeps the match.\<close>

lemma matched_mono:
  assumes "matched t" "t_taken t' = t_taken t" "set (t_deferred t') \<subseteq> set (t_deferred t)"
    and "set (t_pending t') \<subseteq> set (t_pending t)"
    and "t_log t' = t_log t @ es" "\<And>r v. ESettle r (Ok v) \<notin> set es"
  shows "matched t'"
  using assms unfolding matched_def by (auto; blast)

lemma set_alist_update: "set (AList.update k v xs) \<subseteq> insert (k, v) (set xs)"
  by (induction xs) auto

lemma set_alist_delete: "set (AList.delete k xs) \<subseteq> set xs"
  by (auto simp: AList.delete_eq)

text \<open>Effects that neither answer a request with a response nor push a chunk.\<close>

fun plain :: "effect \<Rightarrow> bool" where
  "plain (ESettle r v) = (case v of Ok _ \<Rightarrow> False | _ \<Rightarrow> True)"
| "plain (EPush p b) = False"
| "plain _ = True"

lemma plain_no_answer: "list_all plain es \<Longrightarrow> ESettle r (Ok v) \<notin> set es"
  by (auto simp: list_all_iff)

lemma handle_command_log:
  "\<exists>es. t_log (fst (handle_command R s c t)) = t_log t @ es \<and> list_all plain es"
proof -
  have send: "\<exists>es. t_log (fst (send s p t')) = t_log t' @ es \<and> list_all plain es" for p t'
    by (cases rule: send_cases [of s p t']) auto
  show ?thesis
  proof (cases c)
    case (CRequest sync packet reply pushes)
    obtain es where "t_log (insert_pending sync p t) = t_log t @ es" "list_all plain es" for p
      by (cases "map_of (t_pending t) sync") (auto simp: insert_pending_def)
    then show ?thesis
      using CRequest send [of "Ok packet" "insert_pending sync \<lparr>p_reply = reply, p_pushes = pushes\<rparr> t"]
      by (auto simp: handle_command_def settle_def)
  next
    case (CWatch i key w)
    then show ?thesis
      using send [of "watch_packet R REQ_WATCH key" "t\<lparr>t_watchers := x\<rparr>" for x]
      by (auto simp: handle_command_def Let_def)
  next
    case (CUnwatch i key)
    then show ?thesis
      using send [of "watch_packet R REQ_UNWATCH key" "t\<lparr>t_watchers := x\<rparr>" for x]
      by (auto simp: handle_command_def Let_def split: option.split)
  qed (use send [of _ t] in \<open>auto simp: handle_command_def\<close>)
qed

lemma handle_command_pending:
  "t_pending (fst (handle_command R s c t)) = (case c of
     CRequest sync _ reply pushes \<Rightarrow>
       if t_shutting_down t then t_pending t
       else AList.update sync \<lparr>p_reply = reply, p_pushes = pushes\<rparr> (t_pending t)
   | _ \<Rightarrow> t_pending t)"
  by (cases c) (simp_all add: handle_command_def Let_def settle_def insert_pending_def split: option.split)

lemma handle_command_matched:
  assumes "matched t" "c \<in> set (t_taken t)"
  shows "matched (fst (handle_command R s c t))"
proof -
  obtain es where es: "t_log (fst (handle_command R s c t)) = t_log t @ es" "\<And>r v. ESettle r (Ok v) \<notin> set es"
    using handle_command_log plain_no_answer by blast
  have "from_request (t_taken t) sync (p_reply p) (p_pushes p)"
    if "(sync, p) \<in> set (t_pending (fst (handle_command R s c t)))" for sync p
  proof (cases c)
    case (CRequest sync' packet reply pushes)
    then have "(sync, p) \<in> set (t_pending t) \<or> (sync, p) = (sync', \<lparr>p_reply = reply, p_pushes = pushes\<rparr>)"
      using that set_alist_update [of sync' _ "t_pending t"]
      by (auto simp: handle_command_pending split: if_splits)
    then show ?thesis using assms CRequest by (auto simp: matched_def from_request_def)
  qed (use that assms(1) in \<open>auto simp: handle_command_pending matched_def\<close>)
  then show ?thesis using assms(1) es unfolding matched_def by (auto; blast)
qed

lemma handle_reply_matched:
  assumes "matched t" "rs_kind r \<in> {KOk, KError}"
  shows "matched (handle_reply r t)"
proof (cases "map_of (t_pending t) (rs_sync r)")
  case (Some p)
  then have "(rs_sync r, p) \<in> set (t_pending t)" by (rule map_of_SomeD)
  then have "from_request (t_taken t) (rs_sync r) (p_reply p) (p_pushes p)" using assms(1) by (auto simp: matched_def)
  then show ?thesis
    using assms Some set_alist_delete [of "rs_sync r" "t_pending t"] by (fastforce simp: matched_def handle_reply_def settle_def)
qed (use assms in \<open>simp add: handle_reply_def\<close>)

lemma handle_response_matched:
  assumes "matched t" "handle_response R alive s r t = Ok t'"
  shows "matched t'"
proof -
  let ?t = "note_schema r t"
  have m: "matched ?t" by (rule matched_mono [OF assms(1), where es = "[]"]) simp_all
  show ?thesis
  proof (cases "rs_kind r")
    case KChunk
    then have "handle_chunk r ?t = Ok t'" using assms(2) by (simp add: handle_response_alt)
    then show ?thesis
    proof (cases rule: handle_chunk_Ok)
      case (2 p pushes bs)
      show ?thesis by (rule matched_mono [OF m]) (auto simp: 2)
    qed (use m in simp)
  next
    case KEvent
    then have "handle_event R alive s r ?t = Ok t'" using assms(2) by (simp add: handle_response_alt)
    then show ?thesis
    proof (cases rule: handle_event_cases)
      case (unwatched key d)
      show ?thesis by (rule matched_mono [OF m, where es = "[]"]) (auto simp: unwatched)
    next
      case (watched key d list p)
      show ?thesis by (rule matched_mono [OF m]) (auto simp: watched)
    qed (use m in simp)
  next
    case KOk
    then show ?thesis using assms(2) handle_reply_matched [OF m, of r] by (simp add: handle_response_alt)
  next
    case KError
    then show ?thesis using assms(2) handle_reply_matched [OF m, of r] by (simp add: handle_response_alt)
  qed
qed

subsection \<open>The invariant of the task\<close>

text \<open>
  \<open>books rs t\<close>: the books balance but for the replies \<open>rs\<close> of the command at hand, every reply belongs to a
  request that was received, and the deferred commands are bounded and have no \<open>Close\<close> among them.
\<close>

definition books :: "reply list \<Rightarrow> task \<Rightarrow> bool" where
  "books rs t \<longleftrightarrow> keys_distinct t \<and> matched t \<and> balance t + mset rs = mset (replies_of (t_taken t)) \<and>
    length (t_deferred t) \<le> MAX_DEFERRED \<and> CClose \<notin> set (t_deferred t)"

lemma books_new: "books [] (task_new options)"
  by (simp add: books_def task_new_def keys_distinct_def matched_def ledger_defs List.map_filter_def)

lemma books_closed [simp]: "books rs (t\<lparr>t_closed := b\<rparr>) = books rs t"
  by (simp add: books_def keys_distinct_def matched_def ledger_defs)

lemma books_take:
  assumes "books [] t"
  shows "books (command_replies c) (take_command (Some c) t)"
proof -
  have "matched (take_command (Some c) t)"
    using assms by (fastforce simp: books_def matched_def take_command_def from_request_def)
  then show ?thesis
    using assms by (simp add: books_def take_command_def keys_distinct_def ledger_defs)
qed

lemma books_handle_command:
  assumes "books (command_replies c) t" "c \<in> set (t_taken t)"
  shows "books [] (fst (handle_command R s c t))"
  using assms handle_command_keys handle_command_matched handle_command_balance
  by (simp add: books_def)

lemma books_handle_response:
  assumes "books [] t" "handle_response R alive s r t = Ok t'"
  shows "books [] t'"
  using assms handle_response_balance [OF _ assms(2)] handle_response_matched [OF _ assms(2)]
  by (simp add: books_def)

lemma books_pop:
  assumes "books [] t" "t_deferred t = c # rest"
  shows "books (command_replies c) (t\<lparr>t_deferred := rest\<rparr>)" "c \<in> set (t_taken (t\<lparr>t_deferred := rest\<rparr>))"
  using assms by (auto simp: books_def keys_distinct_def matched_def ledger_defs ac_simps)

lemma books_fail_pending:
  assumes "books rs t"
  shows "books rs (fail_pending dbg e t)"
proof -
  have "matched (fail_pending dbg e t)"
    by (rule matched_mono [of t]) (use assms in \<open>auto simp: fail_pending_eq books_def\<close>)
  then show ?thesis
    using assms by (auto simp: books_def keys_distinct_def balance_fail_pending) (simp_all add: fail_pending_eq)
qed

lemma books_fail_deferred:
  assumes "books rs t"
  shows "books rs (fail_deferred t)"
proof -
  have "matched (fail_deferred t)"
    by (rule matched_mono [of t]) (use assms in \<open>auto simp: fail_deferred_eq books_def\<close>)
  then show ?thesis
    using assms by (auto simp: books_def keys_distinct_def balance_fail_deferred) (simp_all add: fail_deferred_eq)
qed

lemma books_drop_task:
  assumes "books rs t"
  shows "books rs (drop_task t)"
proof -
  have "matched (drop_task t)"
    by (rule matched_mono [of t]) (use assms in \<open>auto simp: drop_task_eq books_def\<close>)
  then show ?thesis
    using assms by (auto simp: books_def keys_distinct_def balance_drop_task) (simp_all add: drop_task_eq)
qed

lemma books_defer:
  assumes "books (command_replies c) t" "c \<in> set (t_taken t)" "c \<noteq> CClose"
  shows "books [] (defer_command c t)"
proof (cases "length (t_deferred t) \<ge> MAX_DEFERRED")
  case True
  have "matched (fail_request c t)"
    by (rule matched_mono [of t]) (use assms in \<open>auto simp: fail_request_eq books_def\<close>)
  then show ?thesis
    using True assms by (auto simp: defer_command_def books_def keys_distinct_def balance_fail_request)
      (simp_all add: fail_request_eq)
next
  case False
  then show ?thesis
    using assms by (auto simp: defer_command_def books_def keys_distinct_def ledger_defs matched_def ac_simps)
qed

lemma resubscribe_Ok:
  assumes "resubscribe R keys sents t = Ok t'"
  shows "\<exists>ps. t' = t\<lparr>t_log := t_log t @ map ESent ps\<rparr>"
  using assms
proof (induction keys arbitrary: sents t)
  case Nil
  then show ?case by (intro exI [of _ "[]"]) simp
next
  case (Cons key keys)
  let ?s = "case sents of s # _ \<Rightarrow> s | [] \<Rightarrow> None" and ?p = "watch_packet R REQ_WATCH key"
  show ?case
  proof (cases rule: send_cases [of ?s ?p t])
    case (written p)
    show ?thesis
    proof (cases ?s)
      case None
      with written Cons.prems have "resubscribe R keys (tl sents) (record_effect (ESent p) t) = Ok t'" by simp
      from Cons.IH [OF this] obtain ps where
        "t' = (record_effect (ESent p) t)\<lparr>t_log := t_log (record_effect (ESent p) t) @ map ESent ps\<rparr>" by blast
      then have "t' = t\<lparr>t_log := t_log t @ map ESent (p # ps)\<rparr>" by (simp add: record_effect_def)
      then show ?thesis by blast
    next
      case (Some e)
      with written Cons.prems have "t' = t\<lparr>t_log := t_log t @ map ESent [p]\<rparr>" by (simp add: record_effect_def)
      then show ?thesis by blast
    qed
  next
    case (refused e)
    with Cons.prems have "t' = t\<lparr>t_log := t_log t @ map ESent []\<rparr>" by simp
    then show ?thesis by blast
  next
    case panic
    then show ?thesis using watch_packet_Ok by (metis outcome.distinct(3))
  qed
qed

lemma resubscribe_no_panic: "resubscribe R keys sents t \<noteq> Panic \<and> resubscribe R keys sents t \<noteq> Err e"
proof (induction keys arbitrary: sents t)
  case (Cons key keys)
  obtain p where "watch_packet R REQ_WATCH key = Ok p" using watch_packet_Ok by blast
  then show ?case
    using Cons by (cases rule: send_cases [of "case sents of s # _ \<Rightarrow> s | [] \<Rightarrow> None" "watch_packet R REQ_WATCH key" t])
      (auto split: option.split)
qed simp

lemma answered_sent: "List.map_filter effect_reply (map ESent ps) = []"
  by (induction ps) (auto simp: List.map_filter_def)

lemma books_resubscribe:
  assumes "books [] t" "resubscribe R keys sents t = Ok t'"
  shows "books [] t'"
proof -
  from resubscribe_Ok [OF assms(2)] obtain ps where t': "t' = t\<lparr>t_log := t_log t @ map ESent ps\<rparr>" by blast
  have "matched t'" by (rule matched_mono [of t]) (use assms in \<open>auto simp: t' books_def\<close>)
  then show ?thesis using assms(1) by (auto simp: t' books_def keys_distinct_def ledger_defs answered_sent)
qed

subsection \<open>The invariant of the loop\<close>

definition machine_inv :: "phase \<times> task \<Rightarrow> bool" where
  "machine_inv m \<longleftrightarrow> (case m of (ph, t) \<Rightarrow> books [] t \<and>
    (ph = Finished \<longrightarrow> t_pending t = [] \<and> t_deferred t = [] \<and> t_closed t) \<and>
    (ph \<notin> {Finished, Panicked} \<longrightarrow> \<not> t_closed t) \<and>
    ((\<exists>d. ph = Waiting d \<or> ph = Connecting d) \<longrightarrow> t_pending t = [] \<and> (\<exists>mn mx. reconnect_policy (t_options t) = Backoff mn mx)))"

lemma fail_pending_fields [simp]:
  "t_pending (fail_pending dbg e t) = []" "t_closed (fail_pending dbg e t) = t_closed t"
  "t_options (fail_pending dbg e t) = t_options t"
  by (simp_all add: fail_pending_eq)

lemma give_up_inv: "books [] t \<Longrightarrow> machine_inv (give_up t)"
  by (simp add: give_up_def machine_inv_def books_drop_task books_fail_deferred) (simp add: drop_task_eq fail_deferred_eq)

lemma enter_reconnect_inv:
  assumes "books [] t" "t_pending t = []" "\<not> t_closed t"
  shows "machine_inv (enter_reconnect t)"
  using assms give_up_inv [OF assms(1)]
  by (auto simp: enter_reconnect_def machine_inv_def split: reconnect.split)

lemma after_select_inv:
  assumes "books [] t" "\<not> t_closed t"
  shows "machine_inv (after_select dbg (t, out))"
proof (cases out)
  case (Ok oc)
  show ?thesis
  proof (cases oc)
    case Continue
    then show ?thesis using Ok assms by (simp add: after_select_def machine_inv_def)
  next
    case CloseLink
    then show ?thesis using Ok assms
      by (simp add: after_select_def machine_inv_def books_drop_task books_fail_pending) (simp add: drop_task_eq fail_pending_eq)
  next
    case (Lost e)
    then show ?thesis using Ok assms
      by (simp add: after_select_def fail_link_def enter_reconnect_inv books_fail_pending)
  qed
qed (use assms in \<open>simp_all add: after_select_def machine_inv_def\<close>)

lemma take_command_fields [simp]:
  "t_closed (take_command c t) = t_closed t" "t_options (take_command c t) = t_options t"
  "t_pending (take_command c t) = t_pending t" "t_deferred (take_command c t) = t_deferred t"
  by (simp_all add: take_command_def split: option.split)

lemma select_command_books:
  assumes "books [] t"
  shows "books [] (fst (select_command R c s (take_command c t)))" "t_closed (fst (select_command R c s (take_command c t))) = t_closed t"
    "t_options (fst (select_command R c s (take_command c t))) = t_options t"
proof -
  let ?t = "take_command c t"
  have "books [] (fst (select_command R c s ?t)) \<and> t_closed (fst (select_command R c s ?t)) = t_closed t \<and>
    t_options (fst (select_command R c s ?t)) = t_options t"
  proof (cases c)
    case None
    then show ?thesis using assms by (simp add: select_command_def take_command_def)
  next
    case (Some c')
    have b: "books (command_replies c') ?t" "c' \<in> set (t_taken ?t)"
      using books_take [OF assms, of c'] Some by (simp_all add: take_command_def)
    show ?thesis
    proof (cases "c' = CClose")
      case True
      then show ?thesis using b(1) Some by (simp add: select_command_def command_replies_def)
    next
      case False
      then have "fst (select_command R c s ?t) = fst (handle_command R s c' ?t)"
        using Some by (cases c') (simp_all add: select_command_def split: prod.split outcome.split)
      then show ?thesis using books_handle_command [OF b, of R s] by simp
    qed
  qed
  then show "books [] (fst (select_command R c s ?t))" "t_closed (fst (select_command R c s ?t)) = t_closed t"
    "t_options (fst (select_command R c s ?t)) = t_options t" by simp_all
qed

lemma select_packet_books:
  assumes "books [] t"
  shows "books [] (fst (select_packet R p alive s t))" "t_closed (fst (select_packet R p alive s t)) = t_closed t"
    "t_options (fst (select_packet R p alive s t)) = t_options t"
  using assms books_handle_response [OF assms] handle_response_balance(5,6) [of t R alive s]
  by (auto simp: select_packet_def books_def split: option.split outcome.split)

lemma drain_step_inv:
  assumes "books [] t" "\<not> t_closed t"
  shows "machine_inv (drain_step R dbg s t)"
proof (cases "t_deferred t")
  case Nil
  then show ?thesis using assms by (simp add: drain_step_def machine_inv_def)
next
  case (Cons c rest)
  obtain t' out where h: "handle_command R s c (t\<lparr>t_deferred := rest\<rparr>) = (t', out)" by fastforce
  have "books [] t'" "\<not> t_closed t'"
    using books_handle_command [OF books_pop [OF assms(1) Cons], of R s] assms(2)
      handle_command_fields(4) [of R s c "t\<lparr>t_deferred := rest\<rparr>"] h by simp_all
  then show ?thesis using h Cons
    by (cases out) (simp_all add: drain_step_def machine_inv_def books_fail_pending fail_link_def)
qed

lemma wait_step_inv:
  assumes "machine_inv (Waiting d, t)"
  shows "machine_inv (wait_step now None d t)" "machine_inv (wait_step now (Some c) d t)"
proof -
  have b: "books [] t" "\<not> t_closed t" "t_pending t = []" "\<exists>mn mx. reconnect_policy (t_options t) = Backoff mn mx"
    using assms by (simp_all add: machine_inv_def)
  then show "machine_inv (wait_step now None d t)" by (simp add: wait_step_def machine_inv_def)
  show "machine_inv (wait_step now (Some c) d t)"
  proof (cases c)
    case None
    then show ?thesis using b give_up_inv [OF b(1)] by (simp add: wait_step_def take_command_def machine_inv_def)
  next
    case (Some c')
    let ?t = "take_command (Some c') t"
    have bt: "books (command_replies c') ?t" "c' \<in> set (t_taken ?t)"
      using books_take [OF b(1), of c'] by (simp_all add: take_command_def)
    show ?thesis
    proof (cases "c' = CClose")
      case True
      then have "books [] ?t" using bt(1) by (simp add: command_replies_def)
      then show ?thesis using True Some give_up_inv b by (simp add: wait_step_def machine_inv_def Let_def)
    next
      case False
      have d: "t_closed (defer_command c' ?t) = t_closed ?t" "t_pending (defer_command c' ?t) = t_pending ?t"
        "t_options (defer_command c' ?t) = t_options ?t"
        by (simp_all add: defer_command_def fail_request_eq)
      show ?thesis
      proof (cases "now + d > INSTANT_MAX")
        case True
        then show ?thesis using b(1) by (simp add: wait_step_def machine_inv_def)
      next
        case False
        then show ?thesis using Some \<open>c' \<noteq> CClose\<close> b d books_defer [OF bt]
          by (cases c') (simp_all add: wait_step_def machine_inv_def Let_def)
      qed
    qed
  qed
qed


lemma connect_step_inv:
  assumes "machine_inv (Connecting d, t)"
  shows "machine_inv (connect_step R shaken sents d t)"
proof -
  have b: "books [] t" "\<not> t_closed t" "t_pending t = []" "\<exists>mn mx. reconnect_policy (t_options t) = Backoff mn mx"
    using assms by (simp_all add: machine_inv_def)
  have "\<not> t_closed t' \<and> books [] t'" if "resubscribe R keys sents t = Ok t'" for keys t'
    using resubscribe_Ok [OF that] books_resubscribe [OF b(1) that] b(2) by auto
  then show ?thesis using b
    by (auto simp: connect_step_def machine_inv_def split: outcome.split option.split)
qed

lemma task_step_inv:
  assumes "machine_inv m" "task_step R dbg i m = Some m'"
  shows "machine_inv m'"
proof -
  obtain ph t where m: "m = (ph, t)" by (cases m)
  have b: "books [] t" using assms(1) by (simp add: m machine_inv_def)
  have open_: "\<not> t_closed t" if "ph \<in> {Draining, Selecting}" using assms(1) that by (auto simp: m machine_inv_def)
  from assms(2) [unfolded m] show ?thesis
  proof (cases rule: task_step_cases)
    case (Drain s)
    then show ?thesis using drain_step_inv [OF b open_] by simp
  next
    case (Command c s)
    then show ?thesis using after_select_inv select_command_books [OF b, of R c s] open_ by (metis insertCI prod.collapse)
  next
    case (Packet p alive s)
    then show ?thesis using after_select_inv select_packet_books [OF b, of R p alive s] open_ by (metis insertCI prod.collapse)
  next
    case (Elapsed now d)
    then show ?thesis using wait_step_inv(1) assms(1) m by simp
  next
    case (Wake now c d)
    then show ?thesis using wait_step_inv(2) assms(1) m by simp
  next
    case (Handshake shaken sents d)
    then show ?thesis using connect_step_inv assms(1) m by simp
  qed
qed

abbreviation start :: "connect_options \<Rightarrow> phase \<times> task" where
  "start options \<equiv> (Draining, task_new options)"

interpretation loop: machine_invariant "task_step R dbg" legal "start options" machine_inv
  for R :: rmp and dbg :: "duration \<Rightarrow> string" and legal :: "input \<Rightarrow> bool" and options :: connect_options
proof unfold_locales
  show "machine_inv (start options)" using books_new by (simp add: machine_inv_def) (simp add: task_new_def)
qed (rule task_step_inv)

subsection \<open>Options never change, delays stay in range\<close>

definition delay_inv :: "connect_options \<Rightarrow> phase \<times> task \<Rightarrow> bool" where
  "delay_inv options m \<longleftrightarrow> (case m of (ph, t) \<Rightarrow> t_options t = options \<and>
    (\<forall>d. ph = Waiting d \<or> ph = Connecting d \<longrightarrow>
      (\<exists>mn mx. reconnect_policy options = Backoff mn mx \<and> min mn mx \<le> d \<and> d \<le> max mn mx)) \<and>
    (\<forall>d. ph = Connecting d \<longrightarrow> d * 2 \<le> DURATION_MAX))"

lemma give_up_options: "delay_inv options (give_up t) \<longleftrightarrow> t_options t = options"
  by (simp add: give_up_def delay_inv_def drop_task_eq fail_deferred_eq)

lemma enter_reconnect_delay: "t_options t = options \<Longrightarrow> delay_inv options (enter_reconnect t)"
  using give_up_options [of options t]
  by (auto simp: enter_reconnect_def delay_inv_def split: reconnect.split)

lemma after_select_delay: "t_options t = options \<Longrightarrow> delay_inv options (after_select dbg (t, out))"
  using enter_reconnect_delay [of "fail_pending dbg Closed t" options]
  by (auto simp: after_select_def delay_inv_def fail_link_def drop_task_eq split: outcome.split run_outcome.split)

lemma instant_duration: "now + d \<le> INSTANT_MAX \<Longrightarrow> d * 2 \<le> DURATION_MAX"
  by (simp add: INSTANT_MAX_def DURATION_MAX_def)

lemma drain_step_frame:
  "t_options (snd (drain_step R dbg s t)) = t_options t" "fst (drain_step R dbg s t) \<in> {Draining, Selecting, Panicked}"
proof -
  have "t_options (snd (drain_step R dbg s t)) = t_options t \<and> fst (drain_step R dbg s t) \<in> {Draining, Selecting, Panicked}"
  proof (cases "t_deferred t")
    case (Cons c rest)
    obtain t' out where "handle_command R s c (t\<lparr>t_deferred := rest\<rparr>) = (t', out)" by fastforce
    then show ?thesis
      using Cons handle_command_fields(2) [of R s c "t\<lparr>t_deferred := rest\<rparr>"]
      by (cases out) (simp_all add: drain_step_def fail_link_def)
  qed (simp add: drain_step_def)
  then show "t_options (snd (drain_step R dbg s t)) = t_options t"
    "fst (drain_step R dbg s t) \<in> {Draining, Selecting, Panicked}" by simp_all
qed

lemma task_step_delay:
  assumes "machine_inv m" "delay_inv options m" "task_step R dbg i m = Some m'"
  shows "delay_inv options m'"
proof -
  obtain ph t where m: "m = (ph, t)" by (cases m)
  have b: "books [] t" "t_options t = options" using assms(1,2) by (simp_all add: m machine_inv_def delay_inv_def)
  have d: "delay_inv options (ph, t)" using assms(2) m by simp
  from assms(3) [unfolded m] show ?thesis
  proof (cases rule: task_step_cases)
    case (Drain s)
    note ds = Drain(3)
    then show ?thesis
      using drain_step_frame [of R dbg s t] b(2) by (cases "drain_step R dbg s t") (auto simp: delay_inv_def)
  next
    case (Command c s)
    then show ?thesis using after_select_delay select_command_books(3) [OF b(1), of R c s] b(2) by (metis prod.collapse)
  next
    case (Packet p alive s)
    then show ?thesis using after_select_delay select_packet_books(3) [OF b(1), of R p alive s] b(2) by (metis prod.collapse)
  next
    case (Elapsed now e)
    then show ?thesis using d instant_duration [of now e] by (simp add: wait_step_def delay_inv_def)
  next
    case (Wake now c e)
    note e = Wake(2,3)
    have "t_options (defer_command c' (take_command c t)) = options" for c'
      using b(2) by (simp add: defer_command_def fail_request_eq)
    then show ?thesis using d e instant_duration [of now e] give_up_options [of options "take_command c t"] b(2)
      by (auto simp: wait_step_def delay_inv_def Let_def split: option.split command.split)
  next
    case (Handshake shaken sents e)
    note e = Handshake(2,3)
    from d e(1) obtain mn mx where r: "reconnect_policy options = Backoff mn mx" "min mn mx \<le> e" "e \<le> max mn mx"
      by (auto simp: delay_inv_def)
    show ?thesis
    proof (cases shaken)
      case (Ok u)
      then show ?thesis using e b(2) resubscribe_Ok [of R _ sents t]
        by (fastforce simp: connect_step_def delay_inv_def split: outcome.split)
    next
      case (Err er)
      have "min mn mx \<le> min (e * 2) mx" "min (e * 2) mx \<le> max mn mx" using r(2) by auto
      then show ?thesis using e b(2) r(1) Err
        by (auto simp: connect_step_def delay_inv_def next_delay_def)
    qed (use e b(2) in \<open>simp add: connect_step_def delay_inv_def\<close>)
  qed
qed

interpretation delay: machine_invariant "task_step R dbg" legal "start options" "delay_inv options"
  for R :: rmp and dbg :: "duration \<Rightarrow> string" and legal :: "input \<Rightarrow> bool" and options :: connect_options
proof unfold_locales
  show "delay_inv options (start options)" by (simp add: delay_inv_def task_new_def)
qed (use task_step_delay loop.reach_inv in blast)

subsection \<open>When the task panics\<close>

text \<open>
  The inputs that can occur: a packet is what the decoder made of at most \<open>MAX_PACKET_LEN\<close> bytes, and the
  handshake returns.  The clock is any number.
\<close>

definition input_legal :: "rmp \<Rightarrow> rmpv \<Rightarrow> input \<Rightarrow> bool" where
  "input_legal R V i = (case i of
     IPacket (Some (Ok r)) _ _ \<Rightarrow> \<exists>packet. length packet \<le> MAX_PACKET_LEN \<and> response_parse R V packet = Ok r
   | IPacket (Some Panic) _ _ \<Rightarrow> False
   | IHandshake Panic _ \<Rightarrow> False
   | _ \<Rightarrow> True)"

text \<open>Waking up past the largest instant.\<close>

definition clock_overflow :: "input \<Rightarrow> phase \<Rightarrow> bool" where
  "clock_overflow i ph \<longleftrightarrow>
    (\<exists>now d. (i = IElapsed now \<or> (\<exists>c. i = IWake now c)) \<and> ph = Waiting d \<and> INSTANT_MAX < now + d)"

lemma send_no_panic: "snd (send s (Ok p) t) \<noteq> Panic" "snd (send s (watch_packet R ty key) t) \<noteq> Panic"
proof -
  show "snd (send s (Ok p) t) \<noteq> Panic" for p
    by (cases rule: send_cases [of s "Ok p" t]) (auto split: option.split)
  then show "snd (send s (watch_packet R ty key) t) \<noteq> Panic" using watch_packet_Ok by metis
qed

lemma handle_command_no_panic: "c \<noteq> CClose \<Longrightarrow> snd (handle_command R s c t) \<noteq> Panic"
  by (cases c) (auto simp: handle_command_def Let_def send_no_panic split: option.split)

lemma data_bytes_total: "response_inv r \<Longrightarrow> \<exists>bs. data_bytes r = Ok bs"
  using response_slice_value [of r "rs_data r"] by (auto simp: data_bytes_def response_inv_def)

lemma event_total: "response_inv r \<Longrightarrow> \<exists>ev. event r = Ok ev"
  using response_slice_value [of r "rs_event_data r"] by (auto simp: event_def response_inv_def split: option.split)

lemma handle_response_total:
  assumes "response_inv r"
  shows "\<exists>t'. handle_response R alive s r t = Ok t'"
proof -
  have "\<exists>t'. handle_chunk r t = Ok t'" for t
    using data_bytes_total [OF assms] by (auto simp: handle_chunk_def split: option.split)
  moreover have "\<exists>t'. handle_event R alive s r t = Ok t'" for t
  proof -
    have tail: "(case x of (t, Panic) \<Rightarrow> Panic | (t, _) \<Rightarrow> Ok t) = Ok (fst x)" if "snd x \<noteq> Panic"
      for x :: "task \<times> unit result"
      using that by (cases x; cases "snd x") auto
    obtain ev where ev: "event r = Ok ev" using event_total [OF assms] by blast
    show ?thesis
    proof (cases ev)
      case (Some kd)
      then show ?thesis using ev
        by (cases kd) (simp add: handle_event_def Let_def tail [OF send_no_panic(2)] split: option.split)
    qed (use ev in \<open>simp add: handle_event_def\<close>)
  qed
  ultimately show ?thesis by (simp add: handle_response_alt)
qed


lemma after_select_safe: "\<exists>oc. snd x = Ok oc \<Longrightarrow> fst (after_select dbg x) \<noteq> Panicked"
  by (cases x) (auto simp: after_select_def enter_reconnect_def give_up_def split: run_outcome.splits reconnect.splits)

lemma select_command_safe: "\<exists>oc. snd (select_command R c s t) = Ok oc"
proof (cases c)
  case (Some c')
  show ?thesis
  proof (cases "c' = CClose")
    case False
    obtain t' out where h: "handle_command R s c' t = (t', out)" by fastforce
    moreover from h have "out \<noteq> Panic" using handle_command_no_panic [OF False, of R s t] by simp
    ultimately show ?thesis using Some False by (cases c'; cases out) (auto simp: select_command_def)
  qed (simp add: Some select_command_def)
qed (simp add: select_command_def)

lemma select_packet_safe:
  assumes "input_legal R V (IPacket p alive s)"
  shows "\<exists>oc. snd (select_packet R p alive s t) = Ok oc"
proof (cases p)
  case (Some r)
  show ?thesis
  proof (cases r)
    case (Ok v)
    then obtain packet where "length packet \<le> MAX_PACKET_LEN" "response_parse R V packet = Ok v"
      using assms Some by (auto simp: input_legal_def)
    then have "response_inv v" using response_parse_inv by (simp add: MAX_PACKET_LEN_def)
    then obtain t' where "handle_response R alive s v t = Ok t'" using handle_response_total by blast
    then show ?thesis using Some Ok by (simp add: select_packet_def)
  qed (use assms Some in \<open>simp_all add: select_packet_def input_legal_def\<close>)
qed (simp add: select_packet_def)

lemma task_step_panics:
  assumes "machine_inv (ph, t)" "delay_inv options (ph, t)" "input_legal R V i" "task_step R dbg i (ph, t) = Some m'"
  shows "fst m' = Panicked \<longleftrightarrow> clock_overflow i ph"
proof -
  have noclose: "CClose \<notin> set (t_deferred t)"
    using assms(1,4) by (auto simp: machine_inv_def books_def split: phase.splits)
  from assms(4) show ?thesis
  proof (cases rule: task_step_cases)
    case (Drain s)
    note ds = Drain(3)
    show ?thesis
    proof (cases "t_deferred t")
      case (Cons c rest)
      obtain t' out where h: "handle_command R s c (t\<lparr>t_deferred := rest\<rparr>) = (t', out)" by fastforce
      moreover have "out \<noteq> Panic"
        using handle_command_no_panic [of c R s "t\<lparr>t_deferred := rest\<rparr>"] h noclose Cons by auto
      ultimately show ?thesis using ds Cons Drain(1) by (cases out) (auto simp: clock_overflow_def drain_step_def)
    qed (use ds Drain(1) in \<open>simp add: clock_overflow_def drain_step_def\<close>)
  next
    case (Command c s)
    then show ?thesis
      using after_select_safe [OF select_command_safe, of dbg R c s "take_command c t"] by (simp add: clock_overflow_def)
  next
    case (Packet p alive s)
    have "fst (after_select dbg (select_packet R p alive s t)) \<noteq> Panicked"
      by (rule after_select_safe, rule select_packet_safe) (use assms(3) Packet(1) in simp)
    then show ?thesis using Packet by (simp add: clock_overflow_def)
  next
    case (Elapsed now e)
    then show ?thesis by (auto simp: clock_overflow_def wait_step_def)
  next
    case (Wake now c e)
    then show ?thesis
      by (auto simp: clock_overflow_def wait_step_def Let_def give_up_def split: option.split command.split)
  next
    case (Handshake shaken sents e)
    note e = Handshake(2,3)
    then have "e * 2 \<le> DURATION_MAX" using assms(2) by (simp add: delay_inv_def)
    then show ?thesis
      using e assms(3) Handshake(1) resubscribe_no_panic [of R "map fst (t_watchers t)" sents t]
      by (cases shaken) (auto simp: clock_overflow_def connect_step_def next_delay_def input_legal_def split: outcome.split)
  qed
qed

subsection \<open>Chunks come before the reply\<close>

fun pushes_ok :: "command list \<Rightarrow> reply list \<Rightarrow> effect list \<Rightarrow> bool" where
  "pushes_ok cs seen [] = True"
| "pushes_ok cs seen (e # es) =
    ((case e of EPush p b \<Rightarrow> \<exists>s packet r. CRequest s packet r (Some p) \<in> set cs \<and> r \<notin> set seen | _ \<Rightarrow> True) \<and>
     pushes_ok cs (seen @ List.map_filter effect_reply [e]) es)"

lemma pushes_ok_append:
  "pushes_ok cs seen (xs @ ys) \<longleftrightarrow> pushes_ok cs seen xs \<and> pushes_ok cs (seen @ List.map_filter effect_reply xs) ys"
proof (induction xs arbitrary: seen)
  case (Cons x xs)
  have "List.map_filter effect_reply (x # xs) = List.map_filter effect_reply [x] @ List.map_filter effect_reply xs"
    using map_filter_append [of effect_reply "[x]" xs] by simp
  then show ?case using Cons by simp
qed (simp add: List.map_filter_def)

lemma pushes_ok_plain: "list_all plain es \<Longrightarrow> pushes_ok cs seen es"
  by (induction es arbitrary: seen) (auto split: effect.split)

lemma pushes_ok_mono: "pushes_ok cs seen es \<Longrightarrow> set cs \<subseteq> set cs' \<Longrightarrow> pushes_ok cs' seen es"
  by (induction es arbitrary: seen) (fastforce split: effect.splits)+

definition push_ok :: "task \<Rightarrow> bool" where
  "push_ok t \<longleftrightarrow> (distinct (replies_of (t_taken t)) \<longrightarrow> pushes_ok (t_taken t) [] (t_log t))"

text \<open>Every step extends the log; it pushes only for a request that is still pending.\<close>

definition extends :: "task \<Rightarrow> task \<Rightarrow> bool" where
  "extends t t' \<longleftrightarrow> t_taken t' = t_taken t \<and> (\<exists>es. t_log t' = t_log t @ es \<and> list_all plain es)"

lemma extends_refl [simp]: "extends t t"
  by (auto simp: extends_def)

lemma extends_trans: "extends t u \<Longrightarrow> extends u v \<Longrightarrow> extends t v"
  by (fastforce simp: extends_def)

lemma extends_upd [simp]:
  "extends t (t\<lparr>t_closed := b\<rparr>)" "extends t (t\<lparr>t_deferred := ds\<rparr>)"
  by (simp_all add: extends_def)

lemma extends_fail:
  "extends t (fail_pending dbg e t)" "extends t (fail_deferred t)" "extends t (drop_task t)" "extends t (fail_request c t)"
  by (auto simp: extends_def fail_pending_eq fail_deferred_eq drop_task_eq fail_request_eq list_all_iff)

lemma extends_command: "extends t (fst (handle_command R s c t))"
  using handle_command_log by (simp add: extends_def)

lemma extends_give_up: "extends t (snd (give_up t))"
proof -
  have "extends t (drop_task (fail_deferred (t\<lparr>t_closed := True\<rparr>)))"
    by (rule extends_trans [OF extends_upd(1) extends_trans [OF extends_fail(2) extends_fail(3)]])
  then show ?thesis by (simp add: give_up_def)
qed

lemma extends_after_select: "extends t (snd (after_select dbg (t, out)))"
  using extends_trans [OF extends_fail(1) extends_give_up] extends_trans [OF extends_upd(1) extends_trans [OF extends_fail(1) extends_fail(3)]]
  by (auto simp: after_select_def fail_link_def enter_reconnect_def extends_fail split: outcome.split run_outcome.split reconnect.split)

lemma push_ok_extends: "push_ok t \<Longrightarrow> extends t t' \<Longrightarrow> push_ok t'"
  by (auto simp: push_ok_def extends_def pushes_ok_append pushes_ok_plain)

lemma push_ok_take: "push_ok t \<Longrightarrow> push_ok (take_command c t)"
  by (auto simp: push_ok_def take_command_def split: option.split elim: pushes_ok_mono)

lemma books_distinct:
  assumes "books [] t" "distinct (replies_of (t_taken t))"
  shows "distinct (answered t @ pending_replies t @ replies_of (t_deferred t))"
proof -
  have "mset (answered t @ pending_replies t @ replies_of (t_deferred t)) = mset (replies_of (t_taken t))"
    using assms(1) by (simp add: books_def balance_def add.assoc)
  then show ?thesis using assms(2) mset_eq_imp_distinct_iff by blast
qed

lemma handle_response_push:
  assumes "push_ok t" "books [] t" "handle_response R alive s r t = Ok t'"
  shows "push_ok t'"
proof -
  let ?t = "note_schema r t"
  have e: "extends t ?t" by (simp add: extends_def)
  show ?thesis
  proof (cases "rs_kind r")
    case KChunk
    then have "handle_chunk r ?t = Ok t'" using assms(3) by (simp add: handle_response_alt)
    then show ?thesis
    proof (cases rule: handle_chunk_Ok)
      case (2 p pushes bs)
      then have mem: "(rs_sync r, p) \<in> set (t_pending t)" by (simp add: map_of_SomeD)
      then obtain packet where c: "CRequest (rs_sync r) packet (p_reply p) (Some pushes) \<in> set (t_taken t)"
        using assms(2) 2(2) by (fastforce simp: books_def matched_def from_request_def)
      have "p_reply p \<in> set (pending_replies t)" using mem by (force simp: pending_replies_def)
      then have "p_reply p \<notin> set (answered t)" if "distinct (replies_of (t_taken t))"
        using books_distinct [OF assms(2) that] by auto
      then show ?thesis using assms(1) c
        by (auto simp: push_ok_def 2(3) pushes_ok_append answered_def)
    qed (use push_ok_extends [OF assms(1) e] in simp)
  next
    case KEvent
    then have "handle_event R alive s r ?t = Ok t'" using assms(3) by (simp add: handle_response_alt)
    then have "extends ?t t'" by (cases rule: handle_event_cases) (auto simp: extends_def list_all_iff)
    then show ?thesis using push_ok_extends [OF assms(1) extends_trans [OF e]] by blast
  qed (use assms(1,3) in \<open>auto simp: handle_response_alt handle_reply_def settle_def push_ok_def pushes_ok_append
      split: option.splits\<close>)
qed

text \<open>A step that is no packet extends the log of the task, or of the task with the command it took.\<close>

lemma drain_step_extends: "extends t (snd (drain_step R dbg s t))"
proof (cases "t_deferred t")
  case (Cons c rest)
  obtain t' out where h: "handle_command R s c (t\<lparr>t_deferred := rest\<rparr>) = (t', out)" by fastforce
  then have "extends t t'" using extends_trans [OF extends_upd(2) extends_command] by (metis fst_conv)
  then show ?thesis using h Cons extends_trans [OF _ extends_fail(1)]
    by (cases out) (auto simp: drain_step_def fail_link_def)
qed (simp add: drain_step_def)

lemma select_command_extends: "extends t (fst (select_command R c s t))"
proof (cases c)
  case (Some c')
  then show ?thesis
    using extends_command [of t R s c'] by (cases c') (auto simp: select_command_def split: prod.split outcome.split)
qed (simp add: select_command_def)

lemma wait_step_extends:
  "snd (wait_step now (Some c) d t) = t \<or> extends (take_command c t) (snd (wait_step now (Some c) d t))"
proof -
  have "extends u (defer_command c' u)" for c' u by (simp add: defer_command_def extends_fail)
  then show ?thesis
    using extends_give_up by (auto simp: wait_step_def Let_def split: option.split command.split)
qed

lemma connect_step_extends: "extends t (snd (connect_step R shaken sents d t))"
proof -
  have "extends t t'" if "resubscribe R keys sents t = Ok t'" for keys t'
    using resubscribe_Ok [OF that] by (auto simp: extends_def list_all_iff)
  then show ?thesis by (auto simp: connect_step_def split: outcome.split option.split)
qed

lemma task_step_push:
  assumes "machine_inv m" "push_ok (snd m)" "task_step R dbg i m = Some m'"
  shows "push_ok (snd m')"
proof -
  obtain ph t where m: "m = (ph, t)" by (cases m)
  have b: "books [] t" and pi: "push_ok t" using assms(1,2) by (simp_all add: m machine_inv_def)
  have sel: "push_ok (snd (after_select dbg r))" if "push_ok (fst r)" for r
    using push_ok_extends [OF that] extends_after_select by (metis prod.collapse)
  from assms(3) [unfolded m] show ?thesis
  proof (cases rule: task_step_cases)
    case (Drain s)
    then show ?thesis using push_ok_extends [OF pi drain_step_extends] by simp
  next
    case (Command c s)
    then show ?thesis using sel push_ok_extends [OF push_ok_take [OF pi] select_command_extends] by simp
  next
    case (Packet p alive s)
    have "push_ok (fst (select_packet R p alive s t))"
      using pi handle_response_push [OF pi b] by (auto simp: select_packet_def split: option.split outcome.split)
    then show ?thesis using Packet(3) sel by simp
  next
    case (Elapsed now e)
    then show ?thesis using pi by (simp add: wait_step_def)
  next
    case (Wake now c e)
    then show ?thesis using wait_step_extends [of now c e t] pi push_ok_extends [OF push_ok_take [OF pi, of c]] by auto
  next
    case (Handshake shaken sents e)
    then show ?thesis using push_ok_extends [OF pi connect_step_extends] by simp
  qed
qed

interpretation chunks: machine_invariant "task_step R dbg" legal "start options" "\<lambda>m. push_ok (snd m)"
  for R :: rmp and dbg :: "duration \<Rightarrow> string" and legal :: "input \<Rightarrow> bool" and options :: connect_options
proof unfold_locales
  show "push_ok (snd (start options))" by (simp add: push_ok_def task_new_def)
qed (use task_step_push loop.reach_inv in blast)

end
