(* ===== verification/Connection_Props.thy ===== *)
theory Connection_Props
  imports Connection_Invariants
begin

text \<open>
  What the connection task promises its callers, as properties of the reachable states of its loop and of its single steps.
\<close>

section \<open>Properties\<close>

text \<open>
  A small run the witnesses share: a request is sent, the link breaks, a second request arrives while the task waits, and
  after a reconnect it is sent.
\<close>

definition demo_options :: connect_options where
  "demo_options = options_new ''db''"

definition demo_inputs :: "input list" where
  "demo_inputs =
    [IDrain None, ICommand (Some (CRequest 1 [1] 10 (Some 11))) None, IDrain None,
     IPacket None (\<lambda>_. True) None, IWake 0 (Some (CRequest 2 [2] 20 None)),
     IHandshake (Ok ()) [], IDrain None, IDrain None]"

definition demo_state :: "rmp \<Rightarrow> phase \<times> task" where
  "demo_state R = (Selecting, (task_new demo_options)
    \<lparr>t_pending := [(2, \<lparr>p_reply = 20, p_pushes = None\<rparr>)],
     t_log := [ESent [1], ESettle 10 (Err Closed), ESent [2]],
     t_taken := [CRequest 1 [1] 10 (Some 11), CRequest 2 [2] 20 None]\<rparr>)"

lemmas run_defs = drain_step_def select_command_def handle_command_def after_select_def
  take_command_def send_def encode_def insert_pending_def record_effect_def select_packet_def fail_link_def
  fail_pending_def settle_def clone_error_def enter_reconnect_def wait_step_def defer_command_def connect_step_def
  task_new_def demo_options_def options_new_def reconnect_default_def INSTANT_MAX_def MAX_DEFERRED_def
  from_millis_def from_secs_def

lemma demo_run: "run_inputs (task_step R dbg) demo_inputs (start demo_options) = Some (demo_state R)"
  by (simp add: demo_inputs_def demo_state_def run_defs)

lemma demo_legal: "list_all (input_legal R V) demo_inputs"
  by (simp add: demo_inputs_def input_legal_def)

lemma demo_reach: "reach (task_step R dbg) (input_legal R V) (start demo_options) (demo_state R)"
  by (rule run_inputs_reach [OF reach_init demo_legal demo_run])

text \<open>The same with a chunk before the break and the reply at the end.\<close>

definition served_inputs :: "input list" where
  "served_inputs =
    [IDrain None, ICommand (Some (CRequest 1 [1] 10 (Some 11))) None, IDrain None,
     IPacket (Some (Ok (empty_response KChunk 1 None []))) (\<lambda>_. True) None, IDrain None,
     IPacket None (\<lambda>_. True) None, IWake 0 (Some (CRequest 2 [2] 20 None)),
     IHandshake (Ok ()) [], IDrain None, IDrain None,
     IPacket (Some (Ok (empty_response KOk 2 None []))) (\<lambda>_. True) None]"

definition served_state :: "phase \<times> task" where
  "served_state = (Draining, (task_new demo_options)
    \<lparr>t_log := [ESent [1], EPush 11 [0xc0], ESettle 10 (Err Closed), ESent [2], ESettle 20 (Ok (empty_response KOk 2 None []))],
     t_taken := [CRequest 1 [1] 10 (Some 11), CRequest 2 [2] 20 None]\<rparr>)"

lemma served_run: "run_inputs (task_step R dbg) served_inputs (start demo_options) = Some served_state"
  by (simp add: served_inputs_def served_state_def run_defs handle_response_def handle_chunk_def handle_reply_def
      empty_response_def data_bytes_def response_slice_def unwrap_or_def)

lemma served_reach: "reach (task_step R dbg) (\<lambda>_. True) (start demo_options) served_state"
  by (rule run_inputs_reach [OF reach_init _ served_run]) (simp add: list_all_iff)

text \<open>
  Every request is answered exactly once.  At every moment each request the task has received is pending,
  deferred, or has had its one answer (a response, an error, or the end of its channel); when the task has
  finished, all of them have been answered.\<close>
theorem requests_answered_once:
  assumes "reach (task_step R dbg) legal (start options) (ph, t)"
  shows "mset (answered t) +
    (if ph = Finished then {#} else mset (pending_replies t) + mset (replies_of (t_deferred t))) =
    mset (replies_of (t_taken t))"
  using loop.reach_inv [OF assms]
  by (auto simp: machine_inv_def books_def balance_def add.assoc pending_replies_def)

theorem requests_answered_once_witness:
  "mset (answered (snd (demo_state ref_rmp))) +
    (if Selecting = Finished then {#} else mset (pending_replies (snd (demo_state ref_rmp))) +
      mset (replies_of (t_deferred (snd (demo_state ref_rmp))))) =
    mset (replies_of (t_taken (snd (demo_state ref_rmp))))"
proof (rule requests_answered_once)
  show "reach (task_step ref_rmp (\<lambda>_. [])) (input_legal ref_rmp ref_rmpv) (start demo_options)
    (Selecting, snd (demo_state ref_rmp))"
    using demo_reach [of ref_rmp "\<lambda>_. []" ref_rmpv] by (simp add: demo_state_def)
qed

text \<open>
  A caller only ever gets the reply to its own request: a response that was handed to a reply channel
  carries the sync of the request that came with that channel, and is a success or an error of the server, never a chunk or
  an event.\<close>
theorem replies_matched_by_sync:
  assumes "reach (task_step R dbg) legal (start options) (ph, t)" "ESettle r (Ok v) \<in> set (t_log t)"
  shows "\<exists>packet pushes. CRequest (rs_sync v) packet r pushes \<in> set (t_taken t) \<and> rs_kind v \<in> {KOk, KError}"
  using loop.reach_inv [OF assms(1)] assms(2)
  by (fastforce simp: machine_inv_def books_def matched_def from_request_def)

theorem replies_matched_by_sync_witness:
  "\<exists>packet pushes. CRequest (rs_sync (empty_response KOk 2 None [])) packet 20 pushes \<in> set (t_taken (snd served_state)) \<and>
    rs_kind (empty_response KOk 2 None []) \<in> {KOk, KError}"
proof (rule replies_matched_by_sync)
  show "reach (task_step ref_rmp (\<lambda>_. [])) (\<lambda>_. True) (start demo_options) (Draining, snd served_state)"
    using served_reach [of ref_rmp "\<lambda>_. []"] by (simp add: served_state_def)
qed (simp add: served_state_def)

text \<open>
  C10: when the task panics.  In every state it can reach, for every command (the unreachable \<open>Close\<close> included), every
  packet the decoder lets through, every result of a handshake and every time of the clock, a step panics exactly when the
  task, waiting out a delay, wakes past the largest instant: \<open>Instant::now() + delay\<close> overflows, in no other place
  does anything.  That takes a policy with a bound so large that adding it to the clock overflows; such a policy is accepted, and
  its first wait panics.\<close>
theorem task_panics_on_clock_overflow:
  assumes "reach (task_step R dbg) (input_legal R V) (start options) (ph, t)" "input_legal R V i"
    and "task_step R dbg i (ph, t) = Some (ph', t')"
  shows "(ph' = Panicked \<longleftrightarrow>
      (\<exists>now d. (i = IElapsed now \<or> (\<exists>c. i = IWake now c)) \<and> ph = Waiting d \<and> INSTANT_MAX < now + d)) \<and>
    (ph' = Panicked \<longrightarrow>
      (\<exists>mn mx now. reconnect_policy options = Backoff mn mx \<and> (i = IElapsed now \<or> (\<exists>c. i = IWake now c)) \<and>
        INSTANT_MAX < now + max mn mx))"
proof -
  note inv = loop.reach_inv [OF assms(1)] delay.reach_inv [OF assms(1)]
  have p: "ph' = Panicked \<longleftrightarrow> clock_overflow i ph" using task_step_panics [OF inv assms(2,3)] by simp
  have "INSTANT_MAX < now + max mn mx" if "INSTANT_MAX < now + d" "d \<le> max mn mx" for now d mn mx using that by linarith
  then show ?thesis using p inv(2) unfolding clock_overflow_def delay_inv_def by fastforce
qed

definition endless_options :: connect_options where
  "endless_options = options_reconnect (Backoff DURATION_MAX DURATION_MAX) demo_options"

theorem task_panics_on_clock_overflow_witness:
  "task_step ref_rmp (\<lambda>_. []) (IElapsed 0) (Waiting DURATION_MAX, task_new endless_options) = Some (Panicked, task_new endless_options) \<and>
    (\<exists>mn mx now. reconnect_policy endless_options = Backoff mn mx \<and> (IElapsed 0 = IElapsed now \<or> (\<exists>c. IElapsed 0 = IWake now c)) \<and>
      INSTANT_MAX < now + max mn mx)"
proof -
  have s: "task_step ref_rmp (\<lambda>_. []) (IElapsed 0) (Waiting DURATION_MAX, task_new endless_options) =
      Some (Panicked, task_new endless_options)"
    by (simp add: wait_step_def INSTANT_MAX_def DURATION_MAX_def)
  have "run_inputs (task_step ref_rmp (\<lambda>_. [])) [IDrain None, IPacket None (\<lambda>_. True) None] (start endless_options) =
      Some (Waiting DURATION_MAX, task_new endless_options)"
    by (simp add: run_defs endless_options_def options_reconnect_def)
  then have r: "reach (task_step ref_rmp (\<lambda>_. [])) (input_legal ref_rmp ref_rmpv) (start endless_options)
      (Waiting DURATION_MAX, task_new endless_options)"
    by (rule run_inputs_reach [OF reach_init, rotated]) (simp add: input_legal_def)
  show ?thesis using task_panics_on_clock_overflow [OF r _ s] s by (simp add: input_legal_def)
qed

text \<open>
  C15: bounds of the loop.  At most 4096 commands are deferred; the delay before an attempt stays between the two
  bounds of the policy, and there is a delay only under the backoff policy; the connection counts as closed exactly
  when the task has finished, and then nothing waits.\<close>
theorem loop_bounds:
  assumes "reach (task_step R dbg) legal (start options) (ph, t)"
  shows "length (t_deferred t) \<le> 4096 \<and> t_options t = options \<and>
    (case ph of
       Waiting d \<Rightarrow> \<exists>mn mx. reconnect_policy options = Backoff mn mx \<and> min mn mx \<le> d \<and> d \<le> max mn mx
     | Connecting d \<Rightarrow> \<exists>mn mx. reconnect_policy options = Backoff mn mx \<and> min mn mx \<le> d \<and> d \<le> max mn mx
     | Finished \<Rightarrow> t_closed t \<and> t_pending t = [] \<and> t_deferred t = []
     | Panicked \<Rightarrow> True
     | _ \<Rightarrow> \<not> t_closed t)"
  using loop.reach_inv [OF assms] delay.reach_inv [OF assms]
  by (auto simp: machine_inv_def delay_inv_def books_def MAX_DEFERRED_def split: phase.split)

theorem loop_bounds_witness:
  "length (t_deferred (snd served_state)) \<le> 4096 \<and> t_options (snd served_state) = demo_options \<and>
    (case Draining of
       Waiting d \<Rightarrow> \<exists>mn mx. reconnect_policy demo_options = Backoff mn mx \<and> min mn mx \<le> d \<and> d \<le> max mn mx
     | Connecting d \<Rightarrow> \<exists>mn mx. reconnect_policy demo_options = Backoff mn mx \<and> min mn mx \<le> d \<and> d \<le> max mn mx
     | Finished \<Rightarrow> t_closed (snd served_state) \<and> t_pending (snd served_state) = [] \<and> t_deferred (snd served_state) = []
     | Panicked \<Rightarrow> True
     | _ \<Rightarrow> \<not> t_closed (snd served_state))"
proof (rule loop_bounds)
  show "reach (task_step ref_rmp (\<lambda>_. [])) (\<lambda>_. True) (start demo_options) (Draining, snd served_state)"
    using served_reach [of ref_rmp "\<lambda>_. []"] by (simp add: served_state_def)
qed

text \<open>
  C14: chunks come before the reply.  When the reply channels are distinct, a chunk goes to the push stream of a
  request that was received and has not been answered by then.\<close>
theorem chunks_before_reply:
  assumes "reach (task_step R dbg) legal (start options) (ph, t)" "distinct (replies_of (t_taken t))"
    and "t_log t = xs @ EPush p b # ys"
  shows "\<exists>s packet r. CRequest s packet r (Some p) \<in> set (t_taken t) \<and> r \<notin> set (List.map_filter effect_reply xs)"
proof -
  have "pushes_ok (t_taken t) [] (t_log t)" using chunks.reach_inv [OF assms(1)] assms(2) by (simp add: push_ok_def)
  then show ?thesis by (simp add: assms(3) pushes_ok_append)
qed

theorem chunks_before_reply_witness:
  "\<exists>s packet r. CRequest s packet r (Some 11) \<in> set (t_taken (snd served_state)) \<and>
    r \<notin> set (List.map_filter effect_reply [ESent [1]])"
proof (rule chunks_before_reply)
  show "reach (task_step ref_rmp (\<lambda>_. [])) (\<lambda>_. True) (start demo_options) (Draining, snd served_state)"
    using served_reach [of ref_rmp "\<lambda>_. []"] by (simp add: served_state_def)
  show "distinct (replies_of (t_taken (snd served_state)))"
    by (simp add: served_state_def command_replies_def)
  show "t_log (snd served_state) = [ESent [1]] @ EPush 11 [0xc0] #
      [ESettle 10 (Err Closed), ESent [2], ESettle 20 (Ok (empty_response KOk 2 None []))]"
    by (simp add: served_state_def)
qed

section \<open>Single steps\<close>

lemma min_scaled:
  fixes a m p :: nat
  assumes "1 \<le> p"
  shows "min (min a m * p) m = min (a * p) m"
proof (cases "a \<le> m")
  case False
  have "m \<le> m * p" using assms by simp
  moreover have "m \<le> a * p" using mult_le_mono [of m a 1 p] False assms by simp
  ultimately have "min (m * p) m = m" "min (a * p) m = m" by (simp_all only: min.absorb2)
  then show ?thesis using False by (simp add: min.absorb2)
qed simp

text \<open>
  C16: the delay doubles.  After \<open>k\<close> attempts that fail in a row the task waits the first delay times
  \<open>2 ^ k\<close>, cut off at the ceiling.\<close>
theorem backoff_schedule:
  assumes "reconnect_policy (t_options t) = Backoff mn mx" "now + max mn mx \<le> INSTANT_MAX"
  shows "run_inputs (task_step R dbg) (concat (replicate k [IElapsed now, IHandshake (Err e) sents])) (Waiting mn, t) =
    Some (Waiting (if k = 0 then mn else min (mn * 2 ^ k) mx), t)"
proof -
  have round: "run_inputs (task_step R dbg) [IElapsed now, IHandshake (Err e) sents] (Waiting d, t) =
      Some (Waiting (min (d * 2) mx), t)" if "d \<le> max mn mx" for d
  proof -
    have "now + d \<le> INSTANT_MAX" using that assms(2) by linarith
    then show ?thesis using assms(1) instant_duration [of now d]
      by (simp add: wait_step_def connect_step_def next_delay_def)
  qed
  have rest: "run_inputs (task_step R dbg) (concat (replicate k [IElapsed now, IHandshake (Err e) sents])) (Waiting d, t) =
      Some (Waiting (if k = 0 then d else min (d * 2 ^ k) mx), t)" if "d \<le> max mn mx" for k d
    using that
  proof (induction k arbitrary: d)
    case (Suc k)
    have "min (d * 2) mx \<le> max mn mx" by simp
    note ih = Suc.IH [OF this]
    have "min (min (d * 2) mx * 2 ^ k) mx = min (d * 2 ^ Suc k) mx"
      using min_scaled [of "2 ^ k" "d * 2" mx] by (simp add: mult.assoc)
    then show ?case
      unfolding replicate_Suc concat.simps run_inputs_append round [OF Suc.prems] Option.bind.simps ih by auto
  qed simp
  show ?thesis by (rule rest) simp
qed

theorem backoff_schedule_witness:
  "run_inputs (task_step ref_rmp (\<lambda>_. [])) (concat (replicate 7 [IElapsed 0, IHandshake (Err Closed) []]))
      (Waiting (from_millis 100), task_new demo_options) =
    Some (Waiting (if (7 :: nat) = 0 then from_millis 100 else min (from_millis 100 * 2 ^ 7) (from_secs 5)), task_new demo_options)"
proof (rule backoff_schedule)
  show "reconnect_policy (t_options (task_new demo_options)) = Backoff (from_millis 100) (from_secs 5)"
    by (simp add: task_new_def demo_options_def options_new_def reconnect_default_def)
  show "0 + max (from_millis 100) (from_secs 5) \<le> INSTANT_MAX"
    by (simp add: from_millis_def from_secs_def INSTANT_MAX_def)
qed

lemma task_step_drain: "task_step R dbg (IDrain s) (Draining, t) = Some (drain_step R dbg s t)"
  by simp

text \<open>
  C17: draining ends.  Whatever the writes give, at most one round per deferred command and one more bring the
  task to its \<open>select!\<close>: from a reachable draining state there is no other way out.\<close>
theorem drain_terminates:
  assumes "reach (task_step R dbg) legal (start options) (Draining, t)" "length sents = length (t_deferred t) + 1"
  shows "\<exists>n \<le> length sents. \<exists>t'. run_inputs (task_step R dbg) (map IDrain (take n sents)) (Draining, t) = Some (Selecting, t')"
proof -
  have noclose: "CClose \<notin> set (t_deferred t)"
    using loop.reach_inv [OF assms(1)] by (simp add: machine_inv_def books_def)
  show ?thesis using assms(2) noclose
  proof (induction sents arbitrary: t)
    case (Cons s sents)
    show ?case
    proof (cases "t_deferred t")
      case Nil
      then show ?thesis by (intro exI [of _ 1]) (simp add: drain_step_def)
    next
      case (Cons c rest)
      obtain t' out where h: "handle_command R s c (t\<lparr>t_deferred := rest\<rparr>) = (t', out)" by fastforce
      have d: "t_deferred t' = rest" using handle_command_fields(3) [of R s c "t\<lparr>t_deferred := rest\<rparr>"] h by simp
      have "out \<noteq> Panic"
        using handle_command_no_panic [of c R s "t\<lparr>t_deferred := rest\<rparr>"] h Cons.prems(2) Cons by auto
      then consider "out = Ok ()" | e where "out = Err e" by (cases out) auto
      then show ?thesis
      proof cases
        case 1
        have "length sents = length (t_deferred t') + 1" "CClose \<notin> set (t_deferred t')"
          using Cons.prems Cons d by simp_all
        from Cons.IH [OF this] obtain n t'' where "n \<le> length sents"
          "run_inputs (task_step R dbg) (map IDrain (take n sents)) (Draining, t') = Some (Selecting, t'')" by blast
        then show ?thesis using h 1 Cons by (intro exI [of _ "Suc n"]) (simp add: drain_step_def)
      next
        case 2
        then show ?thesis using h Cons by (intro exI [of _ 1]) (simp add: drain_step_def)
      qed
    qed
  qed simp
qed

theorem drain_terminates_witness:
  "\<exists>n \<le> length [None :: error option]. \<exists>t'. run_inputs (task_step ref_rmp (\<lambda>_. [])) (map IDrain (take n [None]))
    (Draining, task_new demo_options) = Some (Selecting, t')"
proof (rule drain_terminates)
  show "reach (task_step ref_rmp (\<lambda>_. [])) (\<lambda>_. True) (start demo_options) (Draining, task_new demo_options)"
    by (rule reach_init)
qed (simp add: task_new_def)

text \<open>
  C24: a lost link fails what is in flight and nothing else: when the socket ends or reports an error, every
  pending request, and no other, is answered with \<open>Closed\<close>; deferred commands and subscriptions stay, and the task
  waits out the first delay of its policy.\<close>
theorem lost_link_fails_pending:
  assumes "packet = None \<or> packet = Some (Err e)" "reconnect_policy (t_options t) = Backoff mn mx"
  shows "task_step R dbg (IPacket packet alive sent) (Selecting, t) =
    Some (Waiting mn, t\<lparr>t_pending := [], t_log := t_log t @ map (\<lambda>r. ESettle r (Err Closed)) (pending_replies t)\<rparr>)"
  using assms
  by (auto simp: select_packet_def after_select_def fail_link_def fail_pending_eq clone_error_def enter_reconnect_def)

theorem lost_link_fails_pending_witness:
  "task_step ref_rmp (\<lambda>_. []) (IPacket None (\<lambda>_. True) None) (Selecting, snd (demo_state ref_rmp)) =
    Some (Waiting (from_millis 100), (snd (demo_state ref_rmp))\<lparr>t_pending := [],
      t_log := t_log (snd (demo_state ref_rmp)) @ map (\<lambda>r. ESettle r (Err Closed)) (pending_replies (snd (demo_state ref_rmp)))\<rparr>)"
  by (rule lost_link_fails_pending [where mx = "from_secs 5" and e = Closed])
    (simp_all add: demo_state_def task_new_def demo_options_def options_new_def reconnect_default_def)

text \<open>
  Without reconnection a lost link ends the task: all it holds, pending or deferred, is answered with
  \<open>Closed\<close> and the channel is closed.\<close>
theorem never_reconnect_closes:
  assumes "packet = None \<or> packet = Some (Err e)" "reconnect_policy (t_options t) = Never"
  shows "\<exists>t'. task_step R dbg (IPacket packet alive sent) (Selecting, t) = Some (Finished, t') \<and>
    t_closed t' \<and> t_rx_closed t' \<and>
    t_log t' = t_log t @ map (\<lambda>r. ESettle r (Err Closed)) (pending_replies t @ replies_of (t_deferred t))"
  using assms
  by (auto simp: select_packet_def after_select_def fail_link_def fail_pending_eq clone_error_def enter_reconnect_def
      give_up_def fail_deferred_eq drop_task_eq)

theorem never_reconnect_closes_witness:
  "\<exists>t'. task_step ref_rmp (\<lambda>_. []) (IPacket None (\<lambda>_. True) None)
      (Selecting, task_new (options_reconnect Never demo_options)) = Some (Finished, t') \<and>
    t_closed t' \<and> t_rx_closed t' \<and>
    t_log t' = t_log (task_new (options_reconnect Never demo_options)) @
      map (\<lambda>r. ESettle r (Err Closed)) (pending_replies (task_new (options_reconnect Never demo_options)) @
        replies_of (t_deferred (task_new (options_reconnect Never demo_options))))"
  by (rule never_reconnect_closes [where e = Closed]) (simp_all add: task_new_def options_reconnect_def)

text \<open>
  C26: an event goes to every live subscriber of its key, in the order they subscribed, once each, and is
  acknowledged with one packet; subscribers whose receiver is gone are removed and the subscriptions to other keys
  stay.\<close>
theorem event_fans_out:
  assumes "rs_kind r = KEvent" "event r = Ok (Some (key, d))" "map_of (t_watchers t) key = Some list"
    and "watch_packet R REQ_WATCH key = Ok p" "length p < 2 ^ 32" "rs_schema_version r = None"
  shows "\<exists>t'. handle_response R alive sent r t = Ok t' \<and>
    t_log t' = t_log t @ map (\<lambda>(_, s). ENotify s d) (filter (\<lambda>(_, s). alive s) list) @ [ESent p] \<and>
    map_of (t_watchers t') = (map_of (t_watchers t))(key \<mapsto> filter (\<lambda>(_, s). alive s) list) \<and>
    t_pending t' = t_pending t \<and>
    (t_shutting_down t' \<longleftrightarrow> t_shutting_down t \<or> key = ''box.shutdown'' \<and> get d 0 = Some 0xc3)"
proof -
  let ?t = "t\<lparr>t_shutting_down := t_shutting_down t \<or> key = ''box.shutdown'' \<and> get d 0 = Some 0xc3,
    t_watchers := AList.update key (filter (\<lambda>(_, s). alive s) list) (t_watchers t),
    t_log := t_log t @ map (\<lambda>(_, s). ENotify s d) (filter (\<lambda>(_, s). alive s) list) @ [ESent p]\<rparr>"
  have "handle_response R alive sent r t = Ok ?t"
    using assms by (auto simp: handle_response_def handle_event_def Let_def publish_eq send_def encode_def
        record_effect_def split: option.split)
  then show ?thesis by (simp add: update_conv')
qed

definition demo_ack :: bytes where
  "demo_ack = (case watch_packet ref_rmp REQ_WATCH ''k'' of Ok p \<Rightarrow> p | _ \<Rightarrow> [])"

lemma demo_ack: "watch_packet ref_rmp REQ_WATCH ''k'' = Ok demo_ack" "length demo_ack < 2 ^ 32"
  by code_simp+

definition demo_event :: response where
  "demo_event = (empty_response KEvent 0 None [])\<lparr>rs_event_key := Some ''k''\<rparr>"

definition demo_watched :: task where
  "demo_watched = (task_new demo_options)\<lparr>t_watchers := [(''k'', [(1, 5), (2, 6)])]\<rparr>"

theorem event_fans_out_witness:
  "\<exists>t'. handle_response ref_rmp (\<lambda>s. s = 6) None demo_event demo_watched = Ok t' \<and>
    t_log t' = t_log demo_watched @ map (\<lambda>(_, s). ENotify s [0xc0]) (filter (\<lambda>(_, s). s = 6) [(1 :: u64, 5), (2, 6)]) @ [ESent demo_ack] \<and>
    map_of (t_watchers t') = (map_of (t_watchers demo_watched))(''k'' \<mapsto> filter (\<lambda>(_, s). s = 6) [(1, 5), (2, 6)]) \<and>
    t_pending t' = t_pending demo_watched \<and>
    (t_shutting_down t' \<longleftrightarrow> t_shutting_down demo_watched \<or> ''k'' = ''box.shutdown'' \<and> get [0xc0 :: u8] 0 = Some 0xc3)"
  by (rule event_fans_out [OF _ _ _ demo_ack])
    (simp_all add: demo_event_def demo_watched_def empty_response_def event_def response_slice_def unwrap_or_def)

lemma resubscribes:
  assumes "\<forall>key \<in> set (map fst (t_watchers t)). \<exists>p. watch_packet R REQ_WATCH key = Ok p \<and> length p < 2 ^ 32"
  shows "\<exists>ps. task_step R dbg (IHandshake (Ok ()) []) (Connecting d, t) =
      Some (Draining, t\<lparr>t_log := t_log t @ map ESent ps\<rparr>) \<and>
    map Ok ps = map (watch_packet R REQ_WATCH) (map fst (t_watchers t))"
proof -
  have "\<exists>ps. resubscribe R keys [] t = Ok (t\<lparr>t_log := t_log t @ map ESent ps\<rparr>) \<and>
      map Ok ps = map (watch_packet R REQ_WATCH) keys"
    if "\<forall>key \<in> set keys. \<exists>p. watch_packet R REQ_WATCH key = Ok p \<and> length p < 2 ^ 32" for keys
    using that
  proof (induction keys arbitrary: t)
    case Nil
    then show ?case by (intro exI [of _ "[]"]) simp
  next
    case (Cons key keys)
    then obtain p where p: "watch_packet R REQ_WATCH key = Ok p" "length p < 2 ^ 32" by auto
    obtain ps where ps: "resubscribe R keys [] (record_effect (ESent p) t) =
        Ok ((record_effect (ESent p) t)\<lparr>t_log := t_log (record_effect (ESent p) t) @ map ESent ps\<rparr>)"
      "map Ok ps = map (watch_packet R REQ_WATCH) keys"
      using Cons.IH [of "record_effect (ESent p) t"] Cons.prems by auto
    then show ?case using p by (intro exI [of _ "p # ps"]) (simp add: send_def encode_def record_effect_def)
  qed
  from this [OF assms] show ?thesis by (auto simp: connect_step_def)
qed

text \<open>
  C25: after a reconnect every watched key is subscribed again: when the writes succeed, the first packets on the new
  link are one subscription per key, before any deferred command.\<close>
theorem reconnect_resubscribes:
  assumes "\<forall>key \<in> set (map fst (t_watchers t)). \<exists>p. watch_packet R REQ_WATCH key = Ok p \<and> length p < 2 ^ 32"
  shows "\<exists>ps. task_step R dbg (IHandshake (Ok ()) []) (Connecting d, t) =
      Some (Draining, t\<lparr>t_log := t_log t @ map ESent ps\<rparr>) \<and>
    map Ok ps = map (watch_packet R REQ_WATCH) (map fst (t_watchers t))"
  by (rule resubscribes [OF assms])

theorem reconnect_resubscribes_witness:
  "\<exists>ps. task_step ref_rmp (\<lambda>_. []) (IHandshake (Ok ()) []) (Connecting 1, demo_watched) =
      Some (Draining, demo_watched\<lparr>t_log := t_log demo_watched @ map ESent ps\<rparr>) \<and>
    map Ok ps = map (watch_packet ref_rmp REQ_WATCH) (map fst (t_watchers demo_watched))"
  by (rule reconnect_resubscribes) (use demo_ack in \<open>simp add: demo_watched_def\<close>)

text \<open>
  C28: graceful shutdown.  Once the server has announced it, a new request is refused at once and nothing is
  written; the reply to the last request in flight is delivered and then the task finishes.\<close>
theorem shutdown_drains:
  assumes "t_shutting_down t" "rs_kind v \<in> {KOk, KError}" "t_pending t = [(rs_sync v, p)]" "t_deferred t = []"
  shows "(\<exists>t'. task_step R dbg (ICommand (Some (CRequest s packet r pushes)) sent) (Selecting, t) = Some (Draining, t') \<and>
      t_log t' = t_log t @ [ESettle r (Err ShuttingDown)] \<and> t_pending t' = t_pending t) \<and>
    (\<exists>t'. task_step R dbg (IPacket (Some (Ok v)) alive sent) (Selecting, t) = Some (Finished, t') \<and>
      t_log t' = t_log t @ [ESettle (p_reply p) (Ok v)] \<and> t_closed t')"
proof
  show "\<exists>t'. task_step R dbg (ICommand (Some (CRequest s packet r pushes)) sent) (Selecting, t) = Some (Draining, t') \<and>
      t_log t' = t_log t @ [ESettle r (Err ShuttingDown)] \<and> t_pending t' = t_pending t"
    using assms(1) by (simp add: select_command_def handle_command_def after_select_def take_command_def settle_def)
  have "handle_response R alive sent v t = Ok (handle_reply v (note_schema v t))"
    using assms(2) by (auto simp: handle_response_alt)
  moreover have "handle_reply v (note_schema v t) = settle (p_reply p) (Ok v) ((note_schema v t)\<lparr>t_pending := []\<rparr>)"
    using assms(3) by (simp add: handle_reply_def)
  ultimately show "\<exists>t'. task_step R dbg (IPacket (Some (Ok v)) alive sent) (Selecting, t) = Some (Finished, t') \<and>
      t_log t' = t_log t @ [ESettle (p_reply p) (Ok v)] \<and> t_closed t'"
    using assms(1,4) by (simp add: select_packet_def settle_def after_select_def fail_pending_eq drop_task_eq)
qed

theorem shutdown_drains_witness:
  "(\<exists>t'. task_step ref_rmp (\<lambda>_. []) (ICommand (Some (CRequest 9 [1] 90 None)) None)
      (Selecting, (snd (demo_state ref_rmp))\<lparr>t_shutting_down := True\<rparr>) = Some (Draining, t') \<and>
      t_log t' = t_log ((snd (demo_state ref_rmp))\<lparr>t_shutting_down := True\<rparr>) @ [ESettle 90 (Err ShuttingDown)] \<and>
      t_pending t' = t_pending ((snd (demo_state ref_rmp))\<lparr>t_shutting_down := True\<rparr>)) \<and>
    (\<exists>t'. task_step ref_rmp (\<lambda>_. []) (IPacket (Some (Ok (empty_response KOk 2 None []))) (\<lambda>_. True) None)
      (Selecting, (snd (demo_state ref_rmp))\<lparr>t_shutting_down := True\<rparr>) = Some (Finished, t') \<and>
      t_log t' = t_log ((snd (demo_state ref_rmp))\<lparr>t_shutting_down := True\<rparr>) @
        [ESettle (p_reply \<lparr>p_reply = 20, p_pushes = None\<rparr>) (Ok (empty_response KOk 2 None []))] \<and> t_closed t')"
  by (rule shutdown_drains) (simp_all add: demo_state_def empty_response_def task_new_def)

lemma alist_update_new: "map_of xs k = None \<Longrightarrow> AList.update k v xs = xs @ [(k, v)]"
  by (induction xs) (auto split: if_splits)

text \<open>
  C40: a request too long for a packet breaks the link.  The encoder refuses it, but the task takes that for a broken
  socket: the caller gets \<open>Closed\<close> instead of the reason, every other request in flight fails with it, and
  the task reconnects.\<close>
theorem oversized_request_breaks_link:
  assumes "2 ^ 32 \<le> length packet" "\<not> t_shutting_down t" "map_of (t_pending t) s = None"
    and "reconnect_policy (t_options t) = Backoff mn mx"
  shows "\<exists>t'. task_step R dbg (ICommand (Some (CRequest s packet r pushes)) None) (Selecting, t) = Some (Waiting mn, t') \<and>
    t_pending t' = [] \<and>
    mset (t_log t') = mset (t_log t) + mset (map (\<lambda>r. ESettle r (Err Closed)) (r # pending_replies t))"
proof -
  have "handle_command R None (CRequest s packet r pushes) (take_command (Some (CRequest s packet r pushes)) t) =
    (insert_pending s \<lparr>p_reply = r, p_pushes = pushes\<rparr> (take_command (Some (CRequest s packet r pushes)) t),
     Err (Protocol ''request exceeds the 4 GiB packet limit''))"
    using assms(1,2) by (simp add: handle_command_def send_def encode_def take_command_def)
  then show ?thesis using assms(3,4)
    by (simp add: select_command_def after_select_def fail_link_def fail_pending_eq enter_reconnect_def clone_error_def
        insert_pending_def take_command_def pending_replies_def alist_update_new)
qed

theorem oversized_request_breaks_link_witness:
  "\<exists>packet t'. task_step ref_rmp (\<lambda>_. []) (ICommand (Some (CRequest 3 packet 30 None)) None)
      (Selecting, snd (demo_state ref_rmp)) = Some (Waiting (from_millis 100), t') \<and>
    t_pending t' = [] \<and>
    mset (t_log t') = mset (t_log (snd (demo_state ref_rmp))) +
      mset (map (\<lambda>r. ESettle r (Err Closed)) (30 # pending_replies (snd (demo_state ref_rmp))))"
proof -
  have big: "2 ^ 32 \<le> length (replicate (2 ^ 32) (0 :: u8))" by (simp only: length_replicate order_refl)
  show ?thesis
    by (rule exI [of _ "replicate (2 ^ 32) 0"],
        rule oversized_request_breaks_link [OF big, where mx = "from_secs 5"])
      (simp_all add: demo_state_def task_new_def demo_options_def options_new_def reconnect_default_def)
qed

section \<open>The numbers of requests\<close>

fun take_syncs :: "nat \<Rightarrow> counters \<Rightarrow> u64 list" where
  "take_syncs 0 c = []"
| "take_syncs (Suc n) c = (let (s, c') = next_sync c in s # take_syncs n c')"

lemma take_syncs_eq: "take_syncs n c = map (\<lambda>i. next_sync_value c + of_nat i) [0..<n]"
proof (induction n arbitrary: c)
  case (Suc n)
  have "[0..<Suc n] = 0 # map Suc [0..<n]" by (simp add: upt_conv_Cons map_Suc_upt del: upt_Suc)
  then show ?case using Suc by (simp add: next_sync_def add.assoc comp_def del: upt_Suc)
qed simp

text \<open>
  The requests of a connection have distinct numbers, starting at one, until the counter has gone all the way round;
  none of the first \<open>2 ^ 64 - 1\<close> is zero, the number the task uses for its own packets.\<close>
theorem syncs_distinct:
  assumes "n < 2 ^ 64"
  shows "distinct (take_syncs n counters_new) \<and> 0 \<notin> set (take_syncs n counters_new)"
proof -
  have v: "unat (1 + of_nat i :: u64) = Suc i" if "i < n" for i
    using that assms unat_of_nat_u64 [of "Suc i"] by simp
  then have "inj_on (\<lambda>i. 1 + of_nat i :: u64) (set [0..<n])"
    by (intro inj_onI) (metis atLeastLessThan_iff nat.inject set_upt)
  moreover have "1 + of_nat i \<noteq> (0 :: u64)" if "i < n" for i
    using v [OF that] by (metis nat.distinct(1) unsigned_0)
  ultimately show ?thesis by (auto simp: take_syncs_eq counters_new_def distinct_map)
qed

theorem syncs_distinct_witness:
  "distinct (take_syncs 3 counters_new) \<and> 0 \<notin> set (take_syncs 3 counters_new)"
  by (rule syncs_distinct) simp

end
