(* ===== verification/Connection_Live.thy ===== *)
theory Connection_Live
  imports Connection_Props
begin

text \<open>
  What the task gets done: requests that callers make while the link is down are sent once it is up again, and requests in
  flight at the same time are all answered, in whatever order the server answers them.
\<close>

type_synonym waiting = "u64 \<times> bytes \<times> reply"

definition waiting_command :: "waiting \<Rightarrow> command" where
  "waiting_command w = (case w of (s, p, r) \<Rightarrow> CRequest s p r None)"

definition waiting_entry :: "waiting \<Rightarrow> u64 \<times> pending" where
  "waiting_entry w = (case w of (s, p, r) \<Rightarrow> (s, \<lparr>p_reply = r, p_pushes = None\<rparr>))"

lemma map_of_waiting: "map_of (map waiting_entry ws) s = None \<longleftrightarrow> s \<notin> fst ` set ws"
  by (induction ws) (auto simp: waiting_entry_def)

lemma drain_requests:
  assumes "t_deferred t = map waiting_command ws" "t_pending t = map waiting_entry done_ws" "distinct (map fst (done_ws @ ws))"
    and "\<not> t_shutting_down t" "\<forall>(s, p, r) \<in> set ws. length p < 2 ^ 32"
  shows "\<exists>t'. run_inputs (task_step R dbg) (replicate (length ws + 1) (IDrain None)) (Draining, t) = Some (Selecting, t') \<and>
    t_deferred t' = [] \<and> t_pending t' = map waiting_entry (done_ws @ ws) \<and>
    t_log t' = t_log t @ map (\<lambda>(s, p, r). ESent p) ws"
  using assms
proof (induction ws arbitrary: t done_ws)
  case Nil
  then show ?case by (simp add: drain_step_def)
next
  case (Cons w ws)
  obtain s p r where w: "w = (s, p, r)" by (metis prod_cases3)
  have n: "map_of (t_pending t) s = None" using Cons.prems(2,3) w by (auto simp: map_of_waiting)
  let ?t = "record_effect (ESent p) (insert_pending s \<lparr>p_reply = r, p_pushes = None\<rparr> (t\<lparr>t_deferred := map waiting_command ws\<rparr>))"
  have 1: "task_step R dbg (IDrain None) (Draining, t) = Some (Draining, ?t)"
    using Cons.prems(1,4,5) w
    by (simp add: drain_step_def waiting_command_def [of "(s, p, r)"] handle_command_def send_def encode_def)
  have f: "t_deferred ?t = map waiting_command ws" "t_pending ?t = map waiting_entry (done_ws @ [w])" "\<not> t_shutting_down ?t"
      "t_log ?t = t_log t @ [ESent p]"
    using n Cons.prems(2,4) w by (simp_all add: insert_pending_def record_effect_def waiting_entry_def alist_update_new)
  have "distinct (map fst ((done_ws @ [w]) @ ws))" "\<forall>(s, p, r) \<in> set ws. length p < 2 ^ 32"
    using Cons.prems(3,5) by simp_all
  from Cons.IH [OF f(1,2) this(1) f(3) this(2)] show ?case
    using 1 f(4) w by (simp del: task_step.simps)
qed

text \<open>
  A link that is down.  The task waits out a delay, in which one more request may arrive, and then tries a handshake;
  an attempt that fails is followed by the next.
\<close>

definition wait_input :: "nat \<Rightarrow> waiting option \<Rightarrow> input" where
  "wait_input now arrival = (case arrival of Some w \<Rightarrow> IWake now (Some (waiting_command w)) | None \<Rightarrow> IElapsed now)"

definition failed_attempt :: "nat \<times> waiting option \<times> error \<Rightarrow> input list" where
  "failed_attempt a = (case a of (now, arrival, e) \<Rightarrow> [wait_input now arrival, IHandshake (Err e) []])"

fun attempt_arrival :: "nat \<times> waiting option \<times> error \<Rightarrow> waiting option" where
  "attempt_arrival (now, arrival, e) = arrival"

text \<open>The requests that arrive, in the order they do.\<close>

definition arrivals :: "waiting option list \<Rightarrow> waiting list" where
  "arrivals as = List.map_filter (\<lambda>a. a) as"

lemma arrivals_simps [simp]: "arrivals [] = []" "arrivals (None # as) = arrivals as" "arrivals (Some w # as) = w # arrivals as"
  by (simp_all add: arrivals_def List.map_filter_simps)

lemma arrivals_append [simp]: "arrivals (as @ bs) = arrivals as @ arrivals bs"
  by (simp add: arrivals_def map_filter_append)

lemma wait_input_step:
  assumes "t_deferred t = map waiting_command ws" "now + d \<le> INSTANT_MAX" "length ws + length (arrivals [a]) \<le> 4096"
  shows "\<exists>taken. task_step R dbg (wait_input now a) (Waiting d, t) =
    Some (Connecting d, t\<lparr>t_deferred := map waiting_command (ws @ arrivals [a]), t_taken := taken\<rparr>)"
proof (cases a)
  case None
  then show ?thesis using assms by (intro exI [of _ "t_taken t"]) (simp add: wait_input_def wait_step_def)
next
  case (Some w)
  obtain s p r where w: "w = (s, p, r)" by (metis prod_cases3)
  show ?thesis
    using assms Some w by (intro exI [of _ "t_taken t @ [waiting_command w]"])
      (simp add: wait_input_def wait_step_def waiting_command_def defer_command_def take_command_def MAX_DEFERRED_def)
qed

lemma failed_attempts:
  assumes "t_deferred t = map waiting_command ws" "reconnect_policy (t_options t) = Backoff mn mx" "d \<le> max mn mx"
    and "\<forall>(now, a, e) \<in> set attempts. now + max mn mx \<le> INSTANT_MAX"
    and "length (ws @ arrivals (map attempt_arrival attempts)) \<le> 4096"
  shows "\<exists>d' taken. d' \<le> max mn mx \<and> run_inputs (task_step R dbg) (concat (map failed_attempt attempts)) (Waiting d, t) =
    Some (Waiting d', t\<lparr>t_deferred := map waiting_command (ws @ arrivals (map attempt_arrival attempts)), t_taken := taken\<rparr>)"
  using assms
proof (induction attempts arbitrary: d t ws)
  case Nil
  then show ?case by (intro exI [of _ d] exI [of _ "t_taken t"]) simp
next
  case (Cons attempt attempts)
  obtain now a e where at: "attempt = (now, a, e)" by (metis prod_cases3)
  have now: "now + d \<le> INSTANT_MAX" using Cons.prems(3,4) at by fastforce
  have len: "length (ws @ arrivals [a]) \<le> 4096" using Cons.prems(5) at by (cases a) simp_all
  then obtain taken where 1: "task_step R dbg (wait_input now a) (Waiting d, t) =
      Some (Connecting d, t\<lparr>t_deferred := map waiting_command (ws @ arrivals [a]), t_taken := taken\<rparr>)" (is "_ = Some (_, ?t)")
    using wait_input_step [OF Cons.prems(1) now, of a R dbg] by auto
  have 2: "task_step R dbg (IHandshake (Err e) []) (Connecting d, ?t) = Some (Waiting (min (d * 2) mx), ?t)"
    using instant_duration [OF now] Cons.prems(2) by (simp add: connect_step_def next_delay_def)
  have split: "arrivals (map attempt_arrival (attempt # attempts)) = arrivals [a] @ arrivals (map attempt_arrival attempts)"
    using at by (cases a) simp_all
  have len': "length ((ws @ arrivals [a]) @ arrivals (map attempt_arrival attempts)) \<le> 4096"
    using Cons.prems(5) unfolding split by (simp only: append_assoc)
  have pre: "t_deferred ?t = map waiting_command (ws @ arrivals [a])" "reconnect_policy (t_options ?t) = Backoff mn mx"
      "min (d * 2) mx \<le> max mn mx" "\<forall>(now, a, e) \<in> set attempts. now + max mn mx \<le> INSTANT_MAX"
    using Cons.prems(2,4) by auto
  from Cons.IH [OF pre len'] obtain d' taken' where "d' \<le> max mn mx"
    "run_inputs (task_step R dbg) (concat (map failed_attempt attempts)) (Waiting (min (d * 2) mx), ?t) =
      Some (Waiting d', ?t\<lparr>t_deferred := map waiting_command ((ws @ arrivals [a]) @ arrivals (map attempt_arrival attempts)), t_taken := taken'\<rparr>)"
    by blast
  then show ?case
    using 1 2 unfolding split
    by (intro exI [of _ d'] exI [of _ taken']) (simp add: failed_attempt_def [of "(now, a, e)"] at del: task_step.simps)
qed

text \<open>
  C11: requests made while the link is down are delivered.  The link of a task is lost and what was in flight fails; then
  attempts to reconnect fail any number of times, and during the delay of each of them, and of the one that
  succeeds, a caller may make a request.  With at most 4096 such requests, and when the writes on the new link succeed, the
  task re-subscribes, sends the requests it still held when the link was lost and then the new ones in the order they were made, and
  reaches its \<open>select!\<close> with each of them waiting for its own reply and none left behind.\<close>
theorem deferred_requests_delivered:
  assumes "packet = None \<or> packet = Some (Err e)" "reconnect_policy (t_options t) = Backoff mn mx" "\<not> t_shutting_down t"
    and "t_deferred t = map waiting_command held"
    and "\<forall>(now, a, e) \<in> set attempts. now + max mn mx \<le> INSTANT_MAX" "now + max mn mx \<le> INSTANT_MAX"
    and "ws = held @ arrivals (map attempt_arrival attempts @ [a])" "length ws \<le> 4096" "distinct (map fst ws)"
    and "\<forall>(s, p, r) \<in> set ws. length p < 2 ^ 32"
    and "\<forall>key \<in> set (map fst (t_watchers t)). \<exists>p. watch_packet R REQ_WATCH key = Ok p \<and> length p < 2 ^ 32"
  shows "\<exists>t' ps. run_inputs (task_step R dbg)
      (IPacket packet alive sent # concat (map failed_attempt attempts) @ wait_input now a # IHandshake (Ok ()) [] #
        replicate (length ws + 1) (IDrain None)) (Selecting, t) = Some (Selecting, t') \<and>
    t_deferred t' = [] \<and> t_pending t' = map waiting_entry ws \<and>
    t_log t' = t_log t @ map (\<lambda>r. ESettle r (Err Closed)) (pending_replies t) @ map ESent ps @ map (\<lambda>(s, p, r). ESent p) ws \<and>
    map Ok ps = map (watch_packet R REQ_WATCH) (map fst (t_watchers t))"
proof -
  define t1 where "t1 = t\<lparr>t_pending := [], t_log := t_log t @ map (\<lambda>r. ESettle r (Err Closed)) (pending_replies t)\<rparr>"
  have 1: "task_step R dbg (IPacket packet alive sent) (Selecting, t) = Some (Waiting mn, t1)"
    using assms(1,2)
    by (auto simp: t1_def select_packet_def after_select_def fail_link_def fail_pending_eq clone_error_def enter_reconnect_def)
  let ?ws = "held @ arrivals (map attempt_arrival attempts)"
  obtain d taken where 2: "d \<le> max mn mx" "run_inputs (task_step R dbg) (concat (map failed_attempt attempts)) (Waiting mn, t1) =
      Some (Waiting d, t1\<lparr>t_deferred := map waiting_command ?ws, t_taken := taken\<rparr>)" (is "_ = Some (_, ?t2)")
    using failed_attempts [of t1 held mn mx mn attempts R dbg] assms(2,4,5,7,8) by (auto simp: t1_def)
  have "now + d \<le> INSTANT_MAX" using 2(1) assms(6) by linarith
  then obtain taken' where 3: "task_step R dbg (wait_input now a) (Waiting d, ?t2) =
      Some (Connecting d, ?t2\<lparr>t_deferred := map waiting_command (?ws @ arrivals [a]), t_taken := taken'\<rparr>)" (is "_ = Some (_, ?t3)")
    using wait_input_step [of ?t2 ?ws now d a R dbg] assms(7,8) by auto
  obtain ps where ps: "task_step R dbg (IHandshake (Ok ()) []) (Connecting d, ?t3) = Some (Draining, ?t3\<lparr>t_log := t_log ?t3 @ map ESent ps\<rparr>)"
    "map Ok ps = map (watch_packet R REQ_WATCH) (map fst (t_watchers t))"
    using resubscribes [of ?t3 R dbg d] assms(11) by (auto simp: t1_def)
  obtain t' where "run_inputs (task_step R dbg) (replicate (length ws + 1) (IDrain None)) (Draining, ?t3\<lparr>t_log := t_log ?t3 @ map ESent ps\<rparr>) =
      Some (Selecting, t')"
    "t_deferred t' = []" "t_pending t' = map waiting_entry ws" "t_log t' = (t_log t1 @ map ESent ps) @ map (\<lambda>(s, p, r). ESent p) ws"
    using drain_requests [of "?t3\<lparr>t_log := t_log ?t3 @ map ESent ps\<rparr>" ws "[]" R dbg] assms(3,7,9,10) by (auto simp: t1_def)
  with 1 2 3 ps show ?thesis
    by (intro exI [of _ t'] exI [of _ ps]) (simp add: run_inputs_append t1_def del: task_step.simps replicate.simps)
qed

theorem deferred_requests_delivered_witness:
  "\<exists>t' ps. run_inputs (task_step ref_rmp (\<lambda>_. []))
      (IPacket None (\<lambda>_. True) None # concat (map failed_attempt [(0, Some (1, [1], 10), Closed), (7, None, Closed), (9, Some (2, [2], 20), Closed)]) @
        wait_input 11 (Some (3, [3], 30)) # IHandshake (Ok ()) [] # replicate (3 + 1) (IDrain None)) (Selecting, demo_watched) =
      Some (Selecting, t') \<and>
    t_deferred t' = [] \<and> t_pending t' = map waiting_entry [(1, [1], 10), (2, [2], 20), (3, [3], 30)] \<and>
    t_log t' = t_log demo_watched @ map (\<lambda>r. ESettle r (Err Closed)) (pending_replies demo_watched) @ map ESent ps @
      map (\<lambda>(s :: u64, p, r :: nat). ESent p) [(1, [1], 10), (2, [2], 20), (3, [3], 30)] \<and>
    map Ok ps = map (watch_packet ref_rmp REQ_WATCH) (map fst (t_watchers demo_watched))"
proof -
  have p: "reconnect_policy (t_options demo_watched) = Backoff (from_millis 100) (from_secs 5)"
    by (simp add: demo_watched_def task_new_def demo_options_def options_new_def reconnect_default_def)
  note d = deferred_requests_delivered [OF _ p, where packet = None and held = "[]" and R = ref_rmp and dbg = "\<lambda>_. []" and
    attempts = "[(0, Some (1, [1], 10), Closed), (7, None, Closed), (9, Some (2, [2], 20), Closed)]" and now = 11 and
    a = "Some (3, [3], 30)" and alive = "\<lambda>_. True" and sent = None, OF _ _ _ _ _ refl]
  have r: "replicate 4 (IDrain None) = replicate (Suc (Suc (Suc (Suc 0)))) (IDrain None)" by (simp add: eval_nat_numeral)
  show ?thesis
    using d demo_ack by (simp add: r demo_watched_def task_new_def INSTANT_MAX_def from_millis_def from_secs_def
      del: task_step.simps run_inputs.simps replicate.simps)
qed

section \<open>Pipelining\<close>

definition send_round :: "waiting \<Rightarrow> input list" where
  "send_round w = [ICommand (Some (waiting_command w)) None, IDrain None]"

definition reply_round :: "(sender \<Rightarrow> bool) \<Rightarrow> response \<Rightarrow> input list" where
  "reply_round alive v = [IPacket (Some (Ok v)) alive None, IDrain None]"

lemma send_rounds:
  assumes "t_deferred t = []" "t_pending t = map waiting_entry done_ws" "distinct (map fst (done_ws @ ws))"
    and "\<not> t_shutting_down t" "\<forall>(s, p, r) \<in> set ws. length p < 2 ^ 32"
  shows "\<exists>t'. run_inputs (task_step R dbg) (concat (map send_round ws)) (Selecting, t) = Some (Selecting, t') \<and>
    t_deferred t' = [] \<and> t_pending t' = map waiting_entry (done_ws @ ws) \<and> \<not> t_shutting_down t' \<and>
    t_log t' = t_log t @ map (\<lambda>(s, p, r). ESent p) ws"
  using assms
proof (induction ws arbitrary: t done_ws)
  case (Cons w ws)
  obtain s p r where w: "w = (s, p, r)" by (metis prod_cases3)
  have n: "map_of (t_pending t) s = None" using Cons.prems(2,3) w by (auto simp: map_of_waiting)
  let ?t = "record_effect (ESent p) (insert_pending s \<lparr>p_reply = r, p_pushes = None\<rparr> (take_command (Some (waiting_command w)) t))"
  have f: "t_deferred ?t = []" "t_pending ?t = map waiting_entry (done_ws @ [w])" "\<not> t_shutting_down ?t"
      "t_log ?t = t_log t @ [ESent p]"
    using n Cons.prems(1,2,4) w
    by (simp_all add: insert_pending_def record_effect_def take_command_def waiting_entry_def alist_update_new)
  have 1: "run_inputs (task_step R dbg) (send_round w) (Selecting, t) = Some (Selecting, ?t)"
    using Cons.prems(4,5) w f(1)
    by (simp add: send_round_def select_command_def waiting_command_def handle_command_def send_def encode_def after_select_def
        take_command_def drain_step_def)
  have "distinct (map fst ((done_ws @ [w]) @ ws))" "\<forall>(s, p, r) \<in> set ws. length p < 2 ^ 32"
    using Cons.prems(3,5) by simp_all
  from Cons.IH [OF f(1,2) this(1) f(3) this(2)] show ?case
    using 1 f(4) w by (simp add: run_inputs_append)
qed simp

text \<open>The reply that waits under a sync.\<close>

definition reply_under :: "(u64 \<times> pending) list \<Rightarrow> u64 \<Rightarrow> reply" where
  "reply_under ps s = p_reply (the (map_of ps s))"

lemma reply_rounds:
  assumes "t_deferred t = []" "\<not> t_shutting_down t" "distinct (map fst (t_pending t))"
    and "mset (map rs_sync vs) = mset (map fst (t_pending t))" "\<forall>v \<in> set vs. rs_kind v \<in> {KOk, KError}"
  shows "\<exists>t'. run_inputs (task_step R dbg) (concat (map (reply_round alive) vs)) (Selecting, t) = Some (Selecting, t') \<and>
    t_pending t' = [] \<and> t_log t' = t_log t @ map (\<lambda>v. ESettle (reply_under (t_pending t) (rs_sync v)) (Ok v)) vs"
  using assms
proof (induction vs arbitrary: t)
  case (Cons v vs)
  have "rs_sync v \<in> set (map fst (t_pending t))" using Cons.prems(4) by (metis list.set_intros(1) list.simps(9) set_mset_mset)
  then obtain p where p: "map_of (t_pending t) (rs_sync v) = Some p" by (metis image_set map_of_eq_None_iff not_None_eq)
  define u where "u = handle_reply v (note_schema v t)"
  have u: "t_deferred u = []" "\<not> t_shutting_down u" "t_pending u = AList.delete (rs_sync v) (t_pending t)"
      "t_log u = t_log t @ [ESettle (reply_under (t_pending t) (rs_sync v)) (Ok v)]"
    using p Cons.prems(1,2) by (simp_all add: u_def handle_reply_def settle_def record_effect_def reply_under_def)
  have "handle_response R alive None v t = Ok u" using Cons.prems(5) by (auto simp: handle_response_alt u_def)
  then have 1: "run_inputs (task_step R dbg) (reply_round alive v) (Selecting, t) = Some (Selecting, u)"
    using u(1,2) by (simp add: reply_round_def select_packet_def after_select_def drain_step_def)
  have d: "distinct (map fst (t_pending u))" using Cons.prems(3) by (simp add: u(3) distinct_delete)
  have "set (map rs_sync vs) = set (map fst (t_pending u))" "distinct (map rs_sync vs)"
  proof -
    have "distinct (map rs_sync (v # vs))" using Cons.prems(3,4) mset_eq_imp_distinct_iff by blast
    moreover have "set (map rs_sync (v # vs)) = set (map fst (t_pending t))" using Cons.prems(4) by (metis set_mset_mset)
    ultimately show "set (map rs_sync vs) = set (map fst (t_pending u))" "distinct (map rs_sync vs)"
      by (simp_all add: u(3) delete_keys set_eq_iff) (metis (no_types, lifting))
  qed
  then have m: "mset (map rs_sync vs) = mset (map fst (t_pending u))" using d set_eq_iff_mset_eq_distinct by blast
  have same: "reply_under (t_pending u) (rs_sync w) = reply_under (t_pending t) (rs_sync w)" if "w \<in> set vs" for w
  proof -
    have "rs_sync w \<noteq> rs_sync v"
      using that Cons.prems(3) mset_eq_imp_distinct_iff [OF Cons.prems(4)] by (metis distinct.simps(2) image_eqI image_set list.simps(9))
    then show ?thesis by (simp add: reply_under_def u(3) delete_conv')
  qed
  from Cons.IH [OF u(1,2) d m] Cons.prems(5) obtain t' where
    t': "run_inputs (task_step R dbg) (concat (map (reply_round alive) vs)) (Selecting, u) = Some (Selecting, t')"
      "t_pending t' = []" "t_log t' = t_log u @ map (\<lambda>v. ESettle (reply_under (t_pending u) (rs_sync v)) (Ok v)) vs" by auto
  have "map (\<lambda>v. ESettle (reply_under (t_pending u) (rs_sync v)) (Ok v)) vs =
      map (\<lambda>v. ESettle (reply_under (t_pending t) (rs_sync v)) (Ok v)) vs" using same by simp
  then show ?case using 1 t' u(4) by (simp add: run_inputs_append)
qed simp

text \<open>
  C12: requests in flight together are all served.  When the task takes any number of requests with different syncs one after
  the other and the server answers each of them once, in any order, every packet is written in the order the callers made them,
  each answer goes to the request with its sync as it arrives, and nothing is left waiting.\<close>
theorem pipelined_requests_served:
  assumes "t_deferred t = []" "t_pending t = []" "\<not> t_shutting_down t" "distinct (map fst ws)"
    and "\<forall>(s, p, r) \<in> set ws. length p < 2 ^ 32"
    and "mset (map rs_sync vs) = mset (map fst ws)" "\<forall>v \<in> set vs. rs_kind v \<in> {KOk, KError}"
  shows "\<exists>t'. run_inputs (task_step R dbg) (concat (map send_round ws) @ concat (map (reply_round alive) vs)) (Selecting, t) =
      Some (Selecting, t') \<and> t_pending t' = [] \<and>
    t_log t' = t_log t @ map (\<lambda>(s, p, r). ESent p) ws @
      map (\<lambda>v. ESettle (snd (the (map_of ws (rs_sync v)))) (Ok v)) vs"
proof -
  obtain u where u: "run_inputs (task_step R dbg) (concat (map send_round ws)) (Selecting, t) = Some (Selecting, u)"
      "t_deferred u = []" "t_pending u = map waiting_entry ws" "\<not> t_shutting_down u"
      "t_log u = t_log t @ map (\<lambda>(s, p, r). ESent p) ws"
    using send_rounds [of t "[]" ws R dbg] assms(1-5) by auto
  have k: "map fst (t_pending u) = map fst ws" by (simp add: u(3) waiting_entry_def case_prod_unfold)
  have r: "reply_under (t_pending u) s = snd (the (map_of ws s))" if "s \<in> set (map fst ws)" for s
    using that unfolding u(3) reply_under_def by (induction ws) (auto simp: waiting_entry_def split: if_splits)
  have "rs_sync v \<in> set (map fst ws)" if "v \<in> set vs" for v
    using that assms(6) by (metis image_eqI image_set set_mset_mset)
  then have "map (\<lambda>v. ESettle (reply_under (t_pending u) (rs_sync v)) (Ok v)) vs =
      map (\<lambda>v. ESettle (snd (the (map_of ws (rs_sync v)))) (Ok v)) vs" using r by simp
  then show ?thesis
    using reply_rounds [OF u(2,4), of vs R dbg alive] assms(4,6,7) u(1,5) k by (auto simp: run_inputs_append)
qed

theorem pipelined_requests_served_witness:
  "\<exists>t'. run_inputs (task_step ref_rmp (\<lambda>_. [])) (concat (map send_round [(1, [1], 10), (2, [2], 20)]) @
      concat (map (reply_round (\<lambda>_. True)) [empty_response KOk 2 None [], empty_response KError 1 None []]))
        (Selecting, task_new demo_options) = Some (Selecting, t') \<and> t_pending t' = [] \<and>
    t_log t' = [ESent [1], ESent [2], ESettle 20 (Ok (empty_response KOk 2 None [])), ESettle 10 (Ok (empty_response KError 1 None []))]"
  using pipelined_requests_served [of "task_new demo_options" "[(1, [1], 10), (2, [2], 20)]"
      "[empty_response KOk 2 None [], empty_response KError 1 None []]" ref_rmp "\<lambda>_. []" "\<lambda>_. True"]
  by (simp add: task_new_def empty_response_def)

end
