(* ===== verification/Connection_Effects.thy ===== *)
theory Connection_Effects
  imports Connection_Props
begin

text \<open>
  Where the effects of the task come from: a packet that is written comes from a command that was received or is the
  subscription to a key; a response or a chunk that is handed on is one the link has just delivered.
\<close>

section \<open>What is written\<close>

definition issued :: "rmp \<Rightarrow> command list \<Rightarrow> bytes \<Rightarrow> bool" where
  "issued R cs p \<longleftrightarrow>
    (\<exists>s r q. CRequest s p r q \<in> set cs) \<or> CFire p \<in> set cs \<or> (\<exists>ty key. watch_packet R ty key = Ok p)"

lemma issued_mono: "issued R cs p \<Longrightarrow> set cs \<subseteq> set ds \<Longrightarrow> issued R ds p"
  by (auto simp: issued_def)

text \<open>\<open>writes R cs t t'\<close>: everything written between \<open>t\<close> and \<open>t'\<close> was issued.\<close>

definition writes :: "rmp \<Rightarrow> command list \<Rightarrow> task \<Rightarrow> task \<Rightarrow> bool" where
  "writes R cs t t' \<longleftrightarrow> (\<forall>p. ESent p \<in> set (t_log t') \<longrightarrow> ESent p \<in> set (t_log t) \<or> issued R cs p)"

lemma writes_trans: "writes R cs t u \<Longrightarrow> writes R cs u v \<Longrightarrow> writes R cs t v"
  by (auto simp: writes_def)

lemma writes_same: "t_log t' = t_log t \<Longrightarrow> writes R cs t t'"
  by (simp add: writes_def)

lemma writes_fail:
  "writes R cs t (fail_pending dbg e t)" "writes R cs t (fail_deferred t)" "writes R cs t (drop_task t)"
  "writes R cs t (fail_request c t)"
  by (auto simp: writes_def fail_pending_eq fail_deferred_eq drop_task_eq fail_request_eq)

lemma writes_send: "(\<And>p. packet = Ok p \<Longrightarrow> issued R cs p) \<Longrightarrow> writes R cs t (fst (send sent packet t))"
  by (cases rule: send_cases [of sent packet t]) (auto simp: writes_def record_effect_def)

lemma writes_insert: "writes R cs t (insert_pending s p t)"
  by (auto simp: writes_def insert_pending_def record_effect_def split: option.splits)

lemma writes_command:
  assumes "c \<in> set cs"
  shows "writes R cs t (fst (handle_command R sent c t))"
proof (cases c)
  case (CRequest s p r q)
  then have "issued R cs p" using assms by (auto simp: issued_def)
  then have "writes R cs t (fst (send sent (Ok p) (insert_pending s e t)))" for e
    by (intro writes_trans [OF writes_insert writes_send]) simp
  then show ?thesis using CRequest by (auto simp: handle_command_def settle_def writes_def)
next
  case (CFire p)
  then show ?thesis using assms by (auto simp: handle_command_def issued_def intro!: writes_send)
next
  case (CWatch i key w)
  have "writes R cs t (fst (send sent (watch_packet R REQ_WATCH key) (t\<lparr>t_watchers := x\<rparr>)))" for x
    by (rule writes_trans [OF writes_same writes_send]) (auto simp: issued_def)
  then show ?thesis using CWatch by (simp add: handle_command_def Let_def writes_same)
next
  case (CUnwatch i key)
  have "writes R cs t (fst (send sent (watch_packet R REQ_UNWATCH key) (t\<lparr>t_watchers := x\<rparr>)))" for x
    by (rule writes_trans [OF writes_same writes_send]) (auto simp: issued_def)
  then show ?thesis using CUnwatch by (simp add: handle_command_def Let_def writes_same split: option.split)
qed (simp add: handle_command_def writes_same)

lemma writes_give_up: "writes R cs t (snd (give_up t))"
proof -
  have "writes R cs t (drop_task (fail_deferred (t\<lparr>t_closed := True\<rparr>)))"
    by (rule writes_trans [OF writes_same writes_trans [OF writes_fail(2) writes_fail(3)]]) simp
  then show ?thesis by (simp add: give_up_def)
qed

lemma writes_after_select: "writes R cs t (snd (after_select dbg (t, out)))"
proof -
  have "writes R cs t (drop_task (fail_pending dbg Closed (t\<lparr>t_closed := True\<rparr>)))"
    by (rule writes_trans [OF writes_same writes_trans [OF writes_fail(1) writes_fail(3)]]) simp
  then show ?thesis
    using writes_trans [OF writes_fail(1) writes_give_up]
    by (auto simp: after_select_def fail_link_def enter_reconnect_def writes_fail writes_same
        split: outcome.split run_outcome.split reconnect.split)
qed

lemma writes_select_command: "set_option c \<subseteq> set cs \<Longrightarrow> writes R cs t (fst (select_command R c sent t))"
proof (cases c)
  case (Some c')
  assume "set_option c \<subseteq> set cs"
  then show ?thesis
    using Some writes_command [of c' cs R t sent]
    by (cases c') (auto simp: select_command_def writes_same split: prod.split outcome.split)
qed (simp add: select_command_def writes_same)

lemma writes_response:
  assumes "handle_response R alive sent r t = Ok t'"
  shows "writes R cs t t'"
proof -
  let ?t = "note_schema r t"
  have same: "writes R cs t ?t" by (simp add: writes_same)
  have "writes R cs ?t t'"
  proof (cases "rs_kind r")
    case KChunk
    then have "handle_chunk r ?t = Ok t'" using assms by (simp add: handle_response_alt)
    then show ?thesis by (cases rule: handle_chunk_Ok) (auto simp: writes_def)
  next
    case KEvent
    then have "handle_event R alive sent r ?t = Ok t'" using assms by (simp add: handle_response_alt)
    then show ?thesis
      by (cases rule: handle_event_cases) (auto simp: writes_def issued_def split: if_splits)
  qed (use assms in \<open>auto simp: handle_response_alt handle_reply_def settle_def writes_def split: option.splits\<close>)
  then show ?thesis by (rule writes_trans [OF same])
qed

lemma writes_resubscribe:
  assumes "resubscribe R keys sents t = Ok t'"
  shows "writes R cs t t'"
  using assms
proof (induction keys arbitrary: sents t)
  case (Cons key keys)
  let ?s = "case sents of s # _ \<Rightarrow> s | [] \<Rightarrow> None" and ?p = "watch_packet R REQ_WATCH key"
  obtain u out where u: "send ?s ?p t = (u, out)" by fastforce
  have "writes R cs t u" using writes_send [of ?p R cs t ?s] u by (auto simp: issued_def)
  then show ?case using Cons u by (cases out) (auto intro: writes_trans)
qed (simp add: writes_same)

lemma writes_wait:
  "snd (wait_step now (Some c) d t) = t \<or> writes R cs (take_command c t) (snd (wait_step now (Some c) d t))"
proof -
  have "writes R cs u (defer_command c' u)" for c' u by (simp add: defer_command_def writes_fail writes_same)
  then show ?thesis
    using writes_give_up by (auto simp: wait_step_def Let_def split: option.split command.split)
qed

lemma take_command_log [simp]: "t_log (take_command c t) = t_log t"
  by (simp add: take_command_def split: option.split)

lemma set_taken: "set (t_taken (take_command c t)) = set (t_taken t) \<union> set_option c"
  by (simp add: take_command_def split: option.split)

text \<open>A step takes at most the command of its input.\<close>

fun input_command :: "input \<Rightarrow> command option" where
  "input_command (ICommand c _) = c"
| "input_command (IWake _ c) = c"
| "input_command _ = None"

lemma writes_drain:
  assumes "set (t_deferred t) \<subseteq> set cs"
  shows "writes R cs t (snd (drain_step R dbg sent t))"
proof (cases "t_deferred t")
  case (Cons c rest)
  obtain t' out where h: "handle_command R sent c (t\<lparr>t_deferred := rest\<rparr>) = (t', out)" by fastforce
  have "writes R cs (t\<lparr>t_deferred := rest\<rparr>) t'"
    using writes_command [of c cs R "t\<lparr>t_deferred := rest\<rparr>" sent] assms Cons h by simp
  then have "writes R cs t t'" by (rule writes_trans [OF writes_same, rotated]) simp
  then show ?thesis using h Cons writes_trans [OF _ writes_fail(1)]
    by (cases out) (auto simp: drain_step_def fail_link_def)
qed (simp add: drain_step_def writes_same)

section \<open>The shape of a step\<close>

text \<open>
  A step either takes the command of its input, if it has one, and adds effects that hand on no response, or handles one response of
  the link; only a wake-up that overflows the clock leaves the command.
\<close>

lemma extends_taken: "extends t t' \<Longrightarrow> t_taken t' = t_taken t"
  by (simp add: extends_def)

lemma select_command_shape:
  assumes "after_select dbg (select_command R c sent (take_command c t)) = (ph', t')"
  shows "extends (take_command c t) t'" "writes R (t_taken t') t t'"
proof -
  obtain u out where u: "select_command R c sent (take_command c t) = (u, out)" by fastforce
  have t': "t' = snd (after_select dbg (u, out))" using assms u by simp
  have "extends (take_command c t) u" using select_command_extends [of "take_command c t" R c sent] u by simp
  then show e: "extends (take_command c t) t'" unfolding t' by (rule extends_trans [OF _ extends_after_select])
  have "set_option c \<subseteq> set (t_taken t')" using extends_taken [OF e] set_taken [of c t] by simp
  then have "writes R (t_taken t') (take_command c t) u"
    using writes_select_command [of c "t_taken t'" R "take_command c t" sent] u by simp
  then have "writes R (t_taken t') (take_command c t) t'"
    using writes_trans [OF _ writes_after_select [of R "t_taken t'" u dbg out]] t' by blast
  then show "writes R (t_taken t') t t'" by (simp add: writes_def)
qed

lemma select_packet_shape:
  assumes "after_select dbg (select_packet R p alive sent t) = (ph', t')"
  obtains (none) "extends t t'" "writes R (t_taken t') t t'"
  | (response) v u where "p = Some (Ok v)" "handle_response R alive sent v t = Ok u"
      "extends u t'" "writes R (t_taken t') u t'"
proof -
  obtain u out where u: "select_packet R p alive sent t = (u, out)" by fastforce
  have "t' = snd (after_select dbg (u, out))" using assms u by simp
  then have e: "extends u t'" "writes R (t_taken t') u t'" using extends_after_select writes_after_select by simp_all
  show thesis
  proof (cases "\<exists>v. p = Some (Ok v) \<and> handle_response R alive sent v t = Ok u")
    case True
    then show thesis using response e by blast
  next
    case False
    then have "u = t" using u by (auto simp: select_packet_def split: option.splits outcome.splits)
    then show thesis using none e by simp
  qed
qed

lemma wake_shape:
  assumes "wait_step now (Some c) d t = (ph', t')"
  shows "extends (take_command c t) t' \<and> writes R (t_taken t') t t' \<or> ph' = Panicked \<and> t' = t"
proof (cases "now + d > INSTANT_MAX")
  case True
  then show ?thesis using assms by (simp add: wait_step_def)
next
  case False
  have u: "extends u (defer_command c' u)" "writes R cs u (defer_command c' u)" for c' u cs
    by (simp_all add: defer_command_def extends_fail writes_fail writes_same)
  have "t' = snd (wait_step now (Some c) d t)" using assms by simp
  then have "extends (take_command c t) t'" "writes R (t_taken t') (take_command c t) t'"
    using False extends_give_up writes_give_up u
    by (auto simp: wait_step_def Let_def split: option.split command.split)
  then show ?thesis by (simp add: writes_def)
qed

lemma task_step_shape:
  assumes "machine_inv (ph, t)" "task_step R dbg i (ph, t) = Some (ph', t')"
  obtains (plain) "extends (take_command (input_command i) t) t'" "writes R (t_taken t') t t'"
  | (overflow) "ph' = Panicked" "t' = t"
  | (packet) v alive sent u where "i = IPacket (Some (Ok v)) alive sent" "handle_response R alive sent v t = Ok u"
      "extends u t'" "writes R (t_taken t') u t'"
  using assms(2)
proof (cases rule: task_step_cases)
  case (Drain s)
  have "t' = snd (drain_step R dbg s t)" using Drain(3) by (metis snd_conv)
  moreover have "set (t_deferred t) \<subseteq> set (t_taken t)" using assms(1) by (simp add: machine_inv_def books_def matched_def)
  ultimately have "extends t t'" "writes R (t_taken t') t t'"
    using drain_step_extends [of t R dbg s] writes_drain [of t "t_taken t'"] extends_taken by force+
  then show thesis using Drain(1) by (intro plain) (simp_all add: take_command_def)
next
  case (Command c s)
  then show thesis using select_command_shape [OF Command(3) [symmetric]] by (intro plain) simp_all
next
  case (Packet p alive s)
  from Packet(3) [symmetric] show thesis
    by (cases rule: select_packet_shape) (use Packet(1) plain packet in \<open>auto simp: take_command_def\<close>)
next
  case (Elapsed now d)
  then show thesis by (intro plain) (auto simp: wait_step_def take_command_def writes_same split: if_splits)
next
  case (Wake now c d)
  then show thesis using wake_shape [OF Wake(3) [symmetric], of R] plain overflow by auto
next
  case (Handshake shaken sents d)
  have "t' = snd (connect_step R shaken sents d t)" using Handshake(3) by (metis snd_conv)
  moreover have "writes R cs t (snd (connect_step R shaken sents d t))" for cs
    using writes_resubscribe by (auto simp: connect_step_def writes_same split: outcome.split option.split)
  ultimately show thesis using Handshake(1) connect_step_extends
    by (intro plain) (simp_all add: take_command_def)
qed

section \<open>What is handed on\<close>

text \<open>
  \<open>attributed came cs e\<close>: a response or a chunk in the effect \<open>e\<close> is one that \<open>came\<close>, and goes to the request among \<open>cs\<close>
  that has its sync.
\<close>

fun attributed :: "(response \<Rightarrow> bool) \<Rightarrow> command list \<Rightarrow> effect \<Rightarrow> bool" where
  "attributed came cs (ESettle r (Ok v)) \<longleftrightarrow>
    came v \<and> rs_kind v \<in> {KOk, KError} \<and> (\<exists>packet q. CRequest (rs_sync v) packet r q \<in> set cs)"
| "attributed came cs (EPush ps b) \<longleftrightarrow>
    (\<exists>v packet r. came v \<and> rs_kind v = KChunk \<and> data_bytes v = Ok b \<and> CRequest (rs_sync v) packet r (Some ps) \<in> set cs)"
| "attributed came cs _ \<longleftrightarrow> True"

lemma attributed_mono:
  "attributed came cs e \<Longrightarrow> (\<And>v. came v \<Longrightarrow> came' v) \<Longrightarrow> set cs \<subseteq> set ds \<Longrightarrow> attributed came' ds e"
  by (cases "(came, cs, e)" rule: attributed.cases) (auto; blast)+

lemma plain_attributed: "plain e \<Longrightarrow> attributed came cs e"
  by (cases "(came, cs, e)" rule: attributed.cases) auto

text \<open>The log grows by effects that are attributed to what the link delivers in the step.\<close>

definition grows :: "(response \<Rightarrow> bool) \<Rightarrow> task \<Rightarrow> task \<Rightarrow> bool" where
  "grows came t t' \<longleftrightarrow> (\<exists>es. t_log t' = t_log t @ es \<and> list_all (attributed came (t_taken t')) es)"

lemma extends_grows: "extends t t' \<Longrightarrow> grows came t t'"
  by (auto simp: extends_def grows_def list_all_iff plain_attributed)

lemma handle_response_grows:
  assumes "books [] t" "handle_response R alive sent v t = Ok u" "rs_kind v \<noteq> KEvent \<Longrightarrow> came v"
  shows "t_taken u = t_taken t \<and> grows came t u"
proof -
  let ?t = "note_schema v t"
  have req: "\<exists>packet. CRequest (rs_sync v) packet (p_reply p) (p_pushes p) \<in> set (t_taken t)"
    if "map_of (t_pending t) (rs_sync v) = Some p" for p
    using map_of_SomeD [OF that] assms(1) by (auto simp: books_def matched_def from_request_def)
  have reply: "t_taken (handle_reply v ?t) = t_taken t \<and> grows came t (handle_reply v ?t)" if "rs_kind v \<in> {KOk, KError}"
  proof (cases "map_of (t_pending t) (rs_sync v)")
    case (Some p)
    then have "attributed came (t_taken t) (ESettle (p_reply p) (Ok v))" using req [OF Some] that assms(3) by auto
    then show ?thesis using Some by (simp add: handle_reply_def settle_def grows_def del: attributed.simps)
  qed (simp add: handle_reply_def grows_def)
  show ?thesis
  proof (cases "rs_kind v")
    case KChunk
    then have h: "handle_chunk v ?t = Ok u" using assms(2) by (simp add: handle_response_alt)
    show ?thesis
    proof (cases "Option.bind (map_of (t_pending t) (rs_sync v)) p_pushes")
      case None
      then have "u = ?t" using h by (simp add: handle_chunk_def)
      then show ?thesis by (simp add: grows_def)
    next
      case (Some ps)
      then obtain p where p: "map_of (t_pending t) (rs_sync v) = Some p" "p_pushes p = Some ps"
        by (auto simp: bind_eq_Some_conv)
      from Some h obtain b where b: "data_bytes v = Ok b" "u = record_effect (EPush ps b) ?t"
        by (auto simp: handle_chunk_def)
      have "attributed came (t_taken t) (EPush ps b)"
        using req [OF p(1)] p(2) b(1) KChunk assms(3) by auto
      then show ?thesis by (simp add: grows_def b(2) del: attributed.simps)
    qed
  next
    case KEvent
    then have "handle_event R alive sent v ?t = Ok u" using assms(2) by (simp add: handle_response_alt)
    then have "extends ?t u" by (cases rule: handle_event_cases) (auto simp: extends_def list_all_iff)
    then show ?thesis using extends_taken [of ?t u] extends_grows [of ?t u came] by (simp add: grows_def)
  next
    case KOk
    then have "u = handle_reply v ?t" using assms(2) by (simp add: handle_response_alt)
    then show ?thesis using reply KOk by simp
  next
    case KError
    then have "u = handle_reply v ?t" using assms(2) by (simp add: handle_response_alt)
    then show ?thesis using reply KError by simp
  qed
qed

end
