(* ===== verification/Auth.thy ===== *)
theory Auth
  imports Errors
begin

text \<open>
  \<^verbatim>\<open>src/src/auth.rs\<close>: the \<open>chap-sha1\<close> scramble and the base64 reader it needs.  SHA-1 (the \<open>sha1\<close> crate) is a
  parameter; the one thing the code relies on, that a digest has twenty bytes, is a hypothesis.
\<close>

definition SALT_B64_LEN :: nat where "SALT_B64_LEN = 44"
definition SALT_USED_LEN :: nat where "SALT_USED_LEN = 20"
definition CHAP_SHA1 :: string where "CHAP_SHA1 = ''chap-sha1''"

definition decode_symbol :: "u8 \<Rightarrow> u8 option" where
  "decode_symbol c =
    (if 65 \<le> c \<and> c \<le> 90 then Some (c - 65)
     else if 97 \<le> c \<and> c \<le> 122 then Some (c - 97 + 26)
     else if 48 \<le> c \<and> c \<le> 57 then Some (c - 48 + 52)
     else if c = 43 then Some 62
     else if c = 47 then Some 63
     else None)"

text \<open>The inner loop: the sextets of a chunk, up to the first padding symbol.\<close>

fun read_sextets :: "bytes \<Rightarrow> bytes option" where
  "read_sextets [] = Some []"
| "read_sextets (c # cs) =
    (if c = 61 then Some []
     else Option.bind (decode_symbol c) (\<lambda>s. map_option (Cons s) (read_sextets cs)))"

definition join1 :: "u8 \<Rightarrow> u8 \<Rightarrow> u8" where "join1 a b = push_bit 2 a OR drop_bit 4 b"
definition join2 :: "u8 \<Rightarrow> u8 \<Rightarrow> u8" where "join2 b c = push_bit 4 b OR drop_bit 2 c"
definition join3 :: "u8 \<Rightarrow> u8 \<Rightarrow> u8" where "join3 c d = push_bit 6 c OR d"

text \<open>The loop over \<open>input.chunks(4)\<close> with the bytes decoded so far.\<close>

fun decode_groups :: "bytes list \<Rightarrow> bytes \<Rightarrow> bytes option" where
  "decode_groups [] out = Some out"
| "decode_groups (g # gs) out =
    (case read_sextets g of
       None \<Rightarrow> None
     | Some [] \<Rightarrow> Some out
     | Some [a] \<Rightarrow> None
     | Some [a, b] \<Rightarrow> decode_groups gs (out @ [join1 a b])
     | Some [a, b, c] \<Rightarrow> decode_groups gs (out @ [join1 a b, join2 b c])
     | Some (a # b # c # d # _) \<Rightarrow> decode_groups gs (out @ [join1 a b, join2 b c, join3 c d]))"

fun chunks4 :: "'a list \<Rightarrow> 'a list list" where
  "chunks4 [] = []"
| "chunks4 xs = take 4 xs # chunks4 (drop 4 xs)"

definition decode_base64 :: "bytes \<Rightarrow> bytes option" where
  "decode_base64 input = decode_groups (chunks4 input) []"

definition chap_sha1 :: "(bytes \<Rightarrow> bytes) \<Rightarrow> bytes \<Rightarrow> string \<Rightarrow> bytes result" where
  "chap_sha1 sha1 salt_line password =
    and_then (ok_or (get_range salt_line 0 SALT_B64_LEN)
      (Protocol ''greeting salt line is shorter than 44 bytes'')) (\<lambda>encoded.
    and_then (ok_or (decode_base64 encoded) (Protocol ''greeting salt is not valid base64'')) (\<lambda>salt.
    and_then (ok_or (get_range salt 0 SALT_USED_LEN)
      (Protocol ''greeting salt decodes to fewer than 20 bytes'')) (\<lambda>salt.
    let step_1 = sha1 (str_bytes password);
        step_2 = sha1 step_1;
        step_3 = sha1 (salt @ step_2)
    in Ok (map2 (XOR) step_1 step_3))))"

section \<open>Base64 of the standard\<close>

definition b64_symbol :: "u8 \<Rightarrow> u8" where
  "b64_symbol s =
    (if s < 26 then s + 65 else if s < 52 then s - 26 + 97 else if s < 62 then s - 52 + 48
     else if s = 62 then 43 else 47)"

fun b64_encode :: "bytes \<Rightarrow> bytes" where
  "b64_encode [] = []"
| "b64_encode [a] = [b64_symbol (drop_bit 2 a), b64_symbol (push_bit 4 (take_bit 2 a)), 61, 61]"
| "b64_encode [a, b] =
    [b64_symbol (drop_bit 2 a), b64_symbol (push_bit 4 (take_bit 2 a) OR drop_bit 4 b),
     b64_symbol (push_bit 2 (take_bit 4 b)), 61]"
| "b64_encode (a # b # c # bs) =
    [b64_symbol (drop_bit 2 a), b64_symbol (push_bit 4 (take_bit 2 a) OR drop_bit 4 b),
     b64_symbol (push_bit 2 (take_bit 4 b) OR drop_bit 6 c), b64_symbol (take_bit 6 c)] @ b64_encode bs"

lemma b64_symbol_decode:
  assumes "unat s < 64"
  shows "decode_symbol (b64_symbol s) = Some s" "b64_symbol s \<noteq> 61"
proof -
  have "list_all (\<lambda>n. decode_symbol (b64_symbol (of_nat n)) = Some (of_nat n) \<and> b64_symbol (of_nat n) \<noteq> 61) [0..<64]"
    by code_simp
  then have "decode_symbol (b64_symbol (of_nat (unat s))) = Some (of_nat (unat s)) \<and> b64_symbol (of_nat (unat s)) \<noteq> 61"
    using assms unfolding list_all_iff set_upt by (auto dest!: bspec [of _ _ "unat s"])
  then show "decode_symbol (b64_symbol s) = Some s" "b64_symbol s \<noteq> 61" by simp_all
qed

lemma sextet_small:
  fixes x :: u8
  assumes "\<And>n. bit x n \<Longrightarrow> n < 6"
  shows "unat x < 64"
proof -
  have "x = take_bit 6 x" by (rule bit_word_eqI) (use assms in \<open>auto simp: bit_simps\<close>)
  then have "unat x = take_bit 6 (unat x)" by (metis unsigned_take_bit_eq)
  then show ?thesis using take_bit_nat_less_exp [of 6 "unat x"] by simp
qed

lemma sextets:
  "unat (drop_bit 2 a :: u8) < 64" "unat (push_bit 4 (take_bit 2 a) OR drop_bit 4 b :: u8) < 64"
  "unat (push_bit 2 (take_bit 4 b) OR drop_bit 6 c :: u8) < 64" "unat (take_bit 6 c :: u8) < 64"
  "unat (push_bit 4 (take_bit 2 a) :: u8) < 64" "unat (push_bit 2 (take_bit 4 b) :: u8) < 64"
  by (rule sextet_small; auto simp: bit_simps dest: bit_imp_le_length)+

lemma byte_high: "8 \<le> n \<Longrightarrow> \<not> bit (b :: u8) n"
  by (auto dest: bit_imp_le_length)

lemma byte_eqI:
  fixes x y :: u8
  assumes "bit x 0 = bit y 0" "bit x 1 = bit y 1" "bit x 2 = bit y 2" "bit x 3 = bit y 3"
    "bit x 4 = bit y 4" "bit x 5 = bit y 5" "bit x 6 = bit y 6" "bit x 7 = bit y 7"
  shows "x = y"
proof (rule bit_word_eqI)
  fix n assume "n < LENGTH(8)"
  then have "n \<in> {0, 1, 2, 3, 4, 5, 6, 7}" by auto
  then show "bit x n = bit y n" using assms by auto
qed

lemma joins:
  "join1 (drop_bit 2 a) (push_bit 4 (take_bit 2 a) OR drop_bit 4 b) = a"
  "join2 (push_bit 4 (take_bit 2 a) OR drop_bit 4 b) (push_bit 2 (take_bit 4 b) OR drop_bit 6 c) = b"
  "join3 (push_bit 2 (take_bit 4 b) OR drop_bit 6 c) (take_bit 6 c) = c"
  "join1 (drop_bit 2 a) (push_bit 4 (take_bit 2 a)) = a"
  "join2 (push_bit 4 (take_bit 2 a) OR drop_bit 4 b) (push_bit 2 (take_bit 4 b)) = b"
  unfolding join1_def join2_def join3_def
  by (rule byte_eqI; simp add: bit_simps byte_high)+

lemma decode_groups_encode: "decode_groups (chunks4 (b64_encode bs)) out = Some (out @ bs)"
proof (induction bs arbitrary: out rule: b64_encode.induct)
  case (4 a b c bs)
  show ?case using 4 [of "out @ [a, b, c]"]
    by (simp add: b64_symbol_decode sextets joins)
qed (simp_all add: b64_symbol_decode sextets joins)


lemma length_b64_encode: "length (b64_encode bs) = 4 * ((length bs + 2) div 3)"
proof (induction bs rule: b64_encode.induct)
  case (4 a b c bs)
  have "(length bs + 5) div 3 = Suc ((length bs + 2) div 3)" using div_add_self2 [of 3 "length bs + 2"] by simp
  with 4 show ?case by (simp add: add.commute)
qed simp_all

lemma base64_decodes: "decode_base64 (b64_encode bs) = Some bs"
  by (simp add: decode_base64_def decode_groups_encode)

lemma decode_groups_padding:
  "length pre mod 3 = 0 \<Longrightarrow> decode_groups (chunks4 (b64_encode pre @ 61 # junk)) out = Some (out @ pre)"
proof (induction pre arbitrary: out rule: b64_encode.induct)
  case (4 a b c bs)
  have "length bs mod 3 = 0" using "4.prems" by (simp add: mod_Suc split: if_splits)
  then show ?case using "4.IH" [of "out @ [a, b, c]"]
    by (simp add: b64_symbol_decode sextets joins)
qed simp_all

text \<open>
  Reading base64 inverts the standard encoder for every byte string, with each of the three padding
  lengths.\<close>
theorem base64_round_trip: "decode_base64 (b64_encode bs) = Some bs"
  by (rule base64_decodes)

section \<open>The scramble\<close>

text \<open>
  The documented check of the server: it knows the salt and the twice-hashed password, recovers the
  once-hashed password from the scramble and hashes it again.
\<close>

definition server_accepts :: "(bytes \<Rightarrow> bytes) \<Rightarrow> bytes \<Rightarrow> bytes \<Rightarrow> bytes \<Rightarrow> bool" where
  "server_accepts sha1 salt stored scramble =
    (sha1 (map2 (XOR) scramble (sha1 (salt @ stored))) = stored)"

lemma xor_cancel: "length a = length b \<Longrightarrow> map2 (XOR) (map2 (XOR) a b) b = (a :: bytes)"
  by (induction a b rule: list_induct2) (simp_all add: xor.assoc)

lemma chap_sha1_scramble:
  assumes "\<And>m. length (sha1 m) = 20" and "length salt = 32"
  shows "\<exists>s. chap_sha1 sha1 (b64_encode salt @ pad) password = Ok s \<and> length s = 20 \<and>
    server_accepts sha1 (take 20 salt) (sha1 (sha1 (str_bytes password))) s"
proof -
  have "take 44 (b64_encode salt @ pad) = b64_encode salt"
    using assms(2) by (simp add: length_b64_encode)
  then have "chap_sha1 sha1 (b64_encode salt @ pad) password =
    Ok (map2 (XOR) (sha1 (str_bytes password)) (sha1 (take 20 salt @ sha1 (sha1 (str_bytes password)))))"
    using assms(2) base64_decodes [of salt]
    by (simp add: chap_sha1_def SALT_B64_LEN_def SALT_USED_LEN_def get_range_def length_b64_encode Let_def)
  then show ?thesis
    using assms(1) by (simp add: server_accepts_def xor_cancel)
qed

text \<open>
  For a greeting whose second line starts with the base64 of a 32-byte salt, the scramble has twenty
  bytes and passes the server's check against the stored hash of the same password.\<close>
theorem chap_sha1_authenticates:
  assumes "\<And>m. length (sha1 m) = 20" and "length salt = 32"
  shows "\<exists>s. chap_sha1 sha1 (b64_encode salt @ pad) password = Ok s \<and> length s = 20 \<and>
    server_accepts sha1 (take 20 salt) (sha1 (sha1 (str_bytes password))) s"
  by (rule chap_sha1_scramble [OF assms])

theorem chap_sha1_authenticates_witness:
  "\<exists>s. chap_sha1 (\<lambda>m. take 20 (m @ replicate 20 7)) (b64_encode (replicate 32 9) @ [32]) ''secret'' = Ok s \<and>
    length s = 20 \<and> server_accepts (\<lambda>m. take 20 (m @ replicate 20 7)) (take 20 (replicate 32 9))
      (take 20 (take 20 (str_bytes ''secret'' @ replicate 20 7) @ replicate 20 7)) s"
  by (rule chap_sha1_authenticates) simp_all

text \<open>
  The scramble never panics, and it is computed exactly for a salt line of at least 44 bytes that are
  base64 for at least twenty; everything else is a protocol error.\<close>
theorem chap_sha1_outcome:
  "chap_sha1 sha1 line password \<noteq> Panic \<and>
   ((\<exists>s. chap_sha1 sha1 line password = Ok s) \<longleftrightarrow>
     44 \<le> length line \<and> (\<exists>salt. decode_base64 (take 44 line) = Some salt \<and> 20 \<le> length salt)) \<and>
   (case chap_sha1 sha1 line password of Ok _ \<Rightarrow> True | Err e \<Rightarrow> \<exists>m. e = Protocol m | Panic \<Rightarrow> False)"
proof (cases "44 \<le> length line")
  case False
  then show ?thesis by (simp add: chap_sha1_def SALT_B64_LEN_def get_range_def)
next
  case True
  then show ?thesis
    by (cases "decode_base64 (take 44 line)")
      (auto simp: chap_sha1_def SALT_B64_LEN_def SALT_USED_LEN_def get_range_def Let_def simp del: ok_or_eq_Ok)
qed

text \<open>
  Padding ends the input.  A group that opens with the padding symbol stops the reader, and what follows
  a padding symbol in a group is skipped unread, so input outside the alphabet can be accepted.\<close>
theorem base64_padding_ends_input:
  "length pre mod 3 = 0 \<Longrightarrow> decode_base64 (b64_encode pre @ 61 # junk) = Some pre"
  unfolding decode_base64_def using decode_groups_padding [of pre junk "[]"] by simp

theorem base64_padding_ends_input_witness:
  "decode_base64 (b64_encode [1, 2, 3] @ 61 # str_bytes ''!!'') = Some [1, 2, 3]"
  by (rule base64_padding_ends_input) simp

end
