(* ===== verification/Handshake.thy ===== *)
theory Handshake
  imports Connection Auth
begin

text \<open>
  \<^verbatim>\<open>src/src/connection.rs\<close>, the handshake: reading the greeting, announcing features, authenticating.  The socket
  is a record of what each of its operations returns; the handshake yields the packets it wrote, in order, and its result.
  SHA-1 and serde are parameters.
\<close>

section \<open>Text functions of the standard library\<close>

text \<open>\<open>String::from_utf8_lossy\<close>: each maximal malformed piece becomes U+FFFD.\<close>

definition replacement :: bytes where "replacement = [0xef, 0xbf, 0xbd]"

definition second_ok :: "u8 \<Rightarrow> u8 \<Rightarrow> bool" where
  "second_ok a b =
    (if a = 0xe0 then 0xa0 \<le> b \<and> b \<le> 0xbf
     else if a = 0xed then 0x80 \<le> b \<and> b \<le> 0x9f
     else if a = 0xf0 then 0x90 \<le> b \<and> b \<le> 0xbf
     else if a = 0xf4 then 0x80 \<le> b \<and> b \<le> 0x8f
     else utf8_cont b)"

text \<open>The next piece: whether it is well formed, and how many bytes it has.\<close>

definition utf8_piece :: "u8 \<Rightarrow> bytes \<Rightarrow> bool \<times> nat" where
  "utf8_piece a bs =
    (if a < 0x80 then (True, 1)
     else if 0xc2 \<le> a \<and> a \<le> 0xdf then
       (case bs of b # _ \<Rightarrow> if utf8_cont b then (True, 2) else (False, 1) | _ \<Rightarrow> (False, 1))
     else if 0xe0 \<le> a \<and> a \<le> 0xef then
       (case bs of
          [] \<Rightarrow> (False, 1)
        | b # r \<Rightarrow>
            if \<not> second_ok a b then (False, 1)
            else (case r of c # _ \<Rightarrow> if utf8_cont c then (True, 3) else (False, 2) | _ \<Rightarrow> (False, 2)))
     else if 0xf0 \<le> a \<and> a \<le> 0xf4 then
       (case bs of
          [] \<Rightarrow> (False, 1)
        | b # r \<Rightarrow>
            if \<not> second_ok a b then (False, 1)
            else (case r of
                [] \<Rightarrow> (False, 2)
              | c # r \<Rightarrow>
                  if \<not> utf8_cont c then (False, 2)
                  else (case r of d # _ \<Rightarrow> if utf8_cont d then (True, 4) else (False, 3) | _ \<Rightarrow> (False, 3))))
     else (False, 1))"

function utf8_lossy :: "bytes \<Rightarrow> bytes" where
  "utf8_lossy [] = []"
| "utf8_lossy (a # bs) = (let (ok, n) = utf8_piece a bs in
    (if ok then a # take (n - 1) bs else replacement) @ utf8_lossy (drop (n - 1) bs))"
  by pat_completeness auto
termination by (relation "measure length") auto

declare utf8_lossy.simps(2) [simp del]

definition trim_end_matches :: "(char \<Rightarrow> bool) \<Rightarrow> string \<Rightarrow> string" where
  "trim_end_matches p s = rev (dropWhile p (rev s))"

text \<open>
  \<open>split_whitespace().next()\<close> on UTF-8 text: the number of bytes of a white-space character at the front, and the first
  run of other bytes.
\<close>

definition whitespace_len :: "bytes \<Rightarrow> nat" where
  "whitespace_len s = (case s of
     [] \<Rightarrow> 0
   | a # r \<Rightarrow>
      if 9 \<le> a \<and> a \<le> 13 \<or> a = 32 then 1
      else if a = 0xc2 then (case r of b # _ \<Rightarrow> if b = 0x85 \<or> b = 0xa0 then 2 else 0 | [] \<Rightarrow> 0)
      else (case r of
          b # c # _ \<Rightarrow>
            if a = 0xe1 \<and> b = 0x9a \<and> c = 0x80
              \<or> a = 0xe2 \<and> b = 0x80 \<and> (0x80 \<le> c \<and> c \<le> 0x8a \<or> c = 0xa8 \<or> c = 0xa9 \<or> c = 0xaf)
              \<or> a = 0xe2 \<and> b = 0x81 \<and> c = 0x9f
              \<or> a = 0xe3 \<and> b = 0x80 \<and> c = 0x80
            then 3 else 0
        | _ \<Rightarrow> 0))"

fun word_prefix :: "bytes \<Rightarrow> bytes" where
  "word_prefix [] = []"
| "word_prefix (a # s) = (if whitespace_len (a # s) > 0 then [] else a # word_prefix s)"

function trim_start :: "bytes \<Rightarrow> bytes" where
  "trim_start s = (if whitespace_len s = 0 then s else trim_start (drop (whitespace_len s) s))"
  by auto
termination
  by (relation "measure length") (auto simp: whitespace_len_def split: list.splits if_splits)

declare trim_start.simps [simp del]

definition first_word :: "string \<Rightarrow> string option" where
  "first_word s = (let w = word_prefix (trim_start (str_bytes s)) in if w = [] then None else Some (bytes_str w))"

section \<open>The handshake\<close>

record negotiated =
  server_version :: string
  protocol_version :: u64
  features :: "feature set"

definition supports :: "negotiated \<Rightarrow> feature \<Rightarrow> bool" where
  "supports n f = (f \<in> features n)"

definition greeting_version :: "bytes \<Rightarrow> string result" where
  "greeting_version greeting =
    (let banner = trim_end_matches (\<lambda>c. c = CHR 0x00 \<or> c = CHR 0x0A) (bytes_str (utf8_lossy (take 64 greeting)))
     in ok_or (Option.bind (strip_prefix ''Tarantool '' banner) first_word)
       (Protocol (''unexpected greeting `'' @ banner @ ''`'')))"

definition SCRAMBLE_LEN :: u32 where "SCRAMBLE_LEN = 20"

definition id_packet :: "rmp \<Rightarrow> (u64 list \<Rightarrow> (string, bytes) outcome) \<Rightarrow> bytes result" where
  "id_packet R ser =
    and_then (request_uint R KEY_VERSION PROTOCOL_VERSION (request_new R REQ_ID 0 None)) (\<lambda>q.
    and_then (request_serialized R KEY_FEATURES (ser (map feature_code ANNOUNCED)) True q) (\<lambda>q.
    map_ok (request_finish R) (request_str R KEY_AUTH_TYPE CHAP_SHA1 q)))"

definition auth_packet :: "rmp \<Rightarrow> (bytes \<Rightarrow> bytes) \<Rightarrow> string \<Rightarrow> string \<Rightarrow> bytes \<Rightarrow> bytes result" where
  "auth_packet R sha1 usr pass salt_line =
    and_then (chap_sha1 sha1 salt_line pass) (\<lambda>scramble.
    let tuple = write_array_len R 2 @ write_str R CHAP_SHA1 @ write_str_len R SCRAMBLE_LEN @ scramble in
    and_then (request_str R KEY_USER_NAME usr (request_new R REQ_AUTH 1 None)) (\<lambda>q.
    map_ok (request_finish R) (request_raw R KEY_TUPLE tuple q)))"

definition next_reply :: "response result option \<Rightarrow> response result" where
  "next_reply received = (case received of Some r \<Rightarrow> r | None \<Rightarrow> Err Closed)"

definition parse_id :: "rmp \<Rightarrow> rmpv \<Rightarrow> response \<Rightarrow> string \<Rightarrow> negotiated result" where
  "parse_id R V reply version =
    and_then (body_map R V reply) (\<lambda>body.
    Ok \<lparr>server_version = version,
        protocol_version = unwrap_or (Option.bind (body (ucast KEY_VERSION)) (as_u64 V)) 0,
        features = (case Option.bind (body (ucast KEY_FEATURES)) (as_array V) of
            Some codes \<Rightarrow> set (List.map_filter from_code (List.map_filter (as_u64 V) codes))
          | None \<Rightarrow> {})\<rparr>)"

text \<open>What the socket does during one handshake.\<close>

record socket =
  so_connect :: "unit result"
  so_nodelay :: "unit result"
  so_greeting :: "bytes result"
  so_send_id :: "unit result"
  so_send_auth :: "unit result"
  so_id_reply :: "response result option"
  so_auth_reply :: "response result option"

definition written_then :: "bytes list \<times> 'a result \<Rightarrow> ('a \<Rightarrow> bytes list \<times> 'b result) \<Rightarrow> bytes list \<times> 'b result" where
  "written_then m f = (case m of
     (ps, Ok x) \<Rightarrow> (case f x of (qs, r) \<Rightarrow> (ps @ qs, r))
   | (ps, Err e) \<Rightarrow> (ps, Err e)
   | (ps, Panic) \<Rightarrow> (ps, Panic))"

definition quiet :: "'a result \<Rightarrow> bytes list \<times> 'a result" where
  "quiet r = ([], r)"

definition link_send :: "unit result \<Rightarrow> bytes \<Rightarrow> bytes list \<times> unit result" where
  "link_send res packet = (case encode packet [] of
     Ok _ \<Rightarrow> ([packet], res) | Err e \<Rightarrow> ([], Err e) | Panic \<Rightarrow> ([], Panic))"

definition negotiate :: "rmp \<Rightarrow> rmpv \<Rightarrow> response \<Rightarrow> string \<Rightarrow> negotiated result" where
  "negotiate R V id_reply version = (case rs_kind id_reply of
     KOk \<Rightarrow> parse_id R V id_reply version
   | KError \<Rightarrow> Ok \<lparr>server_version = version, protocol_version = 0, features = {}\<rparr>
   | _ \<Rightarrow> Err (Protocol ''unexpected reply to IPROTO_ID''))"

definition login_user :: "connect_options \<Rightarrow> string option" where
  "login_user options = (case user_name options of Some u \<Rightarrow> if u \<noteq> ''guest'' then Some u else None | None \<Rightarrow> None)"

definition handshake_inner ::
  "rmp \<Rightarrow> rmpv \<Rightarrow> (u64 list \<Rightarrow> (string, bytes) outcome) \<Rightarrow> (bytes \<Rightarrow> bytes) \<Rightarrow> connect_options \<Rightarrow> socket \<Rightarrow>
    bytes list \<times> negotiated result" where
  "handshake_inner R V ser sha1 options so =
    written_then (quiet (so_connect so)) (\<lambda>_.
    written_then (quiet (so_nodelay so)) (\<lambda>_.
    written_then (quiet (so_greeting so)) (\<lambda>greeting.
    written_then (quiet (greeting_version greeting)) (\<lambda>version.
    let salt_line = take 64 (drop 64 greeting) in
    written_then (quiet (id_packet R ser)) (\<lambda>id_packet.
    written_then (link_send (so_send_id so) id_packet) (\<lambda>_.
    written_then (case login_user options of
        None \<Rightarrow> quiet (Ok ())
      | Some u \<Rightarrow>
          written_then (quiet (auth_packet R sha1 u (password_str options) salt_line)) (\<lambda>packet.
          link_send (so_send_auth so) packet)) (\<lambda>_.
    written_then (quiet (next_reply (so_id_reply so))) (\<lambda>id_reply.
    written_then (quiet (negotiate R V id_reply version)) (\<lambda>negotiated.
    case login_user options of
      None \<Rightarrow> quiet (Ok negotiated)
    | Some u \<Rightarrow>
        written_then (quiet (next_reply (so_auth_reply so))) (\<lambda>auth_reply.
        if rs_kind auth_reply = KError then quiet (Err (Auth u (into_error auth_reply)))
        else quiet (Ok negotiated)))))))))))"

text \<open>\<open>handshake\<close>: the whole of it under the connect timeout.\<close>

definition handshake :: "connect_options \<Rightarrow> bool \<Rightarrow> bytes list \<times> negotiated result \<Rightarrow> bytes list \<times> negotiated result" where
  "handshake options elapsed inner =
    (if elapsed then (fst inner, Err (Timeout (connect_timeout options))) else inner)"

section \<open>The greeting\<close>

lemma utf8_lossy_ascii: "\<forall>b \<in> set bs. b < 0x80 \<Longrightarrow> utf8_lossy bs = bs"
  by (induction bs) (auto simp: utf8_lossy.simps(2) utf8_piece_def)

lemma trim_end_matches_keep: "\<not> p c \<Longrightarrow> trim_end_matches p (a @ c # b) = a @ c # trim_end_matches p b"
proof -
  assume c: "\<not> p c"
  have "dropWhile p (rev b @ c # rev a) = dropWhile p (rev b) @ c # rev a"
    using c by (induction "rev b") (auto simp: dropWhile_append)
  then show ?thesis by (simp add: trim_end_matches_def)
qed

text \<open>A version is text without white space; it ends at the first blank.\<close>

definition version_text :: "string \<Rightarrow> bool" where
  "version_text v \<longleftrightarrow> v \<noteq> [] \<and> (\<forall>c \<in> set v. 33 \<le> byte_of_char c \<and> byte_of_char c < 0x7f)"

lemma whitespace_len_visible: "33 \<le> a \<Longrightarrow> a < 0x7f \<Longrightarrow> whitespace_len (a # s) = 0"
proof -
  assume a: "33 \<le> a" "a < 0x7f"
  then have "\<not> (9 \<le> a \<and> a \<le> 13 \<or> a = 32)" "a \<noteq> 0xc2" "a \<noteq> 0xe1" "a \<noteq> 0xe2" "a \<noteq> 0xe3" by (auto simp: word_le_nat_alt word_less_nat_alt)
  then show ?thesis by (auto simp: whitespace_len_def split: list.split)
qed

lemma word_prefix_version:
  "\<forall>b \<in> set v. 33 \<le> b \<and> b < 0x7f \<Longrightarrow> word_prefix (v @ 32 # rest) = v"
  by (induction v) (auto simp: whitespace_len_visible whitespace_len_def [of "32 # rest"])

lemma first_word_version:
  assumes "version_text v"
  shows "first_word (v @ CHR '' '' # rest) = Some v"
proof -
  let ?v = "str_bytes v"
  have b: "\<forall>b \<in> set ?v. 33 \<le> b \<and> b < 0x7f" using assms by (auto simp: version_text_def str_bytes_def)
  obtain a w where v: "?v = a # w" using assms by (cases v) (auto simp: version_text_def str_bytes_def)
  have bytes: "str_bytes (v @ CHR '' '' # rest) = ?v @ 32 # str_bytes rest"
    by (simp add: str_bytes_def byte_of_char_def)
  have "whitespace_len (?v @ 32 # str_bytes rest) = 0" using b v by (simp add: whitespace_len_visible)
  then have "trim_start (?v @ 32 # str_bytes rest) = ?v @ 32 # str_bytes rest" by (subst trim_start.simps) simp
  then show ?thesis
    using v word_prefix_version [OF b, of "str_bytes rest"] str_bytes_inverse [of v]
    unfolding first_word_def bytes by (simp add: Let_def)
qed

lemma greeting_version_eq:
  assumes "take 64 greeting = str_bytes (''Tarantool '' @ v @ CHR '' '' # rest)"
    and "version_text v" "\<forall>b \<in> set (take 64 greeting). b < 0x80"
  shows "greeting_version greeting = Ok v"
proof -
  let ?p = "\<lambda>c. c = CHR 0x00 \<or> c = CHR 0x0A"
  have "trim_end_matches ?p (''Tarantool '' @ v @ CHR '' '' # rest) =
      ''Tarantool '' @ v @ CHR '' '' # trim_end_matches ?p rest"
    using trim_end_matches_keep [of ?p "CHR '' ''" "''Tarantool '' @ v" rest] by simp
  moreover have "bytes_str (utf8_lossy (take 64 greeting)) = ''Tarantool '' @ v @ CHR '' '' # rest"
    using utf8_lossy_ascii [OF assms(3)] assms(1) by (metis str_bytes_inverse)
  ultimately show ?thesis
    unfolding greeting_version_def Let_def by (simp only: strip_prefix_append Option.bind.simps first_word_version [OF assms(2)] ok_or.simps)
qed

text \<open>
  The server's version is read from its greeting: the word after the product name, whatever follows
  it.\<close>
theorem greeting_gives_version:
  assumes "version_text v" "take 64 greeting = str_bytes (''Tarantool '' @ v @ CHR '' '' # rest)"
    and "\<forall>b \<in> set (take 64 greeting). b < 0x80"
  shows "greeting_version greeting = Ok v"
  using assms by (intro greeting_version_eq)

theorem greeting_gives_version_witness:
  "greeting_version (str_bytes (''Tarantool '' @ ''3.1.0'' @ CHR '' '' # ''(Binary) 1e2f'')) = Ok ''3.1.0''"
proof (rule greeting_gives_version)
  show "take 64 (str_bytes (''Tarantool '' @ ''3.1.0'' @ CHR '' '' # ''(Binary) 1e2f'')) =
    str_bytes (''Tarantool '' @ ''3.1.0'' @ CHR '' '' # ''(Binary) 1e2f'')" by simp
  show "version_text ''3.1.0''" by (simp add: version_text_def byte_of_char_def)
  have "list_all (\<lambda>b. b < 0x80) (take 64 (str_bytes (''Tarantool '' @ ''3.1.0'' @ CHR '' '' # ''(Binary) 1e2f'')))"
    by code_simp
  then show "\<forall>b \<in> set (take 64 (str_bytes (''Tarantool '' @ ''3.1.0'' @ CHR '' '' # ''(Binary) 1e2f''))). b < 0x80"
    by (simp add: list_all_iff)
qed

section \<open>What the handshake does\<close>

lemma written_then_Ok:
  "written_then m f = (ps, Ok y) \<longleftrightarrow> (\<exists>x qs rs. m = (qs, Ok x) \<and> f x = (rs, Ok y) \<and> ps = qs @ rs)"
  by (cases m; cases "snd m") (auto simp: written_then_def split: prod.splits)

lemma quiet_Ok: "quiet r = (ps, Ok x) \<longleftrightarrow> ps = [] \<and> r = Ok x"
  by (auto simp: quiet_def)

lemma link_send_Ok: "link_send res p = (ps, Ok x) \<longleftrightarrow> ps = [p] \<and> res = Ok x \<and> length p < 2 ^ 32"
  by (auto simp: link_send_def encode_def)

lemmas handshake_simps = written_then_Ok quiet_Ok link_send_Ok

lemma id_packet_eq: "id_packet R ser = request_packet R REQ_ID 0 None
    [FUint KEY_VERSION PROTOCOL_VERSION, FSerialized KEY_FEATURES (ser (map feature_code ANNOUNCED)) True, FStr KEY_AUTH_TYPE CHAP_SHA1]"
  by (simp add: id_packet_def request_packet_def outcome_fusion del: and_then_eq_Ok map_ok_eq_Ok)

lemma id_packet_Ok:
  assumes "id_packet R ser = Ok p"
  shows "\<exists>bs. ser (map feature_code ANNOUNCED) = Ok bs \<and>
    p = two_maps R (request_header R REQ_ID 0 None)
      [(0x54, write_uint R PROTOCOL_VERSION), (0x55, bs), (0x5b, write_str R ''chap-sha1'')]"
  using assms unfolding id_packet_eq
  by (auto simp: request_packet_spec outcome_simps to_msgpack_def map_err_eq_Ok CHAP_SHA1_def split: if_splits)

lemma features_read:
  "f \<in> (case Option.bind v (as_array V) of
       Some codes \<Rightarrow> set (List.map_filter from_code (List.map_filter (as_u64 V) codes)) | None \<Rightarrow> {}) \<longleftrightarrow>
    (\<exists>x codes c. v = Some x \<and> as_array V x = Some codes \<and> c \<in> set codes \<and> as_u64 V c = Some (feature_code f))"
  by (auto simp: List.map_filter_def from_code_Some image_iff split: option.splits Option.bind_splits) (metis from_code_code option.sel option.simps(3))+

lemma handshake_inner_Ok:
  assumes "handshake_inner R V ser sha1 options so = (sent, Ok n)"
  shows "\<exists>greeting version announcement reply.
    so_greeting so = Ok greeting \<and> greeting_version greeting = Ok version \<and> id_packet R ser = Ok announcement \<and>
    so_id_reply so = Some (Ok reply) \<and> negotiate R V reply version = Ok n \<and>
    (case login_user options of
       None \<Rightarrow> sent = [announcement]
     | Some u \<Rightarrow> \<exists>credentials verdict.
         auth_packet R sha1 u (password_str options) (take 64 (drop 64 greeting)) = Ok credentials \<and>
         sent = [announcement, credentials] \<and> so_auth_reply so = Some (Ok verdict) \<and> rs_kind verdict \<noteq> KError)"
proof (cases "login_user options")
  case None
  then show ?thesis
    using assms unfolding handshake_inner_def Let_def
    by (auto simp: handshake_simps next_reply_def split: option.splits)
next
  case (Some u)
  then show ?thesis
    using assms unfolding handshake_inner_def Let_def
    by (auto simp: handshake_simps next_reply_def split: option.splits if_splits)
qed

lemma negotiate_Ok:
  assumes "negotiate R V reply version = Ok n"
  shows "server_version n = version"
    and "rs_kind reply = KError \<and> protocol_version n = 0 \<and> features n = {} \<or>
      rs_kind reply = KOk \<and> (\<exists>body. body_map R V reply = Ok body \<and>
        protocol_version n = (case body 0x54 of
            Some v \<Rightarrow> (case as_u64 V v of Some k \<Rightarrow> k | None \<Rightarrow> 0) | None \<Rightarrow> 0) \<and>
        (\<forall>f. f \<in> features n \<longleftrightarrow> (\<exists>v codes c. body 0x55 = Some v \<and> as_array V v = Some codes \<and> c \<in> set codes \<and>
          as_u64 V c = Some (feature_code f))))"
proof -
  show "server_version n = version"
    using assms by (auto simp: negotiate_def parse_id_def split: kind.splits)
  have v: "unwrap_or (Option.bind x (as_u64 V)) 0 = (case x of Some v \<Rightarrow> (case as_u64 V v of Some k \<Rightarrow> k | None \<Rightarrow> 0) | None \<Rightarrow> 0)" for x
    by (cases x) (simp_all add: unwrap_or_def)
  show "rs_kind reply = KError \<and> protocol_version n = 0 \<and> features n = {} \<or>
      rs_kind reply = KOk \<and> (\<exists>body. body_map R V reply = Ok body \<and>
        protocol_version n = (case body 0x54 of
            Some v \<Rightarrow> (case as_u64 V v of Some k \<Rightarrow> k | None \<Rightarrow> 0) | None \<Rightarrow> 0) \<and>
        (\<forall>f. f \<in> features n \<longleftrightarrow> (\<exists>v codes c. body 0x55 = Some v \<and> as_array V v = Some codes \<and> c \<in> set codes \<and>
          as_u64 V c = Some (feature_code f))))"
  proof (cases "rs_kind reply")
    case KOk
    then obtain body where body: "body_map R V reply = Ok body"
        "n = \<lparr>server_version = version, protocol_version = unwrap_or (Option.bind (body 0x54) (as_u64 V)) 0,
          features = (case Option.bind (body 0x55) (as_array V) of
            Some codes \<Rightarrow> set (List.map_filter from_code (List.map_filter (as_u64 V) codes)) | None \<Rightarrow> {})\<rparr>"
      using assms by (auto simp: negotiate_def parse_id_def)
    then show ?thesis using KOk by (intro disjI2 conjI exI [of _ body]) (simp_all add: v features_read)
  qed (use assms in \<open>auto simp: negotiate_def\<close>)
qed

text \<open>
  C21: a handshake that succeeds.  The first packet it wrote announces the protocol version, the features this client knows
  and the mechanism \<open>chap-sha1\<close>.  Without a user, and for the user \<open>guest\<close>, it wrote nothing else; for any
  other user it wrote one more packet, the credentials for the salt of the greeting, and the server did not refuse them.  The
  server version is that of the greeting.  From a server that rejects the announcement the session has protocol version 0 and no
  feature at all; otherwise its version and its features are exactly the numbers the reply lists, those this client does not know
  left out.\<close>
theorem handshake_success:
  assumes "handshake_inner R V ser sha1 options so = (sent, Ok n)"
  shows "\<exists>greeting announced reply.
    so_greeting so = Ok greeting \<and> greeting_version greeting = Ok (server_version n) \<and>
    ser (map feature_code ANNOUNCED) = Ok announced \<and> so_id_reply so = Some (Ok reply) \<and>
    sent ! 0 = two_maps R (request_header R REQ_ID 0 None)
      [(0x54, write_uint R PROTOCOL_VERSION), (0x55, announced), (0x5b, write_str R ''chap-sha1'')] \<and>
    (if user_name options = None \<or> user_name options = Some ''guest'' then length sent = 1
     else \<exists>u credentials verdict. user_name options = Some u \<and>
       auth_packet R sha1 u (password_str options) (take 64 (drop 64 greeting)) = Ok credentials \<and>
       length sent = 2 \<and> sent ! 1 = credentials \<and> so_auth_reply so = Some (Ok verdict) \<and> rs_kind verdict \<noteq> KError) \<and>
    (rs_kind reply = KError \<and> protocol_version n = 0 \<and> features n = {} \<or>
     rs_kind reply = KOk \<and> (\<exists>body. body_map R V reply = Ok body \<and>
       protocol_version n = (case body 0x54 of
           Some v \<Rightarrow> (case as_u64 V v of Some k \<Rightarrow> k | None \<Rightarrow> 0) | None \<Rightarrow> 0) \<and>
       (\<forall>f. f \<in> features n \<longleftrightarrow> (\<exists>v codes c. body 0x55 = Some v \<and> as_array V v = Some codes \<and> c \<in> set codes \<and>
         as_u64 V c = Some (feature_code f)))))"
proof -
  obtain greeting version announcement reply where h:
      "so_greeting so = Ok greeting" "greeting_version greeting = Ok version" "id_packet R ser = Ok announcement"
      "so_id_reply so = Some (Ok reply)" "negotiate R V reply version = Ok n"
      "case login_user options of
         None \<Rightarrow> sent = [announcement]
       | Some u \<Rightarrow> \<exists>credentials verdict.
           auth_packet R sha1 u (password_str options) (take 64 (drop 64 greeting)) = Ok credentials \<and>
           sent = [announcement, credentials] \<and> so_auth_reply so = Some (Ok verdict) \<and> rs_kind verdict \<noteq> KError"
    using handshake_inner_Ok [OF assms] by blast
  obtain announced where a: "ser (map feature_code ANNOUNCED) = Ok announced"
      "announcement = two_maps R (request_header R REQ_ID 0 None)
        [(0x54, write_uint R PROTOCOL_VERSION), (0x55, announced), (0x5b, write_str R ''chap-sha1'')]"
    using id_packet_Ok [OF h(3)] by blast
  have s: "sent ! 0 = announcement" using h(6) by (auto split: option.splits)
  have u: "if user_name options = None \<or> user_name options = Some ''guest'' then length sent = 1
     else \<exists>u credentials verdict. user_name options = Some u \<and>
       auth_packet R sha1 u (password_str options) (take 64 (drop 64 greeting)) = Ok credentials \<and>
       length sent = 2 \<and> sent ! 1 = credentials \<and> so_auth_reply so = Some (Ok verdict) \<and> rs_kind verdict \<noteq> KError"
    using h(6) by (auto simp: login_user_def split: option.splits if_splits)
  show ?thesis
    using h(1,2,4) a s u negotiate_Ok [OF h(5)] by (intro exI [of _ greeting] exI [of _ announced] exI [of _ reply]) auto
qed

text \<open>A server older than 2.10: it rejects the announcement and asks for none.\<close>

definition demo_sha1 :: "bytes \<Rightarrow> bytes" where
  "demo_sha1 m = take 20 (m @ replicate 20 7)"

definition demo_ser :: "u64 list \<Rightarrow> (string, bytes) outcome" where
  "demo_ser codes = Ok (write_array_len ref_rmp (of_nat (length codes)) @ concat (map (write_uint ref_rmp) codes))"

definition demo_greeting :: bytes where
  "demo_greeting = str_bytes (''Tarantool 2.8.1 (Binary) '' @ replicate 39 (CHR '' '')) @ replicate 64 65"

definition demo_socket :: socket where
  "demo_socket = \<lparr>so_connect = Ok (), so_nodelay = Ok (), so_greeting = Ok demo_greeting, so_send_id = Ok (),
    so_send_auth = Ok (), so_id_reply = Some (Ok (empty_response KError 0 None [])),
    so_auth_reply = Some (Ok (empty_response KOk 1 None []))\<rparr>"

definition demo_guest :: connect_options where
  "demo_guest = options_new ''db''"

theorem handshake_success_witness:
  "\<exists>sent. handshake_inner ref_rmp ref_rmpv demo_ser demo_sha1 demo_guest demo_socket =
      (sent, Ok \<lparr>server_version = ''2.8.1'', protocol_version = 0, features = {}\<rparr>) \<and> length sent = 1 \<and>
    greeting_version demo_greeting = Ok ''2.8.1''"
proof -
  have v: "greeting_version demo_greeting = Ok ''2.8.1''" by code_simp
  have "case id_packet ref_rmp demo_ser of Ok p \<Rightarrow> length p < 2 ^ 32 | _ \<Rightarrow> False" by code_simp
  then obtain p where p: "id_packet ref_rmp demo_ser = Ok p" "length p < 2 ^ 32" by (auto split: outcome.splits)
  then have h: "handshake_inner ref_rmp ref_rmpv demo_ser demo_sha1 demo_guest demo_socket =
      (fst (handshake_inner ref_rmp ref_rmpv demo_ser demo_sha1 demo_guest demo_socket),
       Ok \<lparr>server_version = ''2.8.1'', protocol_version = 0, features = {}\<rparr>)"
    by (simp add: handshake_inner_def demo_socket_def quiet_def written_then_def v link_send_def encode_def
        demo_guest_def login_user_def user_name_def options_new_def next_reply_def negotiate_def empty_response_def
        del: map_ok_eq_Ok)
  have "user_name demo_guest = None" by (simp add: demo_guest_def user_name_def options_new_def)
  then show ?thesis using handshake_success [OF h] h v by (metis (no_types, lifting))
qed

text \<open>
  C23: the credentials packet.  For a greeting that carries a 32-byte salt, the packet is an authentication request
  whose body names the user and holds the mechanism and a scramble of twenty bytes that the server accepts for
  the password; the password itself enters it through the digest alone.\<close>
theorem auth_packet_authenticates:
  assumes "\<And>m. length (sha1 m) = 20" "length salt = 32"
  shows "\<exists>scramble. length scramble = 20 \<and>
    server_accepts sha1 (take 20 salt) (sha1 (sha1 (str_bytes pass))) scramble \<and>
    auth_packet R sha1 u pass (b64_encode salt @ pad) =
      Ok (two_maps R (request_header R REQ_AUTH 1 None)
        [(KEY_USER_NAME, write_str R u),
         (KEY_TUPLE, write_array_len R 2 @ write_str R CHAP_SHA1 @ write_str_len R 20 @ scramble)])"
proof -
  obtain s where s: "chap_sha1 sha1 (b64_encode salt @ pad) pass = Ok s" "length s = 20"
      "server_accepts sha1 (take 20 salt) (sha1 (sha1 (str_bytes pass))) s"
    using chap_sha1_scramble [of sha1 salt pad pass, OF assms] by blast
  let ?t = "write_array_len R 2 @ write_str R CHAP_SHA1 @ write_str_len R 20 @ s"
  have "auth_packet R sha1 u pass (b64_encode salt @ pad) =
      request_packet R REQ_AUTH 1 None [FStr KEY_USER_NAME u, FRaw KEY_TUPLE ?t]"
    by (simp add: auth_packet_def s(1) request_packet_def SCRAMBLE_LEN_def Let_def outcome_fusion del: and_then_eq_Ok map_ok_eq_Ok)
  then show ?thesis using s by (auto simp: request_packet_spec)
qed

theorem auth_packet_authenticates_witness:
  "\<exists>scramble. length scramble = 20 \<and>
    server_accepts demo_sha1 (take 20 (replicate 32 9)) (demo_sha1 (demo_sha1 (str_bytes ''secret''))) scramble \<and>
    auth_packet ref_rmp demo_sha1 ''app'' ''secret'' (b64_encode (replicate 32 9) @ replicate 20 32) =
      Ok (two_maps ref_rmp (request_header ref_rmp REQ_AUTH 1 None)
        [(KEY_USER_NAME, write_str ref_rmp ''app''),
         (KEY_TUPLE, write_array_len ref_rmp 2 @ write_str ref_rmp CHAP_SHA1 @ write_str_len ref_rmp 20 @ scramble)])"
  by (rule auth_packet_authenticates) (simp_all add: demo_sha1_def)

section \<open>The handshake returns\<close>

lemma written_then_no_panic:
  "snd m \<noteq> Panic \<Longrightarrow> (\<And>x. snd m = Ok x \<Longrightarrow> snd (f x) \<noteq> Panic) \<Longrightarrow> snd (written_then m f) \<noteq> Panic"
  by (cases m; cases "snd m") (auto simp: written_then_def split: prod.splits)


lemma response_parse_body_length:
  assumes "length packet \<le> packet_bound" "response_parse R V packet = Ok r"
  shows "length (rs_body r) \<le> length packet"
proof -
  from assms(2) obtain t this where h: "parse_header R packet = Ok (t, this)"
    by (auto simp: response_parse_def)
  note len = parse_header_Ok(2) [OF h]
  show ?thesis
  proof (cases "rs_body this = []")
    case True
    then show ?thesis using assms(2) h by (simp add: response_parse_def)
  next
    case False
    with assms(2) h obtain c n b where
      c: "map_cursor_new (rs_body this) = Ok (c, n)" and
      w: "walk R (body_entry R) c \<lparr>bv_this = this, bv_error_24 = None, bv_error_ext = None\<rparr> = Ok b" and
      a: "attach_error V t b = Ok r"
      by (auto simp: response_parse_def)
    have "rs_body (bv_this b) = rs_body this"
      by (rule walk_invariant [OF cursor_new_inv(1) [OF c] _ w])
        (use len assms(1) in \<open>auto simp: body_entry_def on_this_def Let_def split: if_splits\<close>)
    moreover have "rs_body r = rs_body (bv_this b)"
      using a by (auto simp: attach_error_def Let_def split: if_splits)
    ultimately show ?thesis using len by simp
  qed
qed

lemma body_map_no_panic:
  assumes "length (rs_body r) \<le> packet_bound"
  shows "body_map R V r \<noteq> Panic"
proof -
  have "body_map_entry V m e \<noteq> Panic" for m e by (simp add: body_map_entry_def split: prod.split sum.split)
  then have "walk R (body_map_entry V) c m \<noteq> Panic" if "map_cursor_new (rs_body r) = Ok (c, n)" for c n m
    by (intro walk_no_panic [OF cursor_new_inv(1) [OF that assms]])
  then show ?thesis by (auto simp: body_map_def and_then_eq_Panic)
qed

lemma id_packet_no_panic: "ser (map feature_code ANNOUNCED) \<noteq> Panic \<Longrightarrow> id_packet R ser \<noteq> Panic"
  by (simp add: id_packet_eq request_packet_spec outcome_simps)

lemma auth_packet_no_panic: "auth_packet R sha1 u pass line \<noteq> Panic"
proof (cases "chap_sha1 sha1 line pass")
  case (Ok s)
  then have "auth_packet R sha1 u pass line = request_packet R REQ_AUTH 1 None [FStr KEY_USER_NAME u,
      FRaw KEY_TUPLE (write_array_len R 2 @ write_str R CHAP_SHA1 @ write_str_len R SCRAMBLE_LEN @ s)]"
    by (simp add: auth_packet_def request_packet_def Let_def outcome_fusion del: and_then_eq_Ok map_ok_eq_Ok)
  then show ?thesis by (simp add: request_packet_spec)
qed (auto simp: auth_packet_def chap_sha1_def Let_def outcome_simps)

text \<open>A reply that came through the decoder, if any came.\<close>

definition decoded :: "rmp \<Rightarrow> rmpv \<Rightarrow> response result option \<Rightarrow> bool" where
  "decoded R V received = (case received of
     Some (Ok r) \<Rightarrow> \<exists>packet. length packet \<le> MAX_PACKET_LEN \<and> response_parse R V packet = Ok r
   | Some Panic \<Rightarrow> False
   | _ \<Rightarrow> True)"

text \<open>
  C22: the handshake never panics, whatever the server sends: as long as the operations of the socket return, its
  replies come through the decoder and the announcement can be serialised or is refused, it ends with a result.\<close>
theorem handshake_never_panics:
  assumes "so_connect so \<noteq> Panic" "so_nodelay so \<noteq> Panic" "so_greeting so \<noteq> Panic" "so_send_id so \<noteq> Panic"
    and "so_send_auth so \<noteq> Panic" "ser (map feature_code ANNOUNCED) \<noteq> Panic"
    and "decoded R V (so_id_reply so)" "decoded R V (so_auth_reply so)"
  shows "snd (handshake options elapsed (handshake_inner R V ser sha1 options so)) \<noteq> Panic"
proof -
  have link: "snd (link_send r p) \<noteq> Panic" if "r \<noteq> Panic" for r p
    using that by (simp add: link_send_def encode_def)
  have quiet: "snd (quiet r) = r" for r :: "'x result" by (simp add: quiet_def)
  have nego: "negotiate R V r version \<noteq> Panic" if "next_reply (so_id_reply so) = Ok r" for r version
  proof -
    from that have r: "so_id_reply so = Some (Ok r)" by (auto simp: next_reply_def split: option.splits)
    then obtain packet where p: "length packet \<le> MAX_PACKET_LEN" "response_parse R V packet = Ok r"
      using assms(7) by (auto simp: decoded_def)
    then have "length (rs_body r) \<le> packet_bound"
      using response_parse_body_length [of packet R V r] by (simp add: MAX_PACKET_LEN_def)
    then show ?thesis
      by (simp add: negotiate_def parse_id_def body_map_no_panic and_then_eq_Panic split: kind.split)
  qed
  have reply: "next_reply x \<noteq> Panic" if "decoded R V x" for x
    using that by (auto simp: next_reply_def decoded_def split: option.splits outcome.splits)
  have auth: "snd (written_then (quiet (auth_packet R sha1 u pass line)) (link_send (so_send_auth so))) \<noteq> Panic" for u pass line
    by (rule written_then_no_panic) (simp_all add: quiet auth_packet_no_panic link assms)
  have verdict: "snd (written_then (quiet (next_reply (so_auth_reply so))) (\<lambda>r.
      if rs_kind r = KError then quiet (Err (Auth u (into_error r))) else quiet (Ok n))) \<noteq> Panic" for u and n :: negotiated
    by (rule written_then_no_panic) (simp_all add: quiet reply assms)
  have "snd (handshake_inner R V ser sha1 options so) \<noteq> Panic"
    unfolding handshake_inner_def Let_def
    by (intro written_then_no_panic)
      (auto simp: quiet assms link nego reply id_packet_no_panic auth verdict greeting_version_def Let_def
        split: option.split)
  then show ?thesis by (simp add: handshake_def)
qed

theorem handshake_never_panics_witness:
  "snd (handshake demo_guest False (handshake_inner ref_rmp ref_rmpv demo_ser demo_sha1 demo_guest
    (demo_socket\<lparr>so_id_reply := None, so_auth_reply := None\<rparr>))) \<noteq> Panic"
  by (rule handshake_never_panics) (simp_all add: demo_socket_def demo_ser_def decoded_def)

text \<open>
  A refused login is reported as such: the same handshake, answered with an error to the credentials, fails with the
  user's name and what the server said.\<close>

lemma login_refused:
  assumes "handshake_inner R V ser sha1 options so = (sent, Ok n)" "login_user options = Some u" "rs_kind reply = KError"
  shows "handshake_inner R V ser sha1 options (so\<lparr>so_auth_reply := Some (Ok reply)\<rparr>) = (sent, Err (Auth u (into_error reply)))"
  using assms unfolding handshake_inner_def Let_def
  by (auto simp: handshake_simps) (auto simp: written_then_def quiet_def link_send_def encode_def next_reply_def split: if_splits)

end
