(* ===== verification/Serde.thy ===== *)
theory Serde
  imports Codec
begin

text \<open>
  The part of \<open>rmp_serde\<close> the client calls to write values.  What a caller's type serializes to is an \<open>outcome\<close>: the
  text of the failure, or bytes.  A sequence or a tuple is made from what its elements serialize to, a map of one entry
  from its key and value.  The locale states the documented encoding: sequences and tuples are arrays, strings
  and integers are written with \<open>rmp\<close>, and the first element that fails fails the whole.
\<close>

type_synonym serialized = "(string, bytes) outcome"

record serde =
  ser_seq :: "serialized list \<Rightarrow> serialized"
  ser_entry :: "serialized \<Rightarrow> serialized \<Rightarrow> serialized"
  ser_str :: "string \<Rightarrow> serialized"
  ser_u64 :: "u64 \<Rightarrow> serialized"
  ser_i64 :: "i64 \<Rightarrow> serialized"

locale serde_contract = rmp_contract R for R :: rmp +
  fixes S :: serde
  assumes seq_writes: "length sers < 2 ^ 32 \<Longrightarrow>
      ser_seq S sers = map_ok (\<lambda>els. write_array_len R (of_nat (length els)) @ concat els) (collect (\<lambda>s. s) sers)"
    and entry_writes: "ser_entry S (Ok k) (Ok v) = Ok (write_map_len R 1 @ k @ v)"
    and str_writes: "ser_str S s = Ok (write_str R s)"
    and u64_writes: "ser_u64 S n = Ok (write_uint R n)"
    and i64_writes: "ser_i64 S i = Ok (write_sint R i)"

text \<open>An array of the given elements.\<close>

definition mp_array :: "bytes \<Rightarrow> bytes list \<Rightarrow> bool" where
  "mp_array bs els \<longleftrightarrow> (\<exists>h. mp_array_head h (length els) \<and> bs = h @ concat els \<and> (\<forall>e \<in> set els. mp_value e))"

lemma mp_array_value: "mp_array bs els \<Longrightarrow> mp_value bs"
  by (auto simp: mp_array_def intro: mp_value_array mp_values_concat)

lemma array_head_marker: "mp_array_head h n \<Longrightarrow> is_array_marker (get (h @ r) 0)"
  by (induction rule: mp_array_head.induct)
    (auto simp: is_array_marker_def get_def word_le_nat_alt)

lemma mp_array_marker: "mp_array bs els \<Longrightarrow> is_array_marker (get bs 0)"
  by (auto simp: mp_array_def array_head_marker)

lemma collect_id: "collect (\<lambda>s. s) sers = Ok els \<longleftrightarrow> sers = map Ok els"
  by (induction sers arbitrary: els) (auto simp: and_then_eq_Ok map_ok_eq_Ok Cons_eq_map_conv)

context serde_contract
begin

lemma array_len_array:
  assumes "length els < 2 ^ 32" "\<forall>e \<in> set els. mp_value e"
  shows "mp_array (write_array_len R (of_nat (length els)) @ concat els) els"
  using array_len [of "of_nat (length els)"] assms by (auto simp: mp_array_def unat_of_nat_u32)

lemma seq_array:
  assumes "ser_seq S sers = Ok bs" "length sers < 2 ^ 32" "\<forall>s \<in> set sers. \<forall>b. s = Ok b \<longrightarrow> mp_value b"
  obtains els where "sers = map Ok els" "mp_array bs els"
proof -
  obtain els where e: "sers = map Ok els" "bs = write_array_len R (of_nat (length els)) @ concat els"
    using assms(1) seq_writes [OF assms(2)] by (auto simp: map_ok_eq_Ok collect_id)
  have "mp_array bs els" unfolding e(2) using assms(2,3) e(1) by (intro array_len_array) auto
  with e(1) show thesis by (rule that)
qed

lemma seq_ok: "length els < 2 ^ 32 \<Longrightarrow>
    ser_seq S (map Ok els) = Ok (write_array_len R (of_nat (length els)) @ concat els)"
proof -
  assume "length els < 2 ^ 32"
  moreover have "collect (\<lambda>s. s) (map Ok els :: serialized list) = Ok els" by (simp add: collect_id)
  ultimately show ?thesis by (simp add: seq_writes)
qed

end

section \<open>A concrete instance\<close>

definition ref_serde :: serde where
  "ref_serde =
    \<lparr>ser_seq = (\<lambda>sers. map_ok (\<lambda>els. write_array_len ref_rmp (of_nat (length els)) @ concat els) (collect (\<lambda>s. s) sers)),
     ser_entry = (\<lambda>k v. and_then k (\<lambda>k. map_ok (\<lambda>v. write_map_len ref_rmp 1 @ k @ v) v)),
     ser_str = (\<lambda>s. Ok (write_str ref_rmp s)),
     ser_u64 = (\<lambda>n. Ok (write_uint ref_rmp n)),
     ser_i64 = (\<lambda>i. Ok (write_sint ref_rmp i))\<rparr>"

interpretation ref_serde: serde_contract ref_rmp ref_serde
  by unfold_locales (simp_all add: ref_serde_def)

end
