(* ===== verification/Tuple.thy ===== *)
theory Tuple
  imports Serde Ext
begin

text \<open>
  \<^verbatim>\<open>src/src/tuple.rs\<close>: what may stand where the protocol wants an array.  A value of an \<open>ArrayLike\<close> type is one of
  the shapes the trait is implemented for; what its parts serialize to comes from serde.
\<close>

datatype array_like =
    KUnit
  | KScalar serialized
  | KValue mpvalue
  | KSeq "serialized list"
  | KTuple "serialized list"
  | KRef array_like

definition write_mpvalue :: "rmpv \<Rightarrow> mpvalue \<Rightarrow> bytes result" where
  "write_mpvalue V v = (case write_value V v of Inl e \<Rightarrow> Err (Encode e) | Inr bs \<Rightarrow> Ok bs)"

text \<open>\<open>encode(&self, buf)\<close>, which appends to the buffer.\<close>

fun array_encode :: "serde \<Rightarrow> rmpv \<Rightarrow> array_like \<Rightarrow> bytes \<Rightarrow> bytes result" where
  "array_encode S V KUnit buf = Ok (buf @ [0x90])"
| "array_encode S V (KScalar ser) buf =
    (let buf = buf @ [0x91] in map_ok (\<lambda>bs. buf @ bs) (to_msgpack ser))"
| "array_encode S V (KValue v) buf = (case v of
     VArray _ \<Rightarrow> map_ok (\<lambda>bs. buf @ bs) (write_mpvalue V v)
   | other \<Rightarrow> (let buf = buf @ [0x91] in map_ok (\<lambda>bs. buf @ bs) (write_mpvalue V other)))"
| "array_encode S V (KSeq sers) buf = map_ok (\<lambda>bs. buf @ bs) (to_msgpack (ser_seq S sers))"
| "array_encode S V (KTuple sers) buf = map_ok (\<lambda>bs. buf @ bs) (to_msgpack (ser_seq S sers))"
| "array_encode S V (KRef k) buf = array_encode S V k buf"

definition encode_array :: "serde \<Rightarrow> rmpv \<Rightarrow> array_like \<Rightarrow> bytes result" where
  "encode_array S V k = array_encode S V k []"

section \<open>Keys are arrays\<close>

text \<open>
  What the code relies on: a scalar serializes to one MessagePack value, and \<open>rmpv\<close> writes a value as one value and an array as
  the array of its elements.
\<close>

definition writes_values :: "serialized list \<Rightarrow> bool" where
  "writes_values sers \<longleftrightarrow> length sers < 2 ^ 32 \<and> (\<forall>s \<in> set sers. case s of Ok b \<Rightarrow> mp_value b | _ \<Rightarrow> True)"

text \<open>A value whose texts and containers are no longer than the format can say.\<close>

fun value_ok :: "mpvalue \<Rightarrow> bool" where
  "value_ok (VString s) = (length s < 2 ^ 32)"
| "value_ok (VBinary s) = (length s < 2 ^ 32)"
| "value_ok (VExt t p) = (length p < 2 ^ 32)"
| "value_ok (VArray vs) = (length vs < 2 ^ 32 \<and> (\<forall>v \<in> set vs. value_ok v))"
| "value_ok (VMap kvs) = (length kvs < 2 ^ 32 \<and> (\<forall>(k, v) \<in> set kvs. value_ok k \<and> value_ok v))"
| "value_ok _ = True"

fun array_like_ok :: "array_like \<Rightarrow> bool" where
  "array_like_ok KUnit = True"
| "array_like_ok (KScalar ser) = writes_values [ser]"
| "array_like_ok (KValue v) = value_ok v"
| "array_like_ok (KSeq sers) = writes_values sers"
| "array_like_ok (KTuple sers) = writes_values sers"
| "array_like_ok (KRef k) = array_like_ok k"

text \<open>The elements the array is made of, each one as it is serialized by itself.\<close>

fun key_elements :: "rmpv \<Rightarrow> array_like \<Rightarrow> bytes result list" where
  "key_elements V KUnit = []"
| "key_elements V (KScalar ser) = [to_msgpack ser]"
| "key_elements V (KValue (VArray vs)) = map (write_mpvalue V) vs"
| "key_elements V (KValue v) = [write_mpvalue V v]"
| "key_elements V (KSeq sers) = map to_msgpack sers"
| "key_elements V (KTuple sers) = map to_msgpack sers"
| "key_elements V (KRef k) = key_elements V k"

locale rmpv_writer =
  fixes V :: rmpv
  assumes write_is_value: "value_ok v \<Longrightarrow> write_value V v = Inr bs \<Longrightarrow> mp_value bs"
    and write_array_elements: "value_ok (VArray vs) \<Longrightarrow> write_value V (VArray vs) = Inr bs \<Longrightarrow>
      \<exists>els. mp_array bs els \<and> map (write_value V) vs = map Inr els"

locale key_contract = serde_contract R S + rmpv_writer V for R :: rmp and S :: serde and V :: rmpv

lemma to_msgpack_Ok: "to_msgpack s = Ok b \<longleftrightarrow> s = Ok b"
  by (cases s) (simp_all add: to_msgpack_def)

lemma one_element_array: "mp_value e \<Longrightarrow> mp_array (0x91 # e) [e]"
  using mp_array_head.fixarray_head [of 1 "0x91"] by (auto simp: mp_array_def intro!: exI [of _ "[0x91]"])

lemma empty_array: "mp_array [0x90] []"
  using mp_array_head.fixarray_head [of 0 "0x90"] by (simp add: mp_array_def)

lemma map_ok_append [simp]: "map_ok (\<lambda>bs. a @ bs) (map_ok (\<lambda>bs. b @ bs) m) = map_ok ((@) (a @ b)) m"
  by (cases m) simp_all

lemma array_encode_append: "array_encode S V k buf = map_ok (\<lambda>bs. buf @ bs) (array_encode S V k [])"
  by (induction S V k buf rule: array_encode.induct) (simp_all add: Let_def split: mpvalue.split)

lemma not_array:
  assumes "\<nexists>vs. v = VArray vs"
  shows "array_encode S V (KValue v) [] = map_ok ((@) [0x91]) (write_mpvalue V v)"
    and "key_elements V (KValue v) = [write_mpvalue V v]"
proof -
  show "array_encode S V (KValue v) [] = map_ok ((@) [0x91]) (write_mpvalue V v)"
    using assms by (cases v) simp_all
  show "key_elements V (KValue v) = [write_mpvalue V v]"
    using assms by (cases v) simp_all
qed

context key_contract
begin

lemma write_mpvalue_value: "value_ok v \<Longrightarrow> write_mpvalue V v = Ok bs \<Longrightarrow> mp_value bs"
  by (auto simp: write_mpvalue_def split: sum.splits intro: write_is_value)

lemma seq_elements:
  assumes "to_msgpack (ser_seq S sers) = Ok bs" "writes_values sers"
  shows "\<exists>els. mp_array bs els \<and> map to_msgpack sers = map Ok els"
proof -
  have "\<forall>s \<in> set sers. \<forall>b. s = Ok b \<longrightarrow> mp_value b" "length sers < 2 ^ 32"
    using assms(2) by (auto simp: writes_values_def)
  with assms(1) obtain els where "sers = map Ok els" "mp_array bs els"
    by (auto simp: to_msgpack_Ok elim: seq_array)
  then show ?thesis by (auto simp: to_msgpack_def)
qed

lemma encode_is_array:
  assumes "array_encode S V k [] = Ok bs" "array_like_ok k"
  shows "\<exists>els. mp_array bs els \<and> key_elements V k = map Ok els"
  using assms
proof (induction k)
  case (KScalar ser)
  then obtain b where "ser = Ok b" "bs = 0x91 # b" "mp_value b"
    by (auto simp: Let_def map_ok_eq_Ok to_msgpack_Ok writes_values_def)
  then show ?case by (intro exI [of _ "[b]"]) (simp add: to_msgpack_def one_element_array)
next
  case (KValue v)
  show ?case
  proof (cases "\<exists>vs. v = VArray vs")
    case True
    then obtain vs where v: "v = VArray vs" by blast
    with KValue have "write_value V (VArray vs) = Inr bs"
      by (auto simp: map_ok_eq_Ok write_mpvalue_def split: sum.splits)
    from write_array_elements [OF _ this] KValue(2) v obtain els where e: "mp_array bs els" "map (write_value V) vs = map Inr els"
      by auto
    have "map (write_mpvalue V) vs = map (\<lambda>r. case r of Inl e \<Rightarrow> Err (Encode e) | Inr bs \<Rightarrow> Ok bs) (map (write_value V) vs)"
      by (simp add: write_mpvalue_def)
    also have "\<dots> = map Ok els" by (simp add: e(2))
    finally show ?thesis using e(1) v by auto
  next
    case False
    note n = not_array [OF False]
    moreover obtain b where "write_mpvalue V v = Ok b" "bs = 0x91 # b"
      using KValue(1) n by (auto simp: map_ok_eq_Ok)
    ultimately show ?thesis
      using write_mpvalue_value [of v b] KValue(2) by (intro exI [of _ "[b]"]) (simp add: one_element_array)
  qed
next
  case (KSeq sers)
  then show ?case using seq_elements [of sers bs] by (auto simp: map_ok_eq_Ok)
next
  case (KTuple sers)
  then show ?case using seq_elements [of sers bs] by (auto simp: map_ok_eq_Ok)
qed (auto simp: empty_array)

end

section \<open>The reference writer\<close>

lemma ref_write_map_values:
  assumes "\<forall>(k, v) \<in> set kvs. mp_value (f k) \<and> mp_value (f v)"
  shows "mp_values (2 * length kvs) (concat (map (\<lambda>(k, v). f k @ f v) kvs))"
  using assms
proof (induction kvs)
  case (Cons kv kvs)
  obtain k v where kv: "kv = (k, v)" by (cases kv)
  have "mp_values (2 * length kvs) (concat (map (\<lambda>(k, v). f k @ f v) kvs))" using Cons by auto
  moreover have "mp_value (f k)" "mp_value (f v)" using Cons.prems kv by auto
  ultimately show ?case using kv by (auto intro: mp_value_mp_values.more)
qed simp

lemma ref_write_value_value: "value_ok v \<Longrightarrow> mp_value (ref_write_value v)"
proof (induction v rule: value_ok.induct)
  case (1 s)
  then show ?case using head_bytes_str [of s] by (simp add: ref_write_str_len_def unat_of_nat_u32 mp_value_atom)
next
  case (2 s)
  have "(m, w) \<in> {(0xc4, 1), (0xc5, 2), (0xc6, 4)} \<Longrightarrow> length s < 256 ^ w \<Longrightarrow>
      mp_value (m # be_bytes w (length s) @ s)" for m w
    by (intro mp_value_atom mp_node.str_or_bin) auto
  then show ?case using 2 by simp
next
  case (3 t p)
  then show ?case
    using ext_meta_node [of p "length p" t] by (simp add: ref_write_ext_meta_def unat_of_nat_u32 mp_value_atom)
next
  case (4 vs)
  then show ?case
    using head_bytes_array [of "length vs"] mp_values_concat [of "map ref_write_value vs"]
    by (auto simp: ref_write_array_len_def unat_of_nat_u32 intro!: mp_value_array)
next
  case (5 kvs)
  have "mp_values (2 * length kvs) (concat (map (\<lambda>(k, v). ref_write_value k @ ref_write_value v) kvs))"
    using 5 by (intro ref_write_map_values) auto
  then show ?case
    using 5(3) head_bytes_map [of "length kvs"] by (auto simp: ref_write_map_len_def unat_of_nat_u32 intro!: mp_value_map)
qed (auto simp: uint_bytes_value sint_bytes_value mp_node.nil_or_bool mp_node.number intro: mp_value_atom)

interpretation ref_key: key_contract ref_rmp ref_serde ref_rmpv
proof unfold_locales
  show "mp_value bs" if "value_ok v" "write_value ref_rmpv v = Inr bs" for v bs
    using that ref_write_value_value by (auto simp: ref_rmpv_def)
  show "\<exists>els. mp_array bs els \<and> map (write_value ref_rmpv) vs = map Inr els"
    if "value_ok (VArray vs)" "write_value ref_rmpv (VArray vs) = Inr bs" for vs bs
  proof (intro exI conjI)
    show "mp_array bs (map ref_write_value vs)"
      using that head_bytes_array [of "length vs"] ref_write_value_value
      by (auto simp: ref_rmpv_def mp_array_def ref_write_array_len_def unat_of_nat_u32)
    show "map (write_value ref_rmpv) vs = map Inr (map ref_write_value vs)" by (simp add: ref_rmpv_def)
  qed
qed

section \<open>Property\<close>

text \<open>
  C33: where the protocol wants an array there is one: whatever the caller passes as a key or as arguments (nothing, a
  scalar, a dynamic value, a sequence, a tuple, a reference to one of these), what is written is a MessagePack
  array of exactly the elements passed, in order; the check that guards tuples accepts it.\<close>
theorem keys_are_arrays:
  assumes "key_contract R S V" "array_like_ok k" "encode_array S V k = Ok bs"
  shows "\<exists>els. mp_array bs els \<and> key_elements V k = map Ok els \<and> is_array_marker (get bs 0)"
  using key_contract.encode_is_array [OF assms(1) _ assms(2)] assms(3) mp_array_marker
  by (auto simp: encode_array_def)

theorem keys_are_arrays_witness:
  "\<exists>els. mp_array [0x92, 0xa1, 0x61, 0x1e] els \<and> key_elements ref_rmpv (KTuple [Ok [0xa1, 0x61], Ok [0x1e]]) = map Ok els \<and>
    is_array_marker (get [0x92, 0xa1, 0x61, 0x1e] 0)"
proof (rule keys_are_arrays [OF ref_key.key_contract_axioms])
  have "mp_value [0xa1, 0x61]" by (intro mp_value_atom mp_node.fixstr) simp_all
  moreover have "mp_value [0x1e]" by (intro mp_value_atom mp_node.positive_fixint) simp
  ultimately show "array_like_ok (KTuple [Ok [0xa1, 0x61], Ok [0x1e]])" by (simp add: writes_values_def)
  show "encode_array ref_serde ref_rmpv (KTuple [Ok [0xa1, 0x61], Ok [0x1e]]) = Ok [0x92, 0xa1, 0x61, 0x1e]" by code_simp
qed

end
