(* ===== verification/Update_Ops.thy ===== *)
theory Update_Ops
  imports Serde
begin

text \<open>
  \<^verbatim>\<open>src/src/update.rs\<close>: the operations of an update, encoded as they are added.  A value of the caller's is what it
  serializes to.
\<close>

datatype field_ref = Number i32 | Path string

definition I32_MAX :: i32 where "I32_MAX = 0x7fffffff"

definition field_ref_from_i32 :: "i32 \<Rightarrow> field_ref" where
  "field_ref_from_i32 n = Number n"

definition field_ref_from_u32 :: "u32 \<Rightarrow> field_ref" where
  "field_ref_from_u32 n = Number (if unat n < 2 ^ 31 then ucast n else I32_MAX)"

definition field_ref_from_str :: "string \<Rightarrow> field_ref" where
  "field_ref_from_str path = Path path"

definition field_ref_from_string :: "string \<Rightarrow> field_ref" where
  "field_ref_from_string path = Path path"

fun field_ref_serialize :: "serde \<Rightarrow> field_ref \<Rightarrow> serialized" where
  "field_ref_serialize S (Number n) = ser_i64 S (scast n)"
| "field_ref_serialize S (Path p) = ser_str S p"

record update =
  up_ops :: "bytes list"
  up_error :: "string option"

definition update_new :: update where
  "update_new = \<lparr>up_ops = [], up_error = None\<rparr>"

text \<open>
  \<open>push\<close>: the parts of the operation, a tuple, are encoded at once; the text of the first failure is kept.  A panic of
  a caller's \<open>Serialize\<close> goes through.
\<close>

definition update_push :: "(duration \<Rightarrow> string) \<Rightarrow> serde \<Rightarrow> serialized list \<Rightarrow> update \<Rightarrow> update result" where
  "update_push dbg S op u = (case to_msgpack (ser_seq S op) of
     Ok bs \<Rightarrow> Ok (u\<lparr>up_ops := up_ops u @ [bs]\<rparr>)
   | Err err \<Rightarrow> Ok (u\<lparr>up_error := (case up_error u of None \<Rightarrow> Some (display_error dbg err) | some \<Rightarrow> some)\<rparr>)
   | Panic \<Rightarrow> Panic)"

definition update_set :: "(duration \<Rightarrow> string) \<Rightarrow> serde \<Rightarrow> field_ref \<Rightarrow> serialized \<Rightarrow> update \<Rightarrow> update result" where
  "update_set dbg S f v = update_push dbg S [ser_str S ''='', field_ref_serialize S f, v]"

definition update_add :: "(duration \<Rightarrow> string) \<Rightarrow> serde \<Rightarrow> field_ref \<Rightarrow> serialized \<Rightarrow> update \<Rightarrow> update result" where
  "update_add dbg S f v = update_push dbg S [ser_str S ''+'', field_ref_serialize S f, v]"

definition update_sub :: "(duration \<Rightarrow> string) \<Rightarrow> serde \<Rightarrow> field_ref \<Rightarrow> serialized \<Rightarrow> update \<Rightarrow> update result" where
  "update_sub dbg S f v = update_push dbg S [ser_str S ''-'', field_ref_serialize S f, v]"

definition update_bit_and :: "(duration \<Rightarrow> string) \<Rightarrow> serde \<Rightarrow> field_ref \<Rightarrow> u64 \<Rightarrow> update \<Rightarrow> update result" where
  "update_bit_and dbg S f bits = update_push dbg S [ser_str S ''&'', field_ref_serialize S f, ser_u64 S bits]"

definition update_bit_or :: "(duration \<Rightarrow> string) \<Rightarrow> serde \<Rightarrow> field_ref \<Rightarrow> u64 \<Rightarrow> update \<Rightarrow> update result" where
  "update_bit_or dbg S f bits = update_push dbg S [ser_str S ''|'', field_ref_serialize S f, ser_u64 S bits]"

definition update_bit_xor :: "(duration \<Rightarrow> string) \<Rightarrow> serde \<Rightarrow> field_ref \<Rightarrow> u64 \<Rightarrow> update \<Rightarrow> update result" where
  "update_bit_xor dbg S f bits = update_push dbg S [ser_str S ''^'', field_ref_serialize S f, ser_u64 S bits]"

definition update_insert :: "(duration \<Rightarrow> string) \<Rightarrow> serde \<Rightarrow> field_ref \<Rightarrow> serialized \<Rightarrow> update \<Rightarrow> update result" where
  "update_insert dbg S f v = update_push dbg S [ser_str S ''!'', field_ref_serialize S f, v]"

definition update_delete :: "(duration \<Rightarrow> string) \<Rightarrow> serde \<Rightarrow> field_ref \<Rightarrow> u32 \<Rightarrow> update \<Rightarrow> update result" where
  "update_delete dbg S f count = update_push dbg S [ser_str S ''#'', field_ref_serialize S f, ser_u64 S (ucast count)]"

definition update_splice ::
  "(duration \<Rightarrow> string) \<Rightarrow> serde \<Rightarrow> field_ref \<Rightarrow> i32 \<Rightarrow> u32 \<Rightarrow> string \<Rightarrow> update \<Rightarrow> update result" where
  "update_splice dbg S f offset len replacement = update_push dbg S
    [ser_str S '':'', field_ref_serialize S f, ser_i64 S (scast offset), ser_u64 S (ucast len), ser_str S replacement]"

definition update_len :: "update \<Rightarrow> nat" where
  "update_len u = length (up_ops u)"

definition update_is_empty :: "update \<Rightarrow> bool" where
  "update_is_empty u = (up_ops u = [])"

definition into_ops :: "update \<Rightarrow> bytes list result" where
  "into_ops u = (case up_error u of
     Some message \<Rightarrow> Err (Encode message)
   | None \<Rightarrow> Ok (up_ops u))"

section \<open>A chain of operations\<close>

text \<open>The methods of \<open>Update\<close> as data, and the operation each one stands for in the protocol's documentation.\<close>

datatype update_op =
    OpSet field_ref serialized
  | OpAdd field_ref serialized
  | OpSub field_ref serialized
  | OpAnd field_ref u64
  | OpOr field_ref u64
  | OpXor field_ref u64
  | OpInsert field_ref serialized
  | OpDelete field_ref u32
  | OpSplice field_ref i32 u32 string

fun apply_op :: "(duration \<Rightarrow> string) \<Rightarrow> serde \<Rightarrow> update_op \<Rightarrow> update \<Rightarrow> update result" where
  "apply_op dbg S (OpSet f v) = update_set dbg S f v"
| "apply_op dbg S (OpAdd f v) = update_add dbg S f v"
| "apply_op dbg S (OpSub f v) = update_sub dbg S f v"
| "apply_op dbg S (OpAnd f m) = update_bit_and dbg S f m"
| "apply_op dbg S (OpOr f m) = update_bit_or dbg S f m"
| "apply_op dbg S (OpXor f m) = update_bit_xor dbg S f m"
| "apply_op dbg S (OpInsert f v) = update_insert dbg S f v"
| "apply_op dbg S (OpDelete f n) = update_delete dbg S f n"
| "apply_op dbg S (OpSplice f off n s) = update_splice dbg S f off n s"

fun apply_ops :: "(duration \<Rightarrow> string) \<Rightarrow> serde \<Rightarrow> update_op list \<Rightarrow> update \<Rightarrow> update result" where
  "apply_ops dbg S [] u = Ok u"
| "apply_ops dbg S (op # ops) u = and_then (apply_op dbg S op u) (apply_ops dbg S ops)"

text \<open>
  The specification: an operation is an array of its sign, the field (a number, or a path) and its arguments, written
  with \<open>rmp\<close>.
\<close>

fun field_bytes :: "rmp \<Rightarrow> field_ref \<Rightarrow> bytes" where
  "field_bytes R (Number n) = write_sint R (scast n)"
| "field_bytes R (Path p) = write_str R p"

definition op_array :: "rmp \<Rightarrow> string \<Rightarrow> field_ref \<Rightarrow> bytes list \<Rightarrow> bytes" where
  "op_array R sign f args =
    write_array_len R (of_nat (length args + 2)) @ write_str R sign @ field_bytes R f @ concat args"

fun op_spec :: "rmp \<Rightarrow> update_op \<Rightarrow> serialized" where
  "op_spec R (OpSet f v) = map_ok (\<lambda>v. op_array R ''='' f [v]) v"
| "op_spec R (OpAdd f v) = map_ok (\<lambda>v. op_array R ''+'' f [v]) v"
| "op_spec R (OpSub f v) = map_ok (\<lambda>v. op_array R ''-'' f [v]) v"
| "op_spec R (OpAnd f m) = Ok (op_array R ''&'' f [write_uint R m])"
| "op_spec R (OpOr f m) = Ok (op_array R ''|'' f [write_uint R m])"
| "op_spec R (OpXor f m) = Ok (op_array R ''^'' f [write_uint R m])"
| "op_spec R (OpInsert f v) = map_ok (\<lambda>v. op_array R ''!'' f [v]) v"
| "op_spec R (OpDelete f n) = Ok (op_array R ''#'' f [write_uint R (ucast n)])"
| "op_spec R (OpSplice f off n s) =
    Ok (op_array R '':'' f [write_sint R (scast off), write_uint R (ucast n), write_str R s])"

text \<open>What the request that carries the update does: the operations in order, or the first failure.\<close>

definition ops_spec :: "(duration \<Rightarrow> string) \<Rightarrow> rmp \<Rightarrow> update_op list \<Rightarrow> bytes list result" where
  "ops_spec dbg R ops =
    map_err (\<lambda>e. Encode (display_error dbg (Encode e))) (collect (op_spec R) ops)"

lemmas update_defs = update_set_def update_add_def update_sub_def update_bit_and_def update_bit_or_def
  update_bit_xor_def update_insert_def update_delete_def update_splice_def

context serde_contract
begin

lemma field_ref_serialize_spec: "field_ref_serialize S f = Ok (field_bytes R f)"
  by (cases f) (simp_all add: i64_writes str_writes)

lemma three_parts:
  "ser_seq S [ser_str S sign, field_ref_serialize S f, v] = map_ok (\<lambda>v. op_array R sign f [v]) v"
  by (cases v) (simp_all add: seq_writes str_writes field_ref_serialize_spec op_array_def)

lemma push_spec: "apply_op dbg S op u = (case op_spec R op of
     Ok bs \<Rightarrow> Ok (u\<lparr>up_ops := up_ops u @ [bs]\<rparr>)
   | Err e \<Rightarrow> Ok (u\<lparr>up_error := (case up_error u of None \<Rightarrow> Some (display_error dbg (Encode e)) | some \<Rightarrow> some)\<rparr>)
   | Panic \<Rightarrow> Panic)"
proof (cases "\<exists>f off n s. op = OpSplice f off n s")
  case True
  then show ?thesis
    by (auto simp: update_splice_def update_push_def to_msgpack_def seq_writes str_writes i64_writes u64_writes
      field_ref_serialize_spec op_array_def)
next
  case False
  have push: "update_push dbg S [ser_str S sign, field_ref_serialize S f, v] u =
      (case map_ok (\<lambda>v. op_array R sign f [v]) v of
         Ok bs \<Rightarrow> Ok (u\<lparr>up_ops := up_ops u @ [bs]\<rparr>)
       | Err e \<Rightarrow> Ok (u\<lparr>up_error := (case up_error u of None \<Rightarrow> Some (display_error dbg (Encode e)) | some \<Rightarrow> some)\<rparr>)
       | Panic \<Rightarrow> Panic)" for sign f v
    unfolding update_push_def three_parts by (cases v) (simp_all add: to_msgpack_def)
  show ?thesis using False by (cases op) (simp_all add: update_defs push u64_writes)
qed

lemma apply_ops_spec:
  assumes "\<forall>op \<in> set ops. op_spec R op \<noteq> Panic"
  shows "and_then (apply_ops dbg S ops u) into_ops = (case up_error u of
     Some message \<Rightarrow> Err (Encode message)
   | None \<Rightarrow> map_ok (\<lambda>bs. up_ops u @ bs) (ops_spec dbg R ops))"
  using assms
proof (induction ops arbitrary: u)
  case Nil
  then show ?case by (cases "up_error u") (simp_all add: into_ops_def ops_spec_def)
next
  case (Cons op ops)
  note IH = Cons.IH [OF ballI, OF bspec [OF Cons.prems], simplified]
  show ?case
  proof (cases "op_spec R op")
    case (Ok bs)
    then show ?thesis
      using IH by (cases "collect (op_spec R) ops"; cases "up_error u") (simp_all add: push_spec ops_spec_def)
  next
    case (Err e)
    then show ?thesis
      using IH by (cases "up_error u") (simp_all add: push_spec ops_spec_def)
  next
    case Panic
    then show ?thesis using Cons.prems by simp
  qed
qed

end

text \<open>
  C34: an update is sent as the operations in the order they were added, each the array that the protocol documents for
  it; when an argument cannot be serialized the request reports the first such failure.\<close>
theorem update_ops_in_order:
  assumes "serde_contract R S" "\<forall>op \<in> set ops. op_spec R op \<noteq> Panic"
  shows "and_then (apply_ops dbg S ops update_new) into_ops = ops_spec dbg R ops"
  using serde_contract.apply_ops_spec [OF assms, of dbg update_new]
  by (cases "ops_spec dbg R ops") (simp_all add: update_new_def)

theorem update_ops_in_order_witness:
  "and_then (apply_ops (\<lambda>_. []) ref_serde [OpSet (Number 2) (Ok [0xa1, 0x42]), OpDelete (Path ''[3]'') 1] update_new) into_ops =
    Ok [[0x93, 0xa1, 0x3d, 0x02, 0xa1, 0x42], [0x93, 0xa1, 0x23, 0xa3, 0x5b, 0x33, 0x5d, 0x01]]"
proof -
  have "ops_spec (\<lambda>_. []) ref_rmp [OpSet (Number 2) (Ok [0xa1, 0x42]), OpDelete (Path ''[3]'') 1] =
    Ok [[0x93, 0xa1, 0x3d, 0x02, 0xa1, 0x42], [0x93, 0xa1, 0x23, 0xa3, 0x5b, 0x33, 0x5d, 0x01]]" by code_simp
  then show ?thesis
    using update_ops_in_order [OF ref_serde.serde_contract_axioms,
      of "[OpSet (Number 2) (Ok [0xa1, 0x42]), OpDelete (Path ''[3]'') 1]" "\<lambda>_. []"] by simp
qed

end
