(* ===== verification/Handle.thy ===== *)
theory Handle
  imports Handshake Tuple Update_Ops
begin

text \<open>
  \<^verbatim>\<open>src/src/connection.rs\<close>, \<open>Handle\<close>: the side of a connection that callers hold.  A handle sends commands to the task
  and waits for answers.  What the outside does with a command (whether the connection is closed already, whether the channel
  to the task takes it, whether the timeout passes first, what the oneshot gives) is an \<open>answer\<close>, chosen by an
  environment that sees all the commands so far; nothing is assumed of it.  An operation is a function of the
  handle that gives a result and the handle after it.  The last field of a handle is the history of the commands the channel took.
\<close>

record answer =
  an_closed :: bool
  an_sent :: bool
  an_elapsed :: bool
  an_received :: "response result option"

type_synonym env = "command list \<Rightarrow> answer"

record handle =
  hd_counters :: counters
  hd_negotiated :: negotiated
  hd_request_timeout :: "duration option"
  hd_sent :: "command list"

type_synonym 'a action = "handle \<Rightarrow> 'a result \<times> handle"

definition handle_connect :: "negotiated result \<Rightarrow> handle result" where
  "handle_connect shaken = map_ok (\<lambda>n.
    \<lparr>hd_counters = counters_new, hd_negotiated = n, hd_request_timeout = None, hd_sent = []\<rparr>) shaken"

definition with_request_timeout :: "duration option \<Rightarrow> handle \<Rightarrow> handle" where
  "with_request_timeout limit h = h\<lparr>hd_request_timeout := limit\<rparr>"

definition handle_supports :: "feature \<Rightarrow> handle \<Rightarrow> bool" where
  "handle_supports f h = supports (hd_negotiated h) f"

text \<open>Sequencing: \<open>?\<close> on the result of an operation, with the handle it leaves.\<close>

definition act_then :: "'a action \<Rightarrow> ('a \<Rightarrow> 'b action) \<Rightarrow> 'b action" where
  "act_then m f h = (case m h of
     (Ok x, h) \<Rightarrow> f x h
   | (Err e, h) \<Rightarrow> (Err e, h)
   | (Panic, h) \<Rightarrow> (Panic, h))"

definition act_lift :: "'a result \<Rightarrow> 'a action" where
  "act_lift r h = (r, h)"

definition act_map :: "('a \<Rightarrow> 'b) \<Rightarrow> 'a action \<Rightarrow> 'b action" where
  "act_map f m h = (case m h of (r, h) \<Rightarrow> (map_ok f r, h))"

definition fresh_sync :: "u64 action" where
  "fresh_sync h = (case next_sync (hd_counters h) of (n, c) \<Rightarrow> (Ok n, h\<lparr>hd_counters := c\<rparr>))"

definition fresh_stream_id :: "u64 action" where
  "fresh_stream_id h = (case next_stream_id (hd_counters h) of (n, c) \<Rightarrow> (Ok n, h\<lparr>hd_counters := c\<rparr>))"

definition fresh_watch_id :: "u64 action" where
  "fresh_watch_id h = (case next_watch_id (hd_counters h) of (n, c) \<Rightarrow> (Ok n, h\<lparr>hd_counters := c\<rparr>))"

text \<open>Handing a command to the channel; a connection that is closed already is not asked.\<close>

definition submit :: "env \<Rightarrow> command \<Rightarrow> handle \<Rightarrow> answer \<times> handle" where
  "submit E c h =
    (let a = E (hd_sent h @ [c]) in
     (a, if an_closed a \<or> \<not> an_sent a then h else h\<lparr>hd_sent := hd_sent h @ [c]\<rparr>))"

definition handle_request :: "env \<Rightarrow> u64 \<Rightarrow> bytes \<Rightarrow> response action" where
  "handle_request E sync packet h =
    (case submit E (CRequest sync packet (length (hd_sent h)) None) h of (a, h) \<Rightarrow>
      (request_inner (an_closed a) (an_sent a) (hd_request_timeout h) (an_elapsed a) (an_received a), h))"

text \<open>A push stream: the timeout of its reply, and the answer it waits for.\<close>

record push_stream =
  ps_request_timeout :: "duration option"
  ps_answer :: answer

definition handle_request_with_pushes :: "env \<Rightarrow> u64 \<Rightarrow> bytes \<Rightarrow> push_stream action" where
  "handle_request_with_pushes E sync packet h =
    (case submit E (CRequest sync packet (length (hd_sent h)) (Some (length (hd_sent h)))) h of (a, h) \<Rightarrow>
      (map_ok (\<lambda>limit. \<lparr>ps_request_timeout = limit, ps_answer = a\<rparr>)
        (request_with_pushes (an_closed a) (an_sent a) (hd_request_timeout h)), h))"

definition stream_finish :: "push_stream \<Rightarrow> response result" where
  "stream_finish p = push_stream_finish (ps_request_timeout p) (an_elapsed (ps_answer p)) (an_received (ps_answer p))"

text \<open>
  These do not look at \<open>closed\<close>: \<open>fire\<close> and \<open>unwatch\<close> try the channel once and give up silently, \<open>watch\<close> and \<open>close\<close> wait
  for it.
\<close>

definition enqueue :: "env \<Rightarrow> command \<Rightarrow> handle \<Rightarrow> bool \<times> handle" where
  "enqueue E c h =
    (if an_sent (E (hd_sent h @ [c])) then (True, h\<lparr>hd_sent := hd_sent h @ [c]\<rparr>) else (False, h))"

definition handle_fire :: "env \<Rightarrow> bytes \<Rightarrow> handle \<Rightarrow> handle" where
  "handle_fire E packet h = snd (enqueue E (CFire packet) h)"

definition handle_watch :: "env \<Rightarrow> string \<Rightarrow> u64 action" where
  "handle_watch E key =
    act_then fresh_watch_id (\<lambda>i h. case enqueue E (CWatch i key (length (hd_sent h))) h of
      (True, h) \<Rightarrow> (Ok i, h)
    | (False, h) \<Rightarrow> (Err Closed, h))"

definition handle_unwatch :: "env \<Rightarrow> u64 \<Rightarrow> string \<Rightarrow> handle \<Rightarrow> handle" where
  "handle_unwatch E i key h = snd (enqueue E (CUnwatch i key) h)"

definition handle_close :: "env \<Rightarrow> handle \<Rightarrow> handle" where
  "handle_close E h = snd (enqueue E CClose h)"

section \<open>Lemmas on actions\<close>

lemma act_then_Ok [simp]: "m h = (Ok x, h') \<Longrightarrow> act_then m f h = f x h'"
  by (simp add: act_then_def)

lemma act_then_lift [simp]: "act_then (act_lift r) f h = (case r of Ok x \<Rightarrow> f x h | Err e \<Rightarrow> (Err e, h) | Panic \<Rightarrow> (Panic, h))"
  by (cases r) (simp_all add: act_then_def act_lift_def)

lemma act_then_map: "act_then (act_map f m) g = act_then m (\<lambda>x. g (f x))"
proof
  fix h
  obtain r h' where "m h = (r, h')" by (cases "m h")
  then show "act_then (act_map f m) g h = act_then m (\<lambda>x. g (f x)) h"
    by (cases r) (simp_all add: act_then_def act_map_def)
qed

lemma act_map_act_map: "act_map f (act_map g m) = act_map (\<lambda>x. f (g x)) m"
proof
  fix h
  obtain r h' where "m h = (r, h')" by (cases "m h")
  then show "act_map f (act_map g m) h = act_map (\<lambda>x. f (g x)) m h" by (cases r) (simp_all add: act_map_def)
qed

definition bump :: "handle \<Rightarrow> handle" where
  "bump h = h\<lparr>hd_counters := (hd_counters h)\<lparr>next_sync_value := next_sync_value (hd_counters h) + 1\<rparr>\<rparr>"

abbreviation sync_of :: "handle \<Rightarrow> u64" where
  "sync_of h \<equiv> next_sync_value (hd_counters h)"

lemma bump_simps [simp]:
  "hd_sent (bump h) = hd_sent h" "hd_negotiated (bump h) = hd_negotiated h"
  "hd_request_timeout (bump h) = hd_request_timeout h" "sync_of (bump h) = sync_of h + 1"
  by (simp_all add: bump_def)

lemma fresh_sync_eq [simp]: "fresh_sync h = (Ok (sync_of h), bump h)"
  by (simp add: fresh_sync_def next_sync_def bump_def)

lemma map_ok_ident [simp]: "map_ok (\<lambda>x. x) m = m"
  by (cases m) simp_all

section \<open>One exchange\<close>

lemmas packet_fields = request_packet_def request_build.simps apply_field.simps outcome_fusion

text \<open>
  What nearly every operation of a client is meant to be: take the next sync, send the request with the given
  fields, wait, and read the reply.
\<close>

definition exchange ::
  "env \<Rightarrow> rmp \<Rightarrow> u64 \<Rightarrow> u64 option \<Rightarrow> field list \<Rightarrow> (response \<Rightarrow> 'a result) \<Rightarrow> 'a action" where
  "exchange E R ty stream fs dec h =
    (case request_packet R ty (sync_of h) stream fs of
       Ok packet \<Rightarrow> (case handle_request E (sync_of h) packet (bump h) of (r, h) \<Rightarrow> (and_then r dec, h))
     | Err e \<Rightarrow> (Err e, bump h)
     | Panic \<Rightarrow> (Panic, bump h))"

lemma and_then_lift: "(case r of Ok x \<Rightarrow> act_lift (dec x) h | Err e \<Rightarrow> (Err e, h) | Panic \<Rightarrow> (Panic, h)) = (and_then r dec, h)"
  by (cases r) (simp_all add: act_lift_def)

text \<open>The three endings of an operation: \<open>?.data()\<close> or another reading of the reply, \<open>.map(drop)\<close>, and the reply itself.\<close>

lemma exchange_read:
  "act_then fresh_sync (\<lambda>sync.
   act_then (act_lift (request_packet R ty sync stream fs)) (\<lambda>packet.
   act_then (handle_request E sync packet) (\<lambda>r. act_lift (dec r)))) = exchange E R ty stream fs dec"
proof
  fix h
  show "act_then fresh_sync (\<lambda>sync. act_then (act_lift (request_packet R ty sync stream fs)) (\<lambda>packet.
      act_then (handle_request E sync packet) (\<lambda>r. act_lift (dec r)))) h = exchange E R ty stream fs dec h"
  proof (cases "request_packet R ty (sync_of h) stream fs")
    case (Ok packet)
    obtain r h' where "handle_request E (sync_of h) packet (bump h) = (r, h')" by force
    then show ?thesis using Ok by (cases r) (simp_all add: exchange_def act_then_def act_lift_def)
  qed (simp_all add: exchange_def act_lift_def)
qed

lemma act_map_then: "act_map f m = act_then m (\<lambda>x. act_lift (Ok (f x)))"
proof
  fix h
  obtain r h' where "m h = (r, h')" by (cases "m h")
  then show "act_map f m h = act_then m (\<lambda>x. act_lift (Ok (f x))) h"
    by (cases r) (simp_all add: act_map_def act_then_def act_lift_def)
qed

lemma act_then_return: "act_then m (\<lambda>x. act_lift (Ok x)) = m"
proof
  fix h
  obtain r h' where "m h = (r, h')" by (cases "m h")
  then show "act_then m (\<lambda>x. act_lift (Ok x)) h = m h" by (cases r) (simp_all add: act_then_def act_lift_def)
qed

lemma exchange_drop:
  "act_then fresh_sync (\<lambda>sync.
   act_then (act_lift (request_packet R ty sync stream fs)) (\<lambda>packet.
   act_map f (handle_request E sync packet))) = exchange E R ty stream fs (\<lambda>r. Ok (f r))"
  by (simp only: act_map_then exchange_read)

lemma exchange_reply:
  "act_then fresh_sync (\<lambda>sync.
   act_then (act_lift (request_packet R ty sync stream fs)) (\<lambda>packet. handle_request E sync packet)) =
   exchange E R ty stream fs Ok"
  using exchange_read [of R ty stream fs E Ok] unfolding act_then_return .

text \<open>The packet of a request that was sent, in terms of the fields alone.\<close>

definition packet_of :: "rmp \<Rightarrow> u64 \<Rightarrow> u64 \<Rightarrow> u64 option \<Rightarrow> (u8 \<times> bytes) list \<Rightarrow> bytes" where
  "packet_of R ty sync stream kvs = mp_map R (request_header R ty sync stream) @ mp_map R kvs"

text \<open>Whether the environment lets a command through, and what the caller of a request then gets.\<close>

definition delivered :: "env \<Rightarrow> command \<Rightarrow> handle \<Rightarrow> bool" where
  "delivered E c h = (let a = E (hd_sent h @ [c]) in \<not> an_closed a \<and> an_sent a)"

definition reply_of :: "env \<Rightarrow> command \<Rightarrow> handle \<Rightarrow> response result" where
  "reply_of E c h = (let a = E (hd_sent h @ [c]) in
    if delivered E c h then await_reply (hd_request_timeout h) (an_elapsed a) (an_received a) else Err Closed)"

lemma handle_request_eq:
  "handle_request E sync packet h =
    (let c = CRequest sync packet (length (hd_sent h)) None in
     (reply_of E c h, if delivered E c h then h\<lparr>hd_sent := hd_sent h @ [c]\<rparr> else h))"
  by (simp add: handle_request_def submit_def reply_of_def delivered_def request_inner_def Let_def)

definition request_command :: "rmp \<Rightarrow> u64 \<Rightarrow> u64 option \<Rightarrow> (u8 \<times> bytes) list \<Rightarrow> handle \<Rightarrow> command" where
  "request_command R ty stream kvs h =
    CRequest (sync_of h) (packet_of R ty (sync_of h) stream kvs) (length (hd_sent h)) None"

definition after_request :: "env \<Rightarrow> command \<Rightarrow> handle \<Rightarrow> handle" where
  "after_request E c h = (if delivered E c h then (bump h)\<lparr>hd_sent := hd_sent h @ [c]\<rparr> else bump h)"

lemma after_request_simps [simp]:
  "hd_negotiated (after_request E c h) = hd_negotiated h"
  "hd_request_timeout (after_request E c h) = hd_request_timeout h"
  "sync_of (after_request E c h) = sync_of h + 1"
  "hd_sent (after_request E c h) = hd_sent h @ (if delivered E c h then [c] else [])"
  by (simp_all add: after_request_def)

lemma exchange_spec:
  assumes "length fs < 2 ^ 32"
  shows "exchange E R ty stream fs dec h = (case collect (field_value R) fs of
     Ok kvs \<Rightarrow>
       (let c = request_command R ty stream kvs h in (and_then (reply_of E c h) dec, after_request E c h))
   | Err e \<Rightarrow> (Err e, bump h)
   | Panic \<Rightarrow> (Panic, bump h))"
  by (cases "collect (field_value R) fs")
    (simp_all add: exchange_def request_packet_spec [OF assms] two_maps_def packet_of_def handle_request_eq Let_def
      delivered_def reply_of_def request_command_def after_request_def)

text \<open>Only a request that went out can be answered by the server.\<close>

lemma reply_delivered: "reply_of E c h \<noteq> Err Closed \<Longrightarrow> delivered E c h"
  by (auto simp: reply_of_def Let_def split: if_splits)

end
