(* ===== verification/Connection_System.thy ===== *)
theory Connection_System
  imports Connection_Effects Handle
begin

text \<open>
  The handles, the channel, the task and the server together.  Any number of callers share the counters of a connection: a caller
  draws a sync, builds a packet with it, and hands it to the channel, while other callers do the same and the task takes
  commands from the channel in order.  The server is a parameter: \<open>serve p v\<close> says that it may send \<open>v\<close> for the packet \<open>p\<close>,
  at any time after \<open>p\<close> was written, any number of times, in any order.  All that is relied on is that it puts the sync of a
  packet into what it sends for it.
\<close>

section \<open>The system\<close>

definition CHANNEL_CAPACITY :: nat where
  "CHANNEL_CAPACITY = 1024"

text \<open>
  \<open>sy_drawn\<close>: syncs drawn by callers that have not sent their packet yet.  \<open>sy_replies\<close>: the oneshots created so far.
  \<open>sy_draws\<close> and \<open>sy_used\<close> are no state of the code: they count the syncs drawn and list the packets handed over, for the statements below.
\<close>

record system =
  sy_counters :: counters
  sy_drawn :: "u64 list"
  sy_replies :: nat
  sy_queue :: "command list"
  sy_task :: "phase \<times> task"
  sy_draws :: nat
  sy_used :: "(u64 \<times> bytes) list"

definition sys_start :: "connect_options \<Rightarrow> system" where
  "sys_start options =
    \<lparr>sy_counters = counters_new, sy_drawn = [], sy_replies = 0, sy_queue = [], sy_task = start options,
     sy_draws = 0, sy_used = []\<rparr>"

text \<open>
  The channel takes a command while its receiver exists and it is not full; a caller that has to wait for room hands over
  later.  A request looks at the flag of the task first, as \<open>request_inner\<close> and \<open>request_with_pushes\<close> do.
\<close>

definition tx_send :: "command \<Rightarrow> system \<Rightarrow> system option" where
  "tx_send c s =
    (if t_rx_closed (snd (sy_task s)) \<or> length (sy_queue s) \<ge> CHANNEL_CAPACITY then None
     else Some (s\<lparr>sy_queue := sy_queue s @ [c]\<rparr>))"

definition rx_recv :: "command option \<Rightarrow> command list \<Rightarrow> command list option" where
  "rx_recv c q = (case c of
     Some c \<Rightarrow> (case q of d # q' \<Rightarrow> if d = c then Some q' else None | [] \<Rightarrow> None)
   | None \<Rightarrow> if q = [] then Some [] else None)"

fun input_queue :: "input \<Rightarrow> command list \<Rightarrow> command list option" where
  "input_queue (ICommand c _) q = rx_recv c q"
| "input_queue (IWake _ c) q = rx_recv c q"
| "input_queue _ q = Some q"

definition came :: "(bytes \<Rightarrow> response \<Rightarrow> bool) \<Rightarrow> task \<Rightarrow> response \<Rightarrow> bool" where
  "came serve t v = list_ex (\<lambda>e. case e of ESent p \<Rightarrow> serve p v | _ \<Rightarrow> False) (t_log t)"

fun from_server :: "(bytes \<Rightarrow> response \<Rightarrow> bool) \<Rightarrow> task \<Rightarrow> input \<Rightarrow> bool" where
  "from_server serve t (IPacket (Some (Ok v)) _ _) \<longleftrightarrow> rs_kind v = KEvent \<or> came serve t v"
| "from_server serve t _ \<longleftrightarrow> True"

datatype sys_event =
    SDraw
  | SAbandon u64
  | SRequest u64 u64 "u64 option" "(u8 \<times> bytes) list" bool
  | SFire u64 u64 "u64 option" "(u8 \<times> bytes) list"
  | SControl command
  | STurn input

definition use_sync :: "u64 \<Rightarrow> bytes \<Rightarrow> system \<Rightarrow> system" where
  "use_sync n p s = s\<lparr>sy_drawn := remove1 n (sy_drawn s), sy_used := sy_used s @ [(n, p)]\<rparr>"

definition is_control :: "command \<Rightarrow> bool" where
  "is_control c = (case c of CRequest _ _ _ _ \<Rightarrow> False | CFire _ \<Rightarrow> False | _ \<Rightarrow> True)"

definition sys_draw :: "system \<Rightarrow> system" where
  "sys_draw s = (case next_sync (sy_counters s) of (n, c) \<Rightarrow>
     s\<lparr>sy_counters := c, sy_drawn := n # sy_drawn s, sy_draws := Suc (sy_draws s)\<rparr>)"

definition sys_request :: "u64 \<Rightarrow> bytes \<Rightarrow> bool \<Rightarrow> system \<Rightarrow> system option" where
  "sys_request n packet pushes s =
    (if t_closed (snd (sy_task s)) then None
     else let r = sy_replies s in
       tx_send (CRequest n packet r (if pushes then Some r else None)) (use_sync n packet s\<lparr>sy_replies := Suc r\<rparr>))"

definition sys_turn ::
  "rmp \<Rightarrow> (duration \<Rightarrow> string) \<Rightarrow> (bytes \<Rightarrow> response \<Rightarrow> bool) \<Rightarrow> input \<Rightarrow> system \<Rightarrow> system option" where
  "sys_turn R dbg serve i s =
    (if from_server serve (snd (sy_task s)) i
     then Option.bind (input_queue i (sy_queue s)) (\<lambda>q.
       map_option (\<lambda>m. s\<lparr>sy_queue := q, sy_task := m\<rparr>) (task_step R dbg i (sy_task s)))
     else None)"

fun sys_step ::
  "rmp \<Rightarrow> (duration \<Rightarrow> string) \<Rightarrow> (bytes \<Rightarrow> response \<Rightarrow> bool) \<Rightarrow> sys_event \<Rightarrow> system \<Rightarrow> system option" where
  "sys_step R dbg serve SDraw s = Some (sys_draw s)"
| "sys_step R dbg serve (SAbandon n) s = Some (s\<lparr>sy_drawn := remove1 n (sy_drawn s)\<rparr>)"
| "sys_step R dbg serve (SRequest n ty stream kvs pushes) s =
    (if n \<in> set (sy_drawn s) then sys_request n (packet_of R ty n stream kvs) pushes s else None)"
| "sys_step R dbg serve (SFire n ty stream kvs) s =
    (if n \<in> set (sy_drawn s)
     then let p = packet_of R ty n stream kvs in tx_send (CFire p) (use_sync n p s) else None)"
| "sys_step R dbg serve (SControl c) s = (if is_control c then tx_send c s else None)"
| "sys_step R dbg serve (STurn i) s = sys_turn R dbg serve i s"

section \<open>The server\<close>

locale echoing_server =
  fixes R :: rmp and serve :: "bytes \<Rightarrow> response \<Rightarrow> bool"
  assumes echoes: "serve (packet_of R ty n stream kvs) v \<Longrightarrow> rs_sync v = n"

text \<open>The most liberal such server: it reads the second entry of the header, and sends anything with that sync.\<close>

definition header_sync :: "rmp \<Rightarrow> bytes \<Rightarrow> u64 option" where
  "header_sync R p =
    Option.bind (read_int_u64 R (tl p)) (\<lambda>(_, p).
    Option.bind (read_int_u64 R p) (\<lambda>(_, p).
    Option.bind (read_int_u64 R p) (\<lambda>(_, p).
    map_option fst (read_int_u64 R p))))"

definition echo_server :: "rmp \<Rightarrow> bytes \<Rightarrow> response \<Rightarrow> bool" where
  "echo_server R p v \<longleftrightarrow> header_sync R p = Some (rs_sync v)"

lemma ref_map_head: "write_map_len ref_rmp 2 = [0x82]" "write_map_len ref_rmp 3 = [0x83]"
  by code_simp+

lemma header_sync_packet: "header_sync ref_rmp (packet_of ref_rmp ty n stream kvs) = Some n"
  by (cases stream)
    (simp_all add: packet_of_def mp_map_def header_sync_def request_header_def entry_of_def ref_map_head
      ref_int.read_write_uint)

interpretation echo: echoing_server ref_rmp "echo_server ref_rmp"
  by unfold_locales (simp add: echo_server_def header_sync_packet)

section \<open>Invariants of the system\<close>

lemma watch_packet_of: "watch_packet R ty key = Ok (packet_of R ty 0 None [(KEY_EVENT_KEY, write_str R key)])"
proof -
  have "watch_packet R ty key = request_packet R ty 0 None [FStr KEY_EVENT_KEY key]"
    by (simp add: watch_packet_def packet_fields)
  then show ?thesis by (simp add: request_packet_spec two_maps_def packet_of_def)
qed

text \<open>The syncs in use: all different, and numbers drawn so far, as long as the counter has not wrapped around.\<close>

definition syncs_inv :: "rmp \<Rightarrow> system \<Rightarrow> bool" where
  "syncs_inv R s \<longleftrightarrow> next_sync_value (sy_counters s) = of_nat (Suc (sy_draws s)) \<and>
    (\<forall>(n, p) \<in> set (sy_used s). \<exists>ty stream kvs. p = packet_of R ty n stream kvs) \<and>
    (sy_draws s < 2 ^ 64 - 1 \<longrightarrow> distinct (sy_drawn s @ map fst (sy_used s)) \<and>
      (\<forall>n \<in> set (sy_drawn s @ map fst (sy_used s)). 0 < n \<and> unat n \<le> sy_draws s))"

text \<open>The commands on their way and received are those that were handed over, each request with its own oneshot.\<close>

definition registered :: "(u64 \<times> bytes) list \<Rightarrow> command \<Rightarrow> bool" where
  "registered used c = (case c of
     CRequest n p r q \<Rightarrow> (n, p) \<in> set used \<and> (q = None \<or> q = Some r)
   | CFire p \<Rightarrow> p \<in> snd ` set used
   | _ \<Rightarrow> True)"

definition queue_inv :: "system \<Rightarrow> bool" where
  "queue_inv s \<longleftrightarrow> (let cs = t_taken (snd (sy_task s)) @ sy_queue s in
    list_all (registered (sy_used s)) cs \<and> length (sy_queue s) \<le> CHANNEL_CAPACITY \<and>
    (fst (sy_task s) = Panicked \<or> replies_of cs = [0..<sy_replies s]))"

definition effects_inv :: "rmp \<Rightarrow> (bytes \<Rightarrow> response \<Rightarrow> bool) \<Rightarrow> phase \<times> task \<Rightarrow> bool" where
  "effects_inv R serve m \<longleftrightarrow> (case m of (ph, t) \<Rightarrow> machine_inv (ph, t) \<and>
    (\<forall>p. ESent p \<in> set (t_log t) \<longrightarrow> issued R (t_taken t) p) \<and>
    list_all (attributed (came serve t) (t_taken t)) (t_log t))"

definition sys_inv :: "rmp \<Rightarrow> (bytes \<Rightarrow> response \<Rightarrow> bool) \<Rightarrow> system \<Rightarrow> bool" where
  "sys_inv R serve s \<longleftrightarrow> syncs_inv R s \<and> queue_inv s \<and> effects_inv R serve (sy_task s)"

lemma came_iff: "came serve t v \<longleftrightarrow> (\<exists>p. ESent p \<in> set (t_log t) \<and> serve p v)"
proof -
  have "(case e of ESent p \<Rightarrow> serve p v | _ \<Rightarrow> False) \<longleftrightarrow> (\<exists>p. e = ESent p \<and> serve p v)" for e by (cases e) simp_all
  then show ?thesis by (auto simp: came_def list_ex_iff)
qed

lemma came_mono: "came serve t v \<Longrightarrow> t_log u = t_log t @ es \<Longrightarrow> came serve u v"
  by (simp add: came_def)

lemma effects_turn:
  assumes "effects_inv R serve (ph, t)" "from_server serve t i" "task_step R dbg i (ph, t) = Some (ph', t')"
  shows "effects_inv R serve (ph', t')"
proof -
  have m: "machine_inv (ph, t)" and sent: "\<And>p. ESent p \<in> set (t_log t) \<Longrightarrow> issued R (t_taken t) p"
    and att: "list_all (attributed (came serve t) (t_taken t)) (t_log t)"
    using assms(1) by (simp_all add: effects_inv_def)
  have m': "machine_inv (ph', t')" by (rule task_step_inv [OF m assms(3)])
  have keep: "effects_inv R serve (ph', t')"
    if w: "writes R (t_taken t') t t'" and g: "grows (came serve t) t t'" and s: "set (t_taken t) \<subseteq> set (t_taken t')"
  proof -
    from g obtain es where es: "t_log t' = t_log t @ es" "list_all (attributed (came serve t) (t_taken t')) es"
      by (auto simp: grows_def)
    have "attributed (came serve t') (t_taken t') e" if "attributed (came serve t) cs e" "set cs \<subseteq> set (t_taken t')" for cs e
      using attributed_mono [OF that(1) came_mono [OF _ es(1)] that(2)] .
    then have "list_all (attributed (came serve t') (t_taken t')) (t_log t')"
      using att es s by (auto simp: list_all_iff)
    moreover have "issued R (t_taken t') p" if "ESent p \<in> set (t_log t')" for p
      using that w sent [of p] issued_mono [OF _ s] by (auto simp: writes_def)
    ultimately show ?thesis using m' by (simp add: effects_inv_def)
  qed
  show ?thesis using m assms(3)
  proof (cases rule: task_step_shape)
    case plain
    have "set (t_taken t) \<subseteq> set (t_taken t')"
      using extends_taken [OF plain(1)] set_taken [of "input_command i" t] by simp
    moreover have "grows (came serve t) t t'" using extends_grows [OF plain(1)] by (simp add: grows_def)
    ultimately show ?thesis using keep plain(2) by blast
  next
    case overflow
    then show ?thesis using assms(1) m' by (simp add: effects_inv_def)
  next
    case (packet v alive sent u)
    have "rs_kind v \<noteq> KEvent \<Longrightarrow> came serve t v" using assms(2) packet(1) by simp
    with m packet(2) have u: "t_taken u = t_taken t" "grows (came serve t) t u"
      using handle_response_grows by (simp_all add: machine_inv_def)
    have t': "t_taken t' = t_taken u" by (rule extends_taken [OF packet(3)])
    have "grows (came serve t) t t'"
      using u extends_grows [OF packet(3), of "came serve t"] t' by (auto simp: grows_def)
    moreover have "writes R (t_taken t') t t'"
      by (rule writes_trans [OF writes_response [OF packet(2)] packet(4)])
    ultimately show ?thesis using keep u t' by simp
  qed
qed

lemma task_step_taken:
  assumes "machine_inv (ph, t)" "task_step R dbg i (ph, t) = Some (ph', t')"
  shows "t_taken t' = t_taken (take_command (input_command i) t) \<or> ph' = Panicked \<and> t_taken t' = t_taken t"
  using assms
proof (cases rule: task_step_shape)
  case plain
  then show ?thesis by (simp add: extends_taken)
next
  case (packet v alive sent u)
  have "t_taken u = t_taken t"
    using handle_response_grows [OF _ packet(2), of "\<lambda>_. True"] assms(1) by (simp add: machine_inv_def)
  then show ?thesis using extends_taken [OF packet(3)] packet(1) by (simp add: take_command_def)
qed simp

lemma input_queue_taken:
  assumes "input_queue i q = Some q'"
  shows "q = (case input_command i of Some c \<Rightarrow> [c] | None \<Rightarrow> []) @ q'"
  using assms by (cases i) (auto simp: rx_recv_def split: option.splits list.splits if_splits)

lemma queue_turn:
  assumes "queue_inv s" "machine_inv (sy_task s)" "sys_turn R dbg serve i s = Some s'"
  shows "queue_inv s'"
proof -
  obtain ph t where m: "sy_task s = (ph, t)" by fastforce
  from assms(3) obtain q ph' t' where q: "input_queue i (sy_queue s) = Some q" "task_step R dbg i (ph, t) = Some (ph', t')"
      and s': "s' = s\<lparr>sy_queue := q, sy_task := (ph', t')\<rparr>"
    by (auto simp: sys_turn_def m bind_eq_Some_conv split: if_splits)
  have ph: "ph \<noteq> Panicked" using q(2) by (cases i) auto
  note qs = input_queue_taken [OF q(1)]
  let ?old = "t_taken t @ sy_queue s" and ?new = "t_taken t' @ q"
  have new: "?new = ?old \<or> ph' = Panicked \<and> set ?new \<subseteq> set ?old"
    using task_step_taken [OF assms(2) [unfolded m] q(2)] qs by (auto simp: take_command_def split: option.splits)
  have old: "list_all (registered (sy_used s)) ?old" "replies_of ?old = [0..<sy_replies s]"
    using assms(1) ph by (simp_all only: queue_inv_def m Let_def fst_conv snd_conv simp_thms)
  have "list_all (registered (sy_used s)) ?new" using new old(1) unfolding list_all_iff by (metis subsetD)
  moreover have "ph' = Panicked \<or> replies_of ?new = [0..<sy_replies s]" using new old(2) by metis
  moreover have "length q \<le> CHANNEL_CAPACITY" using qs assms(1) by (simp add: queue_inv_def Let_def)
  ultimately show ?thesis by (simp add: queue_inv_def s' Let_def)
qed

lemma tx_send_Some:
  "tx_send c s = Some s' \<longleftrightarrow>
    \<not> t_rx_closed (snd (sy_task s)) \<and> length (sy_queue s) < CHANNEL_CAPACITY \<and> s' = s\<lparr>sy_queue := sy_queue s @ [c]\<rparr>"
  by (auto simp: tx_send_def)

lemma registered_more: "registered used c \<Longrightarrow> registered (used @ new) c"
  by (auto simp: registered_def split: command.splits)

text \<open>Handing over a command keeps the queue in order when the command is registered and brings the next oneshot, if any.\<close>

lemma queue_send:
  assumes "queue_inv s" "tx_send c u = Some s'" "sy_task u = sy_task s" "sy_queue u = sy_queue s"
    and "sy_used u = sy_used s @ new" "registered (sy_used u) c"
    and "[0..<sy_replies u] = [0..<sy_replies s] @ command_replies c"
  shows "queue_inv s'"
  using assms registered_more [of "sy_used s"]
  by (auto simp: queue_inv_def tx_send_Some Let_def list_all_iff)

lemma syncs_use:
  assumes "syncs_inv R s" "n \<in> set (sy_drawn s)" "p = packet_of R ty n stream kvs"
    and "sy_counters u = sy_counters s" "sy_draws u = sy_draws s"
    and "sy_drawn u = remove1 n (sy_drawn s)" "sy_used u = sy_used s @ [(n, p)]"
  shows "syncs_inv R u"
  using assms unfolding syncs_inv_def by (auto simp: notin_set_remove1 set_remove1_eq)

lemma syncs_draw:
  assumes "syncs_inv R s"
  shows "syncs_inv R (sys_draw s)"
proof -
  let ?n = "next_sync_value (sy_counters s)"
  have n: "?n = of_nat (Suc (sy_draws s))" using assms by (simp add: syncs_inv_def)
  have u: "unat ?n = Suc (sy_draws s)" if "Suc (sy_draws s) < 2 ^ 64 - 1"
    unfolding n using that by (intro unat_of_nat_u64) simp
  have fresh: "0 < ?n \<and> ?n \<notin> set (sy_drawn s @ map fst (sy_used s))" if b: "Suc (sy_draws s) < 2 ^ 64 - 1"
  proof
    show "0 < ?n" using u [OF b] by (simp add: word_gt_0 unat_gt_0 [symmetric])
    have "unat k \<le> sy_draws s" if "k \<in> set (sy_drawn s @ map fst (sy_used s))" for k
      using assms b that unfolding syncs_inv_def by simp
    then show "?n \<notin> set (sy_drawn s @ map fst (sy_used s))" using u [OF b] by fastforce
  qed
  have "distinct ((?n # sy_drawn s) @ map fst (sy_used s)) \<and>
      (\<forall>k \<in> set ((?n # sy_drawn s) @ map fst (sy_used s)). 0 < k \<and> unat k \<le> Suc (sy_draws s))"
    if b: "Suc (sy_draws s) < 2 ^ 64 - 1"
    using assms b fresh [OF b] u [OF b] unfolding syncs_inv_def by (auto simp: le_SucI)
  then show ?thesis
    using assms n by (simp add: syncs_inv_def sys_draw_def next_sync_def del: distinct.simps set_append)
qed

text \<open>A caller hands over a packet with the sync it drew.\<close>

lemma hand_over_inv:
  assumes "sys_inv R serve s" "n \<in> set (sy_drawn s)" "p = packet_of R ty n stream kvs"
    and "tx_send c (use_sync n p s\<lparr>sy_replies := k\<rparr>) = Some s'"
    and "registered (sy_used s @ [(n, p)]) c" "[0..<k] = [0..<sy_replies s] @ command_replies c"
  shows "sys_inv R serve s'"
proof -
  have i: "syncs_inv R s" "queue_inv s" "effects_inv R serve (sy_task s)" using assms(1) by (simp_all add: sys_inv_def)
  have "queue_inv s'" by (rule queue_send [OF i(2) assms(4)]) (use assms(5,6) in \<open>simp_all add: use_sync_def\<close>)
  moreover have "syncs_inv R s'" using syncs_use [OF i(1) assms(2,3)] assms(4) by (simp add: tx_send_Some use_sync_def)
  ultimately show ?thesis using i(3) assms(4) by (simp add: sys_inv_def tx_send_Some use_sync_def)
qed

lemma sys_turn_inv:
  assumes "sys_inv R serve s" "sys_turn R dbg serve inp s = Some s'"
  shows "sys_inv R serve s'"
proof -
  have i: "syncs_inv R s" "queue_inv s" "effects_inv R serve (sy_task s)" using assms(1) by (simp_all add: sys_inv_def)
  obtain q m where s': "s' = s\<lparr>sy_queue := q, sy_task := m\<rparr>" "from_server serve (snd (sy_task s)) inp"
      "task_step R dbg inp (sy_task s) = Some m"
    using assms(2) by (auto simp: sys_turn_def bind_eq_Some_conv split: if_splits)
  have "effects_inv R serve (sy_task s')" "syncs_inv R s'"
    using i(1,3) s' effects_turn [of R serve "fst (sy_task s)" "snd (sy_task s)" inp dbg "fst m" "snd m"]
    by (simp_all add: syncs_inv_def)
  moreover have "machine_inv (sy_task s)" using i(3) by (auto simp: effects_inv_def split: prod.splits)
  ultimately show ?thesis using queue_turn [OF i(2) _ assms(2)] by (simp add: sys_inv_def)
qed

lemma sys_step_inv:
  assumes "sys_inv R serve s" "sys_step R dbg serve e s = Some s'"
  shows "sys_inv R serve s'"
proof -
  have i: "syncs_inv R s" "queue_inv s" "effects_inv R serve (sy_task s)" using assms(1) by (simp_all add: sys_inv_def)
  show ?thesis
  proof (cases e)
    case SDraw
    then have "s' = sys_draw s" using assms(2) by simp
    moreover from this have "queue_inv s'" "sy_task s' = sy_task s"
      using i(2) by (simp_all add: sys_draw_def next_sync_def queue_inv_def)
    ultimately show ?thesis using syncs_draw [OF i(1)] i(3) by (simp add: sys_inv_def)
  next
    case (SAbandon n)
    then have "s' = s\<lparr>sy_drawn := remove1 n (sy_drawn s)\<rparr>" using assms(2) by simp
    moreover have "set (remove1 n (sy_drawn s)) \<subseteq> set (sy_drawn s)" by (rule set_remove1_subset)
    ultimately show ?thesis using i by (auto simp: sys_inv_def queue_inv_def syncs_inv_def)
  next
    case (SRequest n ty stream kvs pushes)
    then show ?thesis
      using assms(2) by (auto simp: sys_request_def Let_def registered_def command_replies_def split: if_splits
          intro: hand_over_inv [OF assms(1) _ refl])
  next
    case (SFire n ty stream kvs)
    have "use_sync n p s\<lparr>sy_replies := sy_replies s\<rparr> = use_sync n p s" for p by (simp add: use_sync_def)
    then show ?thesis
      using assms(2) SFire hand_over_inv [OF assms(1) _ refl, where k = "sy_replies s" and n = n and c = "CFire (packet_of R ty n stream kvs)"]
      by (auto simp: Let_def registered_def command_replies_def split: if_splits)
  next
    case (SControl c)
    then have c: "is_control c" and t: "tx_send c s = Some s'" using assms(2) by (auto split: if_splits)
    have "queue_inv s'"
      by (rule queue_send [OF i(2) t, where new = "[]"])
        (use c in \<open>auto simp: registered_def is_control_def command_replies_def split: command.splits\<close>)
    then show ?thesis using i t by (simp add: sys_inv_def tx_send_Some syncs_inv_def)
  next
    case (STurn inp)
    then show ?thesis using assms sys_turn_inv by simp
  qed
qed

interpretation system: machine_invariant "sys_step R dbg serve" legal "sys_start options" "sys_inv R serve"
  for R :: rmp and dbg :: "duration \<Rightarrow> string" and serve :: "bytes \<Rightarrow> response \<Rightarrow> bool"
    and legal :: "sys_event \<Rightarrow> bool" and options :: connect_options
proof unfold_locales
  have "machine_inv (start options)" by (rule loop.init_inv)
  then show "sys_inv R serve (sys_start options)"
    by (simp add: sys_inv_def sys_start_def syncs_inv_def queue_inv_def effects_inv_def counters_new_def task_new_def)
qed (rule sys_step_inv)

context echoing_server
begin

text \<open>A response with the sync of a request can only be for the packet of that request.\<close>

lemma came_own:
  assumes "sys_inv R serve s" "sy_draws s < 2 ^ 64 - 1" "sy_task s = (ph, t)"
    and "came serve t v" "CRequest (rs_sync v) packet r q \<in> set (t_taken t)"
  shows "serve packet v \<and> ESent packet \<in> set (t_log t) \<and>
    (\<exists>ty stream kvs. packet = packet_of R ty (rs_sync v) stream kvs) \<and> (q = None \<or> q = Some r)"
proof -
  have i: "syncs_inv R s" "queue_inv s" "effects_inv R serve (ph, t)" using assms(1,3) by (simp_all add: sys_inv_def)
  have all: "distinct (sy_drawn s @ map fst (sy_used s))" "\<forall>n \<in> set (sy_drawn s @ map fst (sy_used s)). 0 < n \<and> unat n \<le> sy_draws s"
    using i(1) assms(2) unfolding syncs_inv_def by blast+
  have used: "distinct (map fst (sy_used s))" using all(1) by simp
  have pos: "0 < n" if "(n, p) \<in> set (sy_used s)" for n p
  proof -
    have "n \<in> set (sy_drawn s @ map fst (sy_used s))" using that by force
    then show ?thesis using all(2) by blast
  qed
  have shape: "\<exists>ty stream kvs. p = packet_of R ty n stream kvs" if "(n, p) \<in> set (sy_used s)" for n p
    using i(1) that unfolding syncs_inv_def by blast
  have reg: "\<And>c. c \<in> set (t_taken t) \<Longrightarrow> registered (sy_used s) c"
    using i(2) assms(3) by (simp add: queue_inv_def Let_def list_all_iff)
  have own: "(rs_sync v, packet) \<in> set (sy_used s)" "q = None \<or> q = Some r"
    using reg [OF assms(5)] by (simp_all add: registered_def)
  from assms(4) obtain p where p: "ESent p \<in> set (t_log t)" "serve p v"
    by (auto simp: came_iff)
  have "\<exists>n. (n, p) \<in> set (sy_used s)"
  proof -
    from i(3) p(1) have "issued R (t_taken t) p" by (simp add: effects_inv_def)
    then consider n r' q' where "CRequest n p r' q' \<in> set (t_taken t)" | "CFire p \<in> set (t_taken t)"
      | ty key where "watch_packet R ty key = Ok p" by (auto simp: issued_def)
    then show ?thesis
    proof cases
      case 3
      then have "rs_sync v = 0" using echoes p(2) by (auto simp: watch_packet_of)
      then show ?thesis using pos [OF own(1)] by simp
    qed (use reg in \<open>force simp: registered_def\<close>)+
  qed
  then obtain n where n: "(n, p) \<in> set (sy_used s)" ..
  with shape echoes p(2) have "n = rs_sync v" by blast
  with n own(1) used have "p = packet" by (metis eq_key_imp_eq_value)
  then show ?thesis using p shape [OF own(1)] own(2) by blast
qed

end

section \<open>Properties\<close>

text \<open>
  A run for the witnesses: two callers draw the syncs 1 and 2, the second sends first, and the server answers the first caller first and
  pushes a chunk to the second.
\<close>

abbreviation ping :: "u64 \<Rightarrow> bytes" where
  "ping n \<equiv> packet_of ref_rmp REQ_PING n None []"

definition demo_events :: "sys_event list" where
  "demo_events =
    [SDraw, SDraw, SRequest 2 REQ_PING None [] True, SRequest 1 REQ_PING None [] False,
     STurn (IDrain None), STurn (ICommand (Some (CRequest 2 (ping 2) 0 (Some 0))) None),
     STurn (IDrain None), STurn (ICommand (Some (CRequest 1 (ping 1) 1 None)) None),
     STurn (IDrain None), STurn (IPacket (Some (Ok (empty_response KOk 1 None []))) (\<lambda>_. True) None),
     STurn (IDrain None), STurn (IPacket (Some (Ok (empty_response KChunk 2 None []))) (\<lambda>_. True) None)]"

definition demo_task :: task where
  "demo_task = (task_new demo_options)
    \<lparr>t_pending := [(2, \<lparr>p_reply = 0, p_pushes = Some 0\<rparr>)],
     t_log := [ESent (ping 2), ESent (ping 1), ESettle 1 (Ok (empty_response KOk 1 None [])), EPush 0 [0xc0]],
     t_taken := [CRequest 2 (ping 2) 0 (Some 0), CRequest 1 (ping 1) 1 None]\<rparr>"

definition demo_system :: system where
  "demo_system =
    \<lparr>sy_counters = counters_new\<lparr>next_sync_value := 3\<rparr>, sy_drawn = [], sy_replies = 2, sy_queue = [],
     sy_task = (Draining, demo_task), sy_draws = 2, sy_used = [(2, ping 2), (1, ping 1)]\<rparr>"

lemma ping_length: "length (ping 1) < 2 ^ 32" "length (ping 2) < 2 ^ 32"
  by code_simp+

lemma demo_system_run:
  "run_inputs (sys_step ref_rmp dbg (echo_server ref_rmp)) demo_events (sys_start demo_options) = Some demo_system"
  using ping_length
  by (simp add: demo_events_def demo_system_def demo_task_def sys_start_def sys_draw_def next_sync_def counters_new_def sys_request_def
      use_sync_def tx_send_def CHANNEL_CAPACITY_def sys_turn_def rx_recv_def came_def echo_server_def header_sync_packet run_defs
      handle_response_def handle_chunk_def handle_reply_def empty_response_def data_bytes_def response_slice_def unwrap_or_def)

lemma demo_system_reach:
  "reach (sys_step ref_rmp dbg (echo_server ref_rmp)) (\<lambda>_. True) (sys_start demo_options) demo_system"
  by (rule run_inputs_reach [OF reach_init _ demo_system_run]) (simp add: list_all_iff)

text \<open>
  C2: callers that share a connection get the answers to their own packets.  However their calls interleave with each
  other, with the turns of the task, with reconnections and with the answers of the server, a response that a caller
  gets is one the server sends for the very packet that caller handed over, after it was written, and a chunk on a push stream is one
  the server sends for the packet of that stream's request.  (The syncs repeat after 2 ^ 64 - 1 draws.)
\<close>

theorem callers_get_own_answers:
  assumes "echoing_server R serve" "reach (sys_step R dbg serve) legal (sys_start options) s"
    and "sy_draws s < 2 ^ 64 - 1" "sy_task s = (ph, t)"
  shows "(ESettle r (Ok v) \<in> set (t_log t) \<longrightarrow>
      (\<exists>n ty stream kvs q. let packet = packet_of R ty n stream kvs in
        CRequest n packet r q \<in> set (t_taken t) \<and> ESent packet \<in> set (t_log t) \<and> serve packet v)) \<and>
    (EPush r b \<in> set (t_log t) \<longrightarrow>
      (\<exists>n ty stream kvs v. let packet = packet_of R ty n stream kvs in
        CRequest n packet r (Some r) \<in> set (t_taken t) \<and> ESent packet \<in> set (t_log t) \<and> serve packet v \<and>
        rs_kind v = KChunk \<and> data_bytes v = Ok b))"
proof -
  have inv: "sys_inv R serve s" by (rule system.reach_inv [OF assms(2)])
  then have att: "attributed (came serve t) (t_taken t) e" if "e \<in> set (t_log t)" for e
    using that assms(4) by (simp add: sys_inv_def effects_inv_def list_all_iff)
  note own = echoing_server.came_own [OF assms(1) inv assms(3,4)]
  show ?thesis unfolding Let_def
  proof (intro conjI impI)
    assume "ESettle r (Ok v) \<in> set (t_log t)"
    from att [OF this] obtain packet q where "came serve t v" and c: "CRequest (rs_sync v) packet r q \<in> set (t_taken t)" by auto
    from own [OF this] c show "\<exists>n ty stream kvs q. CRequest n (packet_of R ty n stream kvs) r q \<in> set (t_taken t) \<and>
        ESent (packet_of R ty n stream kvs) \<in> set (t_log t) \<and> serve (packet_of R ty n stream kvs) v" by blast
  next
    assume "EPush r b \<in> set (t_log t)"
    from att [OF this] obtain v packet r' where "came serve t v"
      and c: "CRequest (rs_sync v) packet r' (Some r) \<in> set (t_taken t)" and k: "rs_kind v = KChunk" "data_bytes v = Ok b" by auto
    from own [OF this(1,2)] c k show "\<exists>n ty stream kvs v. CRequest n (packet_of R ty n stream kvs) r (Some r) \<in> set (t_taken t) \<and>
        ESent (packet_of R ty n stream kvs) \<in> set (t_log t) \<and> serve (packet_of R ty n stream kvs) v \<and>
        rs_kind v = KChunk \<and> data_bytes v = Ok b" by blast
  qed
qed

theorem callers_get_own_answers_witness:
  "(\<exists>n ty stream kvs q. let packet = packet_of ref_rmp ty n stream kvs in
      CRequest n packet 1 q \<in> set (t_taken demo_task) \<and> ESent packet \<in> set (t_log demo_task) \<and>
      echo_server ref_rmp packet (empty_response KOk 1 None [])) \<and>
   (\<exists>n ty stream kvs v. let packet = packet_of ref_rmp ty n stream kvs in
      CRequest n packet 0 (Some 0) \<in> set (t_taken demo_task) \<and> ESent packet \<in> set (t_log demo_task) \<and>
      echo_server ref_rmp packet v \<and> rs_kind v = KChunk \<and> data_bytes v = Ok [0xc0])"
proof -
  have m: "sy_task demo_system = (Draining, demo_task)" "sy_draws demo_system < 2 ^ 64 - 1" by (simp_all add: demo_system_def)
  note own = callers_get_own_answers [OF echo.echoing_server_axioms demo_system_reach m(2,1)]
  have "ESettle 1 (Ok (empty_response KOk 1 None [])) \<in> set (t_log demo_task)" "EPush 0 [0xc0] \<in> set (t_log demo_task)"
    by (simp_all add: demo_task_def)
  with own show ?thesis by blast
qed

text \<open>
  C3: no request is lost between the callers and the task.  At every moment every oneshot that was created is exactly once in
  the channel, pending, deferred, or answered; when the task has finished, those that are not in the channel have been answered; the
  channel never holds more than its capacity.
\<close>

theorem requests_accounted_for:
  assumes "reach (sys_step R dbg serve) legal (sys_start options) s" "sy_task s = (ph, t)" "ph \<noteq> Panicked"
  shows "mset (replies_of (sy_queue s)) + mset (answered t) +
      (if ph = Finished then {#} else mset (pending_replies t) + mset (replies_of (t_deferred t))) =
    mset [0..<sy_replies s] \<and> length (sy_queue s) \<le> 1024"
proof -
  have inv: "sys_inv R serve s" by (rule system.reach_inv [OF assms(1)])
  have m: "machine_inv (ph, t)" using inv assms(2) by (simp add: sys_inv_def effects_inv_def)
  have q: "replies_of (t_taken t @ sy_queue s) = [0..<sy_replies s]" "length (sy_queue s) \<le> 1024"
    using inv assms(2,3) by (simp_all add: sys_inv_def queue_inv_def Let_def CHANNEL_CAPACITY_def)
  have "mset (answered t) + (if ph = Finished then {#} else mset (pending_replies t) + mset (replies_of (t_deferred t))) =
      mset (replies_of (t_taken t))"
    using m by (auto simp: machine_inv_def books_def balance_def add.assoc pending_replies_def)
  then show ?thesis using q(2) by (simp add: q(1) [symmetric] add_ac)
qed

theorem requests_accounted_for_witness:
  "mset (replies_of (sy_queue demo_system)) + mset (answered demo_task) +
      (if Draining = Finished then {#} else mset (pending_replies demo_task) + mset (replies_of (t_deferred demo_task))) =
    mset [0..<sy_replies demo_system] \<and> length (sy_queue demo_system) \<le> 1024"
  by (rule requests_accounted_for [OF demo_system_reach]) (simp_all add: demo_system_def)

end
