(* ===== verification/Connection_Schema.thy ===== *)
theory Connection_Schema
  imports Connection_Effects Handshake
begin

text \<open>
  The schema version that handles read (\<open>Shared::schema_version\<close> in \<^verbatim>\<open>src/src/connection.rs\<close>): the task raises it to that of a
  response and nothing else touches it.  A connection is followed from its first handshake on, and through the handshakes of its
  reconnects, whose replies carry schema versions as well.
\<close>

definition handle_schema_version :: "task \<Rightarrow> u64" where
  "handle_schema_version t = t_schema_version t"

fun input_schema :: "input \<Rightarrow> u64" where
  "input_schema (IPacket (Some (Ok v)) _ _) = (case rs_schema_version v of Some n \<Rightarrow> n | None \<Rightarrow> 0)"
| "input_schema _ = 0"

lemma schema_send [simp]: "t_schema_version (fst (send s p t)) = t_schema_version t"
  by (cases rule: send_cases [of s p t]) (simp_all add: record_effect_def)

lemma schema_fail [simp]:
  "t_schema_version (fail_pending dbg e t) = t_schema_version t" "t_schema_version (fail_deferred t) = t_schema_version t"
  "t_schema_version (drop_task t) = t_schema_version t" "t_schema_version (fail_request c t) = t_schema_version t"
  "t_schema_version (defer_command c t) = t_schema_version t" "t_schema_version (take_command d t) = t_schema_version t"
  by (simp_all add: fail_pending_eq fail_deferred_eq drop_task_eq fail_request_eq defer_command_def take_command_def
      split: option.split)

lemma schema_command [simp]: "t_schema_version (fst (handle_command R s c t)) = t_schema_version t"
  by (cases c) (simp_all add: handle_command_def Let_def settle_def insert_pending_def record_effect_def split: option.split)

lemma schema_give_up [simp]: "t_schema_version (snd (give_up t)) = t_schema_version t"
  by (simp add: give_up_def)

lemma schema_after_select [simp]: "t_schema_version (snd (after_select dbg (t, out))) = t_schema_version t"
  by (auto simp: after_select_def fail_link_def enter_reconnect_def split: outcome.split run_outcome.split reconnect.split)

lemma schema_response:
  assumes "handle_response R alive s v t = Ok t'"
  shows "t_schema_version t' = max (t_schema_version t) (case rs_schema_version v of Some n \<Rightarrow> n | None \<Rightarrow> 0)"
proof -
  have n: "t_schema_version (note_schema v t) = max (t_schema_version t) (case rs_schema_version v of Some n \<Rightarrow> n | None \<Rightarrow> 0)"
    by (simp add: note_schema_def split: option.split)
  have "t_schema_version t' = t_schema_version (note_schema v t)"
  proof (cases "rs_kind v")
    case KChunk
    then have "handle_chunk v (note_schema v t) = Ok t'" using assms by (simp add: handle_response_alt)
    then show ?thesis by (cases rule: handle_chunk_Ok) (simp_all add: record_effect_def)
  next
    case KEvent
    then have "handle_event R alive s v (note_schema v t) = Ok t'" using assms by (simp add: handle_response_alt)
    then show ?thesis by (cases rule: handle_event_cases) simp_all
  qed (use assms in \<open>auto simp: handle_response_alt handle_reply_def settle_def record_effect_def split: option.splits\<close>)
  then show ?thesis by (simp add: n)
qed

lemma schema_drain [simp]: "t_schema_version (snd (drain_step R dbg s t)) = t_schema_version t"
proof (cases "t_deferred t")
  case (Cons c rest)
  obtain t' out where h: "handle_command R s c (t\<lparr>t_deferred := rest\<rparr>) = (t', out)" by fastforce
  then have "t_schema_version t' = t_schema_version t"
    using schema_command [of R s c "t\<lparr>t_deferred := rest\<rparr>"] by simp
  then show ?thesis using h Cons by (cases out) (simp_all add: drain_step_def fail_link_def)
qed (simp add: drain_step_def)

lemma schema_select_command [simp]: "t_schema_version (fst (select_command R c s t)) = t_schema_version t"
proof (cases "\<exists>c'. c = Some c' \<and> c' \<noteq> CClose")
  case True
  then obtain c' where c: "c = Some c'" "c' \<noteq> CClose" by blast
  then have "fst (select_command R c s t) = fst (handle_command R s c' t)"
    by (cases c') (simp_all add: select_command_def split: prod.split outcome.split)
  then show ?thesis by simp
next
  case False
  then have "c = None \<or> c = Some CClose" by (cases c) auto
  then show ?thesis by (auto simp: select_command_def)
qed

lemma response_not_Err: "handle_response R alive s v t \<noteq> Err e"
proof -
  have m: "map_ok f x = Err e \<longleftrightarrow> x = Err e" for f :: "'a \<Rightarrow> 'b" and x :: "'a result" by (cases x) simp_all
  have d: "data_bytes v \<noteq> Err e" and ev: "event v \<noteq> Err e"
    by (auto simp: data_bytes_def event_def response_slice_def m split: option.split prod.split)
  show ?thesis
    using d ev by (cases "rs_kind v")
      (auto simp: handle_response_alt handle_chunk_def handle_event_def Let_def outcome_simps m
        split: option.split prod.split outcome.split)
qed

lemma schema_step:
  assumes "task_step R dbg i (ph, t) = Some (ph', t')" "ph' \<noteq> Panicked"
  shows "t_schema_version t' = max (t_schema_version t) (input_schema i)"
  using assms(1)
proof (cases rule: task_step_cases)
  case (Drain s)
  then show ?thesis using schema_drain [of R dbg s t] by (simp flip: Drain(3))
next
  case (Command c s)
  obtain u out where u: "select_command R c s (take_command c t) = (u, out)" by fastforce
  then have "t' = snd (after_select dbg (u, out))" using Command(3) by (metis snd_conv)
  then show ?thesis
    using Command(1) u schema_after_select [of dbg u out] schema_select_command [of R c s "take_command c t"] by simp
next
  case (Packet p alive s)
  obtain u out where u: "select_packet R p alive s t = (u, out)" by fastforce
  then have m: "after_select dbg (u, out) = (ph', t')" using Packet(3) by simp
  then have t': "t_schema_version t' = t_schema_version u" using schema_after_select [of dbg u out] by simp
  have "out \<noteq> Panic" using m assms(2) by (auto simp: after_select_def)
  then show ?thesis
    using u t' Packet(1) schema_response [of R alive s _ t] response_not_Err [of R alive s _ t]
    by (auto simp: select_packet_def split: option.splits outcome.splits)
next
  case (Elapsed now d)
  then show ?thesis by (auto simp: wait_step_def split: if_splits)
next
  case (Wake now c d)
  then show ?thesis by (auto simp: wait_step_def give_up_def Let_def split: if_splits option.splits command.splits)
next
  case (Handshake shaken sents d)
  have "t_schema_version u = t_schema_version t" if "resubscribe R keys sents t = Ok u" for keys u
    using resubscribe_Ok [OF that] by auto
  then show ?thesis using Handshake by (auto simp: connect_step_def split: outcome.splits option.splits)
qed

section \<open>A connection with its handshakes\<close>

text \<open>\<open>Handle::connect\<close>, the part of the task: a handshake, and the task that is spawned after it.\<close>

definition shake ::
  "rmp \<Rightarrow> rmpv \<Rightarrow> (u64 list \<Rightarrow> (string, bytes) outcome) \<Rightarrow> (bytes \<Rightarrow> bytes) \<Rightarrow> connect_options \<Rightarrow> bool \<Rightarrow> socket \<Rightarrow> negotiated result" where
  "shake R V ser sha1 options elapsed so = snd (handshake options elapsed (handshake_inner R V ser sha1 options so))"

definition task_connect ::
  "rmp \<Rightarrow> rmpv \<Rightarrow> (u64 list \<Rightarrow> (string, bytes) outcome) \<Rightarrow> (bytes \<Rightarrow> bytes) \<Rightarrow> connect_options \<Rightarrow> bool \<Rightarrow> socket \<Rightarrow>
    (phase \<times> task) result" where
  "task_connect R V ser sha1 options elapsed so = map_ok (\<lambda>_. start options) (shake R V ser sha1 options elapsed so)"

text \<open>What happens to the task: an input, or an attempt to reconnect over a new socket.\<close>

datatype session_event = TaskInput input | Reconnect bool socket "error option list"

fun session_input ::
  "rmp \<Rightarrow> rmpv \<Rightarrow> (u64 list \<Rightarrow> (string, bytes) outcome) \<Rightarrow> (bytes \<Rightarrow> bytes) \<Rightarrow> connect_options \<Rightarrow> session_event \<Rightarrow> input" where
  "session_input R V ser sha1 options (TaskInput i) = i"
| "session_input R V ser sha1 options (Reconnect elapsed so sents) =
    IHandshake (map_ok (\<lambda>_. ()) (shake R V ser sha1 options elapsed so)) sents"

text \<open>The schema version that a handle may see of an event: that of a response the task takes from the link.\<close>

fun event_schema :: "session_event \<Rightarrow> u64" where
  "event_schema (TaskInput i) = input_schema i"
| "event_schema (Reconnect elapsed so sents) = 0"

text \<open>
  C27: the schema version a handle reads is the highest that any response the task took from the link carried, and 0 before the first.
  The replies to the announcement and to the credentials do not count, neither those of the first handshake nor those of a
  reconnect, whatever versions they carry: right after connecting a handle reads 0.  No reconnect, failure or command changes the
  version, and so it never decreases.\<close>
theorem schema_version_is_highest:
  assumes "task_connect R V ser sha1 options elapsed so = Ok m"
    and "run_inputs (task_step R dbg) (map (session_input R V ser sha1 options) events) m = Some (ph, t)" "ph \<noteq> Panicked"
  shows "handle_schema_version t = fold max (map event_schema events) 0"
proof -
  have h: "t_schema_version u = fold max (map input_schema inputs) (t_schema_version t)"
    if "run_inputs (task_step R dbg) inputs (ph, t) = Some (ph', u)" "ph' \<noteq> Panicked" for inputs ph ph' t u
    using that
  proof (induction inputs arbitrary: ph t)
    case (Cons i inputs)
    then obtain ph1 t1 where 1: "task_step R dbg i (ph, t) = Some (ph1, t1)"
        "run_inputs (task_step R dbg) inputs (ph1, t1) = Some (ph', u)" by (auto simp: bind_eq_Some_conv)
    have "ph1 \<noteq> Panicked"
    proof
      assume "ph1 = Panicked"
      then show False using 1(2) Cons.prems(2) by (cases inputs) auto
    qed
    from schema_step [OF 1(1) this] show ?case using Cons.IH [OF 1(2) Cons.prems(2)] by (simp add: max.commute)
  qed simp
  have "input_schema (session_input R V ser sha1 options e) = event_schema e" for e by (cases e) simp_all
  moreover have "m = start options" using assms(1) by (auto simp: task_connect_def)
  ultimately show ?thesis
    using h assms(2,3) by (simp add: task_new_def handle_schema_version_def comp_def)
qed

definition versioned_socket :: "u64 \<Rightarrow> socket" where
  "versioned_socket n = demo_socket\<lparr>so_id_reply := Some (Ok (empty_response KError 0 (Some n) []))\<rparr>"

lemma versioned_shake: "\<exists>n. shake ref_rmp ref_rmpv demo_ser demo_sha1 demo_guest False (versioned_socket v) = Ok n"
proof -
  have v: "greeting_version demo_greeting = Ok ''2.8.1''" by code_simp
  have "case id_packet ref_rmp demo_ser of Ok p \<Rightarrow> length p < 2 ^ 32 | _ \<Rightarrow> False" by code_simp
  then obtain p where "id_packet ref_rmp demo_ser = Ok p" "length p < 2 ^ 32" by (auto split: outcome.splits)
  then show ?thesis
    by (simp add: shake_def handshake_def handshake_inner_def versioned_socket_def demo_socket_def quiet_def written_then_def v link_send_def
        encode_def demo_guest_def login_user_def user_name_def options_new_def next_reply_def negotiate_def empty_response_def
        del: map_ok_eq_Ok)
qed

theorem schema_version_is_highest_witness:
  "\<exists>m t. task_connect ref_rmp ref_rmpv demo_ser demo_sha1 demo_guest False (versioned_socket 90) = Ok m \<and>
    run_inputs (task_step ref_rmp (\<lambda>_. [])) (map (session_input ref_rmp ref_rmpv demo_ser demo_sha1 demo_guest)
      [TaskInput (IDrain None), TaskInput (IPacket (Some (Ok (empty_response KOk 9 (Some 80) []))) (\<lambda>_. True) None), TaskInput (IDrain None),
       TaskInput (IPacket None (\<lambda>_. True) None), TaskInput (IElapsed 0), Reconnect False (versioned_socket 95) [], TaskInput (IDrain None),
       TaskInput (IPacket (Some (Ok (empty_response KOk 9 (Some 77) []))) (\<lambda>_. True) None)]) m = Some (Draining, t) \<and>
    handle_schema_version t = 80"
proof -
  let ?events = "[TaskInput (IDrain None), TaskInput (IPacket (Some (Ok (empty_response KOk 9 (Some 80) []))) (\<lambda>_. True) None),
    TaskInput (IDrain None), TaskInput (IPacket None (\<lambda>_. True) None), TaskInput (IElapsed 0), Reconnect False (versioned_socket 95) [],
    TaskInput (IDrain None), TaskInput (IPacket (Some (Ok (empty_response KOk 9 (Some 77) []))) (\<lambda>_. True) None)]"
  have c: "task_connect ref_rmp ref_rmpv demo_ser demo_sha1 demo_guest False (versioned_socket 90) = Ok (start demo_guest)"
    using versioned_shake [of 90] by (auto simp: task_connect_def)
  have r: "run_inputs (task_step ref_rmp (\<lambda>_. [])) (map (session_input ref_rmp ref_rmpv demo_ser demo_sha1 demo_guest) ?events) (start demo_guest) =
      Some (Draining, (task_new demo_guest)\<lparr>t_schema_version := 80\<rparr>)"
    using versioned_shake [of 95]
    by (auto simp: run_defs handle_response_def handle_reply_def empty_response_def next_delay_def DURATION_MAX_def
        demo_guest_def options_new_def)
  from schema_version_is_highest [OF c r] c r show ?thesis by (auto simp: empty_response_def)
qed

end
