(* ===== verification/Sql.thy ===== *)
theory Sql
  imports Handle
begin

text \<open>
  \<^verbatim>\<open>src/src/sql.rs\<close>: statements as text and prepared, named parameters, and the reading of result sets.  The
  parameters \<open>de_map\<close> and \<open>de_maps\<close> are \<open>rmp_serde::from_slice\<close> at a map from numbers to values and at
  a list of such maps; a map is the list of its entries in key order.
\<close>

type_synonym entries = "(u8 \<times> mpvalue) list"

definition named_serialize :: "serde \<Rightarrow> string \<Rightarrow> serialized \<Rightarrow> serialized" where
  "named_serialize S name v =
    (if (case name of c # _ \<Rightarrow> c \<in> {CHR '':'', CHR ''@'', CHR ''$''} | [] \<Rightarrow> False)
     then ser_entry S (ser_str S name) v
     else ser_entry S (ser_str S (CHR '':'' # name)) v)"

record column =
  co_name :: string
  co_type_name :: string
  co_collation :: "string option"
  co_nullable :: "bool option"
  co_autoincrement :: "bool option"
  co_span :: "string option"

record 'a rows =
  rw_columns :: "column list"
  rw_rows :: "'a list"

record exec =
  ex_row_count :: u64
  ex_autoincrement_ids :: "u64 list"

definition text_at :: "rmpv \<Rightarrow> entries \<Rightarrow> u8 \<Rightarrow> string option" where
  "text_at V entry k = Option.bind (map_of entry k) (as_str V)"

definition flag_at :: "rmpv \<Rightarrow> entries \<Rightarrow> u8 \<Rightarrow> bool option" where
  "flag_at V entry k = Option.bind (map_of entry k) (as_bool V)"

definition column_of :: "rmpv \<Rightarrow> entries \<Rightarrow> column" where
  "column_of V entry =
    \<lparr>co_name = unwrap_or (text_at V entry SQL_FIELD_NAME) [],
     co_type_name = unwrap_or (text_at V entry SQL_FIELD_TYPE) [],
     co_collation = text_at V entry SQL_FIELD_COLL,
     co_nullable = flag_at V entry SQL_FIELD_IS_NULLABLE,
     co_autoincrement = flag_at V entry SQL_FIELD_IS_AUTOINCREMENT,
     co_span = text_at V entry SQL_FIELD_SPAN\<rparr>"

definition columns :: "rmpv \<Rightarrow> (bytes \<Rightarrow> (string, entries list) outcome) \<Rightarrow> bytes option \<Rightarrow> column list result" where
  "columns V de_maps bs = (case bs of
     None \<Rightarrow> Ok []
   | Some bs \<Rightarrow> map_ok (map (column_of V)) (map_err Decode (de_maps bs)))"

definition NoResultSet :: string where
  "NoResultSet = ''the statement returned no result set; use `execute` for statements that change data''"

definition sql_rows ::
  "rmpv \<Rightarrow> (bytes \<Rightarrow> (string, entries list) outcome) \<Rightarrow> (bytes \<Rightarrow> (string, 'a list) outcome) \<Rightarrow> response \<Rightarrow> 'a rows result" where
  "sql_rows V de_maps de r =
    (if \<not> has_data r then Err (Decode NoResultSet)
     else
       and_then (metadata_bytes r) (\<lambda>meta.
       and_then (columns V de_maps meta) (\<lambda>cs.
       and_then (response_data de r) (\<lambda>rs.
       Ok \<lparr>rw_columns = cs, rw_rows = rs\<rparr>))))"

definition sql_exec :: "rmpv \<Rightarrow> (bytes \<Rightarrow> (string, entries) outcome) \<Rightarrow> response \<Rightarrow> exec result" where
  "sql_exec V de_map r =
    and_then (sql_info_bytes r) (\<lambda>bs. case bs of
      None \<Rightarrow> Ok \<lparr>ex_row_count = 0, ex_autoincrement_ids = []\<rparr>
    | Some bs \<Rightarrow>
        and_then (map_err Decode (de_map bs)) (\<lambda>info.
        Ok \<lparr>ex_row_count = unwrap_or (Option.bind (map_of info SQL_INFO_ROW_COUNT) (as_u64 V)) 0,
            ex_autoincrement_ids = unwrap_or (map_option (List.map_filter (as_u64 V))
              (Option.bind (map_of info SQL_INFO_AUTOINCREMENT_IDS) (as_array V))) []\<rparr>))"

section \<open>Running statements\<close>

definition run_text :: "env \<Rightarrow> rmp \<Rightarrow> serde \<Rightarrow> rmpv \<Rightarrow> u64 option \<Rightarrow> string \<Rightarrow> array_like \<Rightarrow> response action" where
  "run_text E R S V stream sql params =
    act_then fresh_sync (\<lambda>sync.
    act_then (act_lift (
      and_then (request_str R KEY_SQL_TEXT sql (request_new R REQ_EXECUTE sync stream)) (\<lambda>q.
      map_ok (request_finish R) (request_array R KEY_SQL_BIND (encode_array S V params) q)))) (\<lambda>packet.
    handle_request E sync packet))"

definition send_prepare :: "env \<Rightarrow> rmp \<Rightarrow> string \<Rightarrow> response action" where
  "send_prepare E R sql =
    act_then fresh_sync (\<lambda>sync.
    act_then (act_lift (map_ok (request_finish R) (request_str R KEY_SQL_TEXT sql (request_new R REQ_PREPARE sync None))))
      (\<lambda>packet. handle_request E sync packet))"

definition statement_id :: "response \<Rightarrow> u64 result" where
  "statement_id r = ok_or (rs_stmt_id r) (Protocol ''PREPARE reply carries no statement id'')"

record statement =
  st_sql :: string
  st_id :: u64
  st_columns :: "column list"
  st_parameters :: "column list"
  st_parameter_count :: u64
  st_released :: bool

definition statement_of :: "rmpv \<Rightarrow> (bytes \<Rightarrow> (string, entries list) outcome) \<Rightarrow> string \<Rightarrow> response \<Rightarrow> statement result" where
  "statement_of V de_maps sql r =
    and_then (metadata_bytes r) (\<lambda>meta.
    and_then (columns V de_maps meta) (\<lambda>cs.
    and_then (bind_metadata_bytes r) (\<lambda>bind_meta.
    and_then (columns V de_maps bind_meta) (\<lambda>ps.
    and_then (statement_id r) (\<lambda>i.
    Ok \<lparr>st_sql = sql, st_id = i, st_columns = cs, st_parameters = ps,
        st_parameter_count = unwrap_or (rs_bind_count r) 0, st_released = False\<rparr>)))))"

definition statement_prepare ::
  "env \<Rightarrow> rmp \<Rightarrow> rmpv \<Rightarrow> (bytes \<Rightarrow> (string, entries list) outcome) \<Rightarrow> string \<Rightarrow> statement action" where
  "statement_prepare E R V de_maps sql =
    act_then (send_prepare E R sql) (\<lambda>r. act_lift (statement_of V de_maps sql r))"

definition statement_send :: "env \<Rightarrow> rmp \<Rightarrow> u64 \<Rightarrow> u64 option \<Rightarrow> bytes \<Rightarrow> response action" where
  "statement_send E R i stream bound =
    act_then fresh_sync (\<lambda>sync.
    act_then (act_lift (
      and_then (request_uint R KEY_STMT_ID i (request_new R REQ_EXECUTE sync stream)) (\<lambda>q.
      map_ok (request_finish R) (request_raw R KEY_SQL_BIND bound q)))) (\<lambda>packet.
    handle_request E sync packet))"

text \<open>
  \<open>run\<close>: the statement is shared, so its new number outlives the call whatever the call returns.
\<close>

definition statement_retry ::
  "env \<Rightarrow> rmp \<Rightarrow> u64 option \<Rightarrow> bytes \<Rightarrow> statement \<Rightarrow> handle \<Rightarrow> response result \<times> statement \<times> handle" where
  "statement_retry E R stream bound st h = (case send_prepare E R (st_sql st) h of
     (Ok fresh, h) \<Rightarrow> (case statement_id fresh of
         Ok i \<Rightarrow> (case statement_send E R i stream bound h of (r, h) \<Rightarrow> (r, st\<lparr>st_id := i\<rparr>, h))
       | Err e \<Rightarrow> (Err e, st, h)
       | Panic \<Rightarrow> (Panic, st, h))
   | (Err e, h) \<Rightarrow> (Err e, st, h)
   | (Panic, h) \<Rightarrow> (Panic, st, h))"

definition statement_run ::
  "env \<Rightarrow> rmp \<Rightarrow> serde \<Rightarrow> rmpv \<Rightarrow> u64 option \<Rightarrow> array_like \<Rightarrow> statement \<Rightarrow> handle \<Rightarrow> response result \<times> statement \<times> handle" where
  "statement_run E R S V stream params st h = (case encode_array S V params of
     Ok bound \<Rightarrow> (case statement_send E R (st_id st) stream bound h of
         (Err (Server err), h) \<Rightarrow>
           if se_code err = WRONG_QUERY_ID then statement_retry E R stream bound st h
           else (Err (Server err), st, h)
       | (other, h) \<Rightarrow> (other, st, h))
   | Err e \<Rightarrow> (Err e, st, h)
   | Panic \<Rightarrow> (Panic, st, h))"

definition statement_query ::
  "env \<Rightarrow> rmp \<Rightarrow> serde \<Rightarrow> rmpv \<Rightarrow> (bytes \<Rightarrow> (string, entries list) outcome) \<Rightarrow> (bytes \<Rightarrow> (string, 'a list) outcome) \<Rightarrow>
    u64 option \<Rightarrow> array_like \<Rightarrow> statement \<Rightarrow> handle \<Rightarrow> 'a rows result \<times> statement \<times> handle" where
  "statement_query E R S V de_maps de stream params st h =
    apfst (\<lambda>r. and_then r (sql_rows V de_maps de)) (statement_run E R S V stream params st h)"

definition statement_execute ::
  "env \<Rightarrow> rmp \<Rightarrow> serde \<Rightarrow> rmpv \<Rightarrow> (bytes \<Rightarrow> (string, entries) outcome) \<Rightarrow>
    u64 option \<Rightarrow> array_like \<Rightarrow> statement \<Rightarrow> handle \<Rightarrow> exec result \<times> statement \<times> handle" where
  "statement_execute E R S V de_map stream params st h =
    apfst (\<lambda>r. and_then r (sql_exec V de_map)) (statement_run E R S V stream params st h)"

definition parameter_count :: "statement \<Rightarrow> nat" where
  "parameter_count st = unat (st_parameter_count st)"

definition unprepare_packet :: "rmp \<Rightarrow> statement \<Rightarrow> u64 \<Rightarrow> bytes result" where
  "unprepare_packet R st sync =
    map_ok (request_finish R) (request_uint R KEY_STMT_ID (st_id st) (request_new R REQ_PREPARE sync None))"

text \<open>Releasing a statement, and dropping it.\<close>

definition statement_unprepare :: "env \<Rightarrow> rmp \<Rightarrow> statement \<Rightarrow> handle \<Rightarrow> unit result \<times> statement \<times> handle" where
  "statement_unprepare E R st h =
    (let st = st\<lparr>st_released := True\<rparr> in
     case act_then fresh_sync (\<lambda>sync. act_then (act_lift (unprepare_packet R st sync)) (\<lambda>packet.
       act_map (\<lambda>_. ()) (handle_request E sync packet))) h of (r, h) \<Rightarrow> (r, st, h))"

definition statement_drop :: "env \<Rightarrow> rmp \<Rightarrow> statement \<Rightarrow> handle \<Rightarrow> handle" where
  "statement_drop E R st h =
    (if st_released st then h
     else (case unprepare_packet R st (sync_of h) of
         Ok packet \<Rightarrow> handle_fire E packet (bump h)
       | _ \<Rightarrow> bump h))"

section \<open>Prepared statements\<close>

lemma run_text_exchange:
  "run_text E R S V stream sql params =
    exchange E R REQ_EXECUTE stream [FStr KEY_SQL_TEXT sql, FArray KEY_SQL_BIND (encode_array S V params)] Ok"
  unfolding run_text_def exchange_reply [symmetric] by (simp add: packet_fields)

lemma send_prepare_exchange:
  "send_prepare E R sql = exchange E R REQ_PREPARE None [FStr KEY_SQL_TEXT sql] Ok"
  unfolding send_prepare_def exchange_reply [symmetric] by (simp add: packet_fields)

lemma statement_send_exchange:
  "statement_send E R i stream bound = exchange E R REQ_EXECUTE stream [FUint KEY_STMT_ID i, FRaw KEY_SQL_BIND bound] Ok"
  unfolding statement_send_def exchange_reply [symmetric] by (simp add: packet_fields)

text \<open>The commands of a prepared statement, and of preparing it.\<close>

definition execute_command :: "rmp \<Rightarrow> u64 \<Rightarrow> u64 option \<Rightarrow> bytes \<Rightarrow> handle \<Rightarrow> command" where
  "execute_command R i stream bound =
    request_command R REQ_EXECUTE stream [(KEY_STMT_ID, write_uint R i), (KEY_SQL_BIND, bound)]"

definition prepare_command :: "rmp \<Rightarrow> string \<Rightarrow> handle \<Rightarrow> command" where
  "prepare_command R sql = request_command R REQ_PREPARE None [(KEY_SQL_TEXT, write_str R sql)]"

lemma statement_send_spec:
  "statement_send E R i stream bound h =
    (reply_of E (execute_command R i stream bound h) h, after_request E (execute_command R i stream bound h) h)"
  by (simp add: statement_send_exchange exchange_spec execute_command_def outcome_fusion Let_def)

lemma send_prepare_spec:
  "send_prepare E R sql h = (reply_of E (prepare_command R sql h) h, after_request E (prepare_command R sql h) h)"
  by (simp add: send_prepare_exchange exchange_spec prepare_command_def outcome_fusion Let_def)

lemma length_after_request: "length (hd_sent (after_request E c h)) \<le> length (hd_sent h) + 1"
  by simp

text \<open>
  C18: a prepared statement survives the session that made it.  Running it sends one request with its
  number and the parameters, on the stream asked for.  When the server no longer knows the number, the statement is prepared
  again from its own text, its number is replaced for all later runs, and the same parameters are sent once
  more on the same stream with the new number; what the server says then is the result, even if it is the same error again.\<close>
theorem statement_prepared_again:
  assumes "encode_array S V params = Ok bound"
    and "c1 = execute_command R (st_id st) stream bound h" "h1 = after_request E c1 h"
    and "reply_of E c1 h = Err (Server err)" "se_code err = WRONG_QUERY_ID"
    and "c2 = prepare_command R (st_sql st) h1" "h2 = after_request E c2 h1"
    and "reply_of E c2 h1 = Ok fresh" "rs_stmt_id fresh = Some i"
    and "c3 = execute_command R i stream bound h2"
  shows "statement_run E R S V stream params st h = (reply_of E c3 h2, st\<lparr>st_id := i\<rparr>, after_request E c3 h2) \<and>
    hd_sent (after_request E c3 h2) = hd_sent h @ [c1, c2] @ (if delivered E c3 h2 then [c3] else [])"
proof -
  have d: "delivered E c1 h" "delivered E c2 h1"
    using reply_delivered [of E c1 h] reply_delivered [of E c2 h1] assms(4,8) by simp_all
  have "statement_run E R S V stream params st h = statement_retry E R stream bound st h1"
    using assms(1-5) by (simp add: statement_run_def statement_send_spec)
  also have "\<dots> = (reply_of E c3 h2, st\<lparr>st_id := i\<rparr>, after_request E c3 h2)"
    using assms(6-10) by (simp add: statement_retry_def send_prepare_spec statement_send_spec statement_id_def)
  finally show ?thesis using d assms(3,7) by simp
qed

definition wrong_query_env :: env where
  "wrong_query_env cs = \<lparr>an_closed = False, an_sent = True, an_elapsed = False, an_received = Some (Ok (
    if length cs = 1 then (empty_response KError 1 None [])\<lparr>rs_error := Some (from_message WRONG_QUERY_ID ''unknown'')\<rparr>
    else if length cs = 2 then (empty_response KOk 2 None [])\<lparr>rs_stmt_id := Some 7\<rparr>
    else empty_response KOk 3 None []))\<rparr>"

definition demo_handle :: handle where
  "demo_handle = \<lparr>hd_counters = counters_new, hd_negotiated = \<lparr>server_version = ''3.8.0'', protocol_version = 10,
     features = set ANNOUNCED\<rparr>, hd_request_timeout = None, hd_sent = []\<rparr>"

definition demo_statement :: statement where
  "demo_statement = \<lparr>st_sql = ''SELECT ?'', st_id = 5, st_columns = [], st_parameters = [], st_parameter_count = 1, st_released = False\<rparr>"

theorem statement_prepared_again_witness:
  "\<exists>c1 c2 c3 h2. statement_run wrong_query_env ref_rmp ref_serde ref_rmpv None (KScalar (Ok [1])) demo_statement demo_handle =
      (reply_of wrong_query_env c3 h2, demo_statement\<lparr>st_id := 7\<rparr>, after_request wrong_query_env c3 h2) \<and>
    hd_sent (after_request wrong_query_env c3 h2) =
      hd_sent demo_handle @ [c1, c2] @ (if delivered wrong_query_env c3 h2 then [c3] else [])"
proof -
  define c1 where "c1 = execute_command ref_rmp (st_id demo_statement) None [0x91, 1] demo_handle"
  define h1 where "h1 = after_request wrong_query_env c1 demo_handle"
  define c2 where "c2 = prepare_command ref_rmp (st_sql demo_statement) h1"
  define h2 where "h2 = after_request wrong_query_env c2 h1"
  have d: "delivered wrong_query_env c h" for c h by (simp add: delivered_def wrong_query_env_def)
  have s: "hd_sent demo_handle = []" "hd_request_timeout demo_handle = None" by (simp_all add: demo_handle_def)
  have r1: "reply_of wrong_query_env c1 demo_handle = Err (Server (from_message WRONG_QUERY_ID ''unknown''))"
    by (simp add: reply_of_def Let_def d s wrong_query_env_def await_reply_def into_error_def unwrap_or_def empty_response_def)
  have r2: "reply_of wrong_query_env c2 h1 = Ok ((empty_response KOk 2 None [])\<lparr>rs_stmt_id := Some 7\<rparr>)"
    by (simp add: reply_of_def Let_def d s h1_def wrong_query_env_def await_reply_def empty_response_def)
  have e: "encode_array ref_serde ref_rmpv (KScalar (Ok [1])) = Ok [0x91, 1]" by code_simp
  show ?thesis
    using statement_prepared_again [OF e c1_def h1_def r1 _ c2_def h2_def r2 _ refl, of 7]
    by (auto simp: from_message_def)
qed

text \<open>
  C19: no server can keep a statement busy: whatever it answers, running a prepared statement sends at most three requests,
  and without the one error that says the statement is unknown it sends at most one and leaves the statement as it was.\<close>
theorem statement_run_bounded:
  "case statement_run E R S V stream params st h of (r, st', h') \<Rightarrow>
    length (hd_sent h') \<le> length (hd_sent h) + 3 \<and> st_sql st' = st_sql st \<and>
    (length (hd_sent h') \<le> length (hd_sent h) + 1 \<and> st' = st \<or>
     (\<exists>err bound. encode_array S V params = Ok bound \<and> se_code err = WRONG_QUERY_ID \<and>
        reply_of E (execute_command R (st_id st) stream bound h) h = Err (Server err)))"
proof (cases "encode_array S V params")
  case (Ok bound)
  let ?c = "execute_command R (st_id st) stream bound h"
  show ?thesis
  proof (cases "\<exists>err. reply_of E ?c h = Err (Server err) \<and> se_code err = WRONG_QUERY_ID")
    case True
    let ?h1 = "after_request E ?c h"
    let ?c2 = "prepare_command R (st_sql st) ?h1"
    let ?h2 = "after_request E ?c2 ?h1"
    have run: "statement_run E R S V stream params st h = statement_retry E R stream bound st ?h1"
      using True Ok by (auto simp: statement_run_def statement_send_spec)
    have "case statement_retry E R stream bound st ?h1 of (r, st', h') \<Rightarrow>
        length (hd_sent h') \<le> length (hd_sent ?h1) + 2 \<and> st_sql st' = st_sql st"
    proof (cases "reply_of E ?c2 ?h1")
      case (Ok fresh)
      then show ?thesis
        by (cases "rs_stmt_id fresh")
          (simp_all add: statement_retry_def send_prepare_spec statement_send_spec statement_id_def)
    qed (simp_all add: statement_retry_def send_prepare_spec)
    then show ?thesis using True Ok run by (auto split: prod.splits if_splits)
  next
    case False
    then have "statement_run E R S V stream params st h = (reply_of E ?c h, st, after_request E ?c h)"
      using Ok by (cases "reply_of E ?c h") (auto simp: statement_run_def statement_send_spec split: error.split)
    then show ?thesis by simp
  qed
qed (simp_all add: statement_run_def)

end
