(* ===== verification/Watcher.thy ===== *)
theory Watcher
  imports Connection_Props
begin

text \<open>
  \<^verbatim>\<open>src/src/watcher.rs\<close> over the contract of \<open>tokio::sync::watch\<close>: a channel holds the latest value and
  counts the values sent; a receiver remembers which one it has seen, \<open>borrow\<close> reads without marking, and
  \<open>changed\<close> returns at once when there is an unseen value, marks it seen, and fails when the sender is gone.
\<close>

record channel =
  ch_value :: "bytes option"
  ch_version :: nat
  ch_open :: bool

definition channel_new :: channel where
  "channel_new = \<lparr>ch_value = None, ch_version = 0, ch_open = True\<rparr>"

definition channel_send :: "bytes \<Rightarrow> channel \<Rightarrow> channel" where
  "channel_send v c = c\<lparr>ch_value := Some v, ch_version := ch_version c + 1\<rparr>"

record watcher =
  wt_id :: u64
  wt_key :: string
  wt_seen :: nat

text \<open>\<open>None\<close> is waiting on.\<close>

definition receiver_changed :: "channel \<Rightarrow> nat \<Rightarrow> (unit result \<times> nat) option" where
  "receiver_changed c seen =
    (if seen \<noteq> ch_version c then Some (Ok (), ch_version c)
     else if \<not> ch_open c then Some (Err Closed, seen)
     else None)"

text \<open>
  \<open>Watcher::subscribe\<close>: \<open>early\<close> is the channel when the value is looked at, \<open>late\<close> the channel when it
  waits for the first notification.
\<close>

definition subscribe :: "unit result \<Rightarrow> u64 \<Rightarrow> string \<Rightarrow> channel \<Rightarrow> channel \<Rightarrow> watcher result option" where
  "subscribe registered i key early late = (case registered of
     Ok _ \<Rightarrow>
       if ch_value early = None
       then map_option (\<lambda>(r, seen). map_ok (\<lambda>_. \<lparr>wt_id = i, wt_key = key, wt_seen = seen\<rparr>) r) (receiver_changed late 0)
       else Some (Ok \<lparr>wt_id = i, wt_key = key, wt_seen = 0\<rparr>)
   | Err e \<Rightarrow> Some (Err e)
   | Panic \<Rightarrow> Some Panic)"

definition watcher_get :: "(bytes \<Rightarrow> (string, 'a) outcome) \<Rightarrow> channel \<Rightarrow> 'a result" where
  "watcher_get de c = map_err Decode (de (unwrap_or (ch_value c) [0xc0]))"

definition watcher_changed :: "channel \<Rightarrow> watcher \<Rightarrow> (unit result \<times> watcher) option" where
  "watcher_changed c w = map_option (\<lambda>(r, seen). (r, w\<lparr>wt_seen := seen\<rparr>)) (receiver_changed c (wt_seen w))"

definition watcher_drop :: "watcher \<Rightarrow> command" where
  "watcher_drop w = CUnwatch (wt_id w) (wt_key w)"

section \<open>Properties\<close>

lemma fold_channel_send:
  "vs \<noteq> [] \<Longrightarrow> fold channel_send vs c = c\<lparr>ch_value := Some (last vs), ch_version := ch_version c + length vs\<rparr>"
proof (induction vs arbitrary: c)
  case (Cons v vs)
  then show ?case by (cases "vs = []") (simp_all add: channel_send_def)
qed simp

text \<open>
  A watcher sees the latest value and misses no change: after any values have been published, \<open>get\<close> decodes the
  last of them, and does so again until the next; \<open>changed\<close> returns at once, having coalesced them, whether or
  not they were read, and the time after that it waits for the next value or the end of the client.\<close>
theorem watcher_sees_latest:
  assumes "vs \<noteq> []" "wt_seen w = ch_version c"
  shows "watcher_get de (fold channel_send vs c) = map_err Decode (de (last vs)) \<and>
    watcher_changed (fold channel_send vs c) w = Some (Ok (), w\<lparr>wt_seen := ch_version c + length vs\<rparr>) \<and>
    watcher_changed (fold channel_send vs c) (w\<lparr>wt_seen := ch_version c + length vs\<rparr>) =
      (if ch_open c then None else Some (Err Closed, w\<lparr>wt_seen := ch_version c + length vs\<rparr>))"
  using assms
  by (simp add: fold_channel_send watcher_get_def watcher_changed_def receiver_changed_def unwrap_or_def)

theorem watcher_sees_latest_witness:
  "watcher_get (\<lambda>bs. Ok bs) (fold channel_send [[1], [2]] channel_new) = map_err Decode (Ok (last [[1], [2]])) \<and>
    watcher_changed (fold channel_send [[1], [2]] channel_new) \<lparr>wt_id = 1, wt_key = ''k'', wt_seen = 0\<rparr> =
      Some (Ok (), \<lparr>wt_id = 1, wt_key = ''k'', wt_seen = 0\<rparr>\<lparr>wt_seen := ch_version channel_new + length [[1], [2 :: u8]]\<rparr>) \<and>
    watcher_changed (fold channel_send [[1], [2]] channel_new)
      (\<lparr>wt_id = 1, wt_key = ''k'', wt_seen = 0\<rparr>\<lparr>wt_seen := ch_version channel_new + length [[1], [2 :: u8]]\<rparr>) =
      (if ch_open channel_new then None
       else Some (Err Closed, \<lparr>wt_id = 1, wt_key = ''k'', wt_seen = 0\<rparr>\<lparr>wt_seen := ch_version channel_new + length [[1], [2 :: u8]]\<rparr>))"
  by (rule watcher_sees_latest) (simp_all add: channel_new_def)

text \<open>
  Reading a value does not mark it seen: after \<open>get\<close> has returned a new value, \<open>changed\<close> still returns at once for
  that same value.\<close>

lemma get_leaves_value_unseen:
  assumes "wt_seen w = ch_version c"
  shows "watcher_get de (channel_send v c) = map_err Decode (de v) \<and>
    watcher_changed (channel_send v c) w = Some (Ok (), w\<lparr>wt_seen := ch_version c + 1\<rparr>)"
  using assms by (simp add: watcher_get_def watcher_changed_def receiver_changed_def channel_send_def unwrap_or_def)

text \<open>
  A second watcher of a key is told nothing.  The task sends the server no packet for it and publishes no value, so
  its \<open>subscribe\<close> does not return until the key is broadcast again.\<close>
theorem second_watcher_waits:
  assumes "map_of (t_watchers t) key = Some list"
  shows "\<exists>t'. handle_command R sent (CWatch i key s) t = (t', Ok ()) \<and> t_log t' = t_log t \<and>
    map_of (t_watchers t') key = Some (list @ [(i, s)]) \<and> subscribe (Ok ()) i key channel_new channel_new = None"
  using assms
  by (simp add: handle_command_def unwrap_or_def subscribe_def channel_new_def receiver_changed_def update_conv')

theorem second_watcher_waits_witness:
  "\<exists>t'. handle_command ref_rmp None (CWatch 3 ''k'' 7) demo_watched = (t', Ok ()) \<and> t_log t' = t_log demo_watched \<and>
    map_of (t_watchers t') ''k'' = Some ([(1, 5), (2, 6)] @ [(3, 7)]) \<and> subscribe (Ok ()) 3 ''k'' channel_new channel_new = None"
  by (rule second_watcher_waits) (simp add: demo_watched_def)

end
