(* ===== verification/Client.thy ===== *)
theory Client
  imports Sql Watcher
begin

text \<open>
  \<^verbatim>\<open>src/src/client.rs\<close>: the client, its spaces and indexes, selects, streams and transactions.  A client is its
  handle.  The parameter \<open>de\<close> of an operation is \<open>rmp_serde::from_slice\<close> at the type the caller asks for; \<open>E\<close> answers its
  requests.
\<close>

section \<open>Client\<close>

definition client_with_options :: "connect_options \<Rightarrow> negotiated result \<Rightarrow> handle result" where
  "client_with_options options shaken =
    map_ok (with_request_timeout (request_timeout options)) (handle_connect shaken)"

definition client_connect :: "(connect_options \<Rightarrow> negotiated result) \<Rightarrow> string \<Rightarrow> handle result" where
  "client_connect shake url = and_then (options_parse url) (\<lambda>options. client_with_options options (shake options))"

definition client_call ::
  "env \<Rightarrow> rmp \<Rightarrow> serde \<Rightarrow> rmpv \<Rightarrow> (bytes \<Rightarrow> (string, 'r) outcome) \<Rightarrow> string \<Rightarrow> array_like \<Rightarrow> 'r action" where
  "client_call E R S V de name args =
    act_then fresh_sync (\<lambda>sync.
    act_then (act_lift (
      and_then (request_str R KEY_FUNCTION_NAME name (request_new R REQ_CALL sync None)) (\<lambda>q.
      map_ok (request_finish R) (request_array R KEY_TUPLE (encode_array S V args) q)))) (\<lambda>packet.
    act_then (handle_request E sync packet) (\<lambda>r. act_lift (response_data de r))))"

definition client_eval ::
  "env \<Rightarrow> rmp \<Rightarrow> serde \<Rightarrow> rmpv \<Rightarrow> (bytes \<Rightarrow> (string, 'r) outcome) \<Rightarrow> string \<Rightarrow> array_like \<Rightarrow> 'r action" where
  "client_eval E R S V de expr args =
    act_then fresh_sync (\<lambda>sync.
    act_then (act_lift (
      and_then (request_str R KEY_EXPR expr (request_new R REQ_EVAL sync None)) (\<lambda>q.
      map_ok (request_finish R) (request_array R KEY_TUPLE (encode_array S V args) q)))) (\<lambda>packet.
    act_then (handle_request E sync packet) (\<lambda>r. act_lift (response_data de r))))"

text \<open>\<open>PushCall::start\<close>.\<close>

definition push_call_start :: "env \<Rightarrow> u64 \<Rightarrow> bytes \<Rightarrow> push_stream action" where
  "push_call_start E sync packet = handle_request_with_pushes E sync packet"

definition call_with_pushes :: "env \<Rightarrow> rmp \<Rightarrow> serde \<Rightarrow> rmpv \<Rightarrow> string \<Rightarrow> array_like \<Rightarrow> push_stream action" where
  "call_with_pushes E R S V name args =
    act_then fresh_sync (\<lambda>sync.
    act_then (act_lift (
      and_then (request_str R KEY_FUNCTION_NAME name (request_new R REQ_CALL sync None)) (\<lambda>q.
      map_ok (request_finish R) (request_array R KEY_TUPLE (encode_array S V args) q)))) (\<lambda>packet.
    push_call_start E sync packet))"

definition eval_with_pushes :: "env \<Rightarrow> rmp \<Rightarrow> serde \<Rightarrow> rmpv \<Rightarrow> string \<Rightarrow> array_like \<Rightarrow> push_stream action" where
  "eval_with_pushes E R S V expr args =
    act_then fresh_sync (\<lambda>sync.
    act_then (act_lift (
      and_then (request_str R KEY_EXPR expr (request_new R REQ_EVAL sync None)) (\<lambda>q.
      map_ok (request_finish R) (request_array R KEY_TUPLE (encode_array S V args) q)))) (\<lambda>packet.
    push_call_start E sync packet))"

text \<open>\<open>received\<close> is the next chunk, \<open>None\<close> once the stream has ended; \<open>de\<close> reads a tuple of one element.\<close>

definition next_push :: "(bytes \<Rightarrow> (string, 'p) outcome) \<Rightarrow> bytes option \<Rightarrow> 'p option result" where
  "next_push de received = (case received of
     Some bs \<Rightarrow> map_ok Some (map_err Decode (de bs))
   | None \<Rightarrow> Ok None)"

definition push_call_finish :: "(bytes \<Rightarrow> (string, 'r) outcome) \<Rightarrow> push_stream \<Rightarrow> 'r result" where
  "push_call_finish de p = and_then (stream_finish p) (response_data de)"

definition client_query ::
  "env \<Rightarrow> rmp \<Rightarrow> serde \<Rightarrow> rmpv \<Rightarrow> (bytes \<Rightarrow> (string, entries list) outcome) \<Rightarrow> (bytes \<Rightarrow> (string, 'a list) outcome) \<Rightarrow>
    string \<Rightarrow> array_like \<Rightarrow> 'a rows action" where
  "client_query E R S V de_maps de sql params =
    act_then (run_text E R S V None sql params) (\<lambda>r. act_lift (sql_rows V de_maps de r))"

definition client_execute ::
  "env \<Rightarrow> rmp \<Rightarrow> serde \<Rightarrow> rmpv \<Rightarrow> (bytes \<Rightarrow> (string, entries) outcome) \<Rightarrow> string \<Rightarrow> array_like \<Rightarrow> exec action" where
  "client_execute E R S V de_map sql params =
    act_then (run_text E R S V None sql params) (\<lambda>r. act_lift (sql_exec V de_map r))"

definition client_prepare :: "env \<Rightarrow> rmp \<Rightarrow> rmpv \<Rightarrow> (bytes \<Rightarrow> (string, entries list) outcome) \<Rightarrow> string \<Rightarrow> statement action" where
  "client_prepare E R V de_maps sql = statement_prepare E R V de_maps sql"

definition client_ping :: "env \<Rightarrow> rmp \<Rightarrow> unit action" where
  "client_ping E R =
    act_then fresh_sync (\<lambda>sync.
    act_then (act_lift (Ok (request_finish R (request_new R REQ_PING sync None)))) (\<lambda>packet.
    act_map (\<lambda>_. ()) (handle_request E sync packet)))"

text \<open>\<open>early\<close> and \<open>late\<close> are the watch channel when it is looked at and when it is waited for; see \<open>Watcher\<close>.\<close>

definition client_watch :: "env \<Rightarrow> string \<Rightarrow> channel \<Rightarrow> channel \<Rightarrow> handle \<Rightarrow> watcher result option \<times> handle" where
  "client_watch E key early late h =
    (if \<not> handle_supports Watchers h
     then (Some (Err (Unsupported ''watchers (server is older than 2.10)'')), h)
     else (case handle_watch E key h of
         (Ok i, h) \<Rightarrow> (subscribe (Ok ()) i key early late, h)
       | (Err e, h) \<Rightarrow> (subscribe (Err e) 0 key early late, h)
       | (Panic, h) \<Rightarrow> (Some Panic, h)))"

definition watch_once :: "env \<Rightarrow> rmp \<Rightarrow> (bytes \<Rightarrow> (string, 'r) outcome) \<Rightarrow> string \<Rightarrow> 'r action" where
  "watch_once E R de key h =
    (if \<not> handle_supports WatchOnce h
     then (Err (Unsupported ''watch_once (server is older than 3.0)''), h)
     else act_then fresh_sync (\<lambda>sync.
       act_then (act_lift (map_ok (request_finish R) (request_str R KEY_EVENT_KEY key (request_new R REQ_WATCH_ONCE sync None))))
         (\<lambda>packet. act_then (handle_request E sync packet) (\<lambda>r. act_lift (response_data de r)))) h)"

section \<open>Spaces\<close>

definition space_write :: "env \<Rightarrow> rmp \<Rightarrow> string \<Rightarrow> u64 \<Rightarrow> serialized \<Rightarrow> unit action" where
  "space_write E R space ty tuple =
    act_then fresh_sync (\<lambda>sync.
    act_then (act_lift (
      and_then (request_str R KEY_SPACE_NAME space (request_new R ty sync None)) (\<lambda>q.
      map_ok (request_finish R) (request_serialized R KEY_TUPLE tuple True q)))) (\<lambda>packet.
    act_map (\<lambda>_. ()) (handle_request E sync packet)))"

definition space_insert :: "env \<Rightarrow> rmp \<Rightarrow> string \<Rightarrow> serialized \<Rightarrow> unit action" where
  "space_insert E R space tuple = space_write E R space REQ_INSERT tuple"

definition space_replace :: "env \<Rightarrow> rmp \<Rightarrow> string \<Rightarrow> serialized \<Rightarrow> unit action" where
  "space_replace E R space tuple = space_write E R space REQ_REPLACE tuple"

definition insert_arrow :: "env \<Rightarrow> rmp \<Rightarrow> string \<Rightarrow> bytes \<Rightarrow> unit action" where
  "insert_arrow E R space ipc h =
    (if \<not> handle_supports InsertArrow h
     then (Err (Unsupported ''Arrow insert (server is older than 3.3)''), h)
     else act_then fresh_sync (\<lambda>sync.
       act_then (act_lift (
         and_then (request_str R KEY_SPACE_NAME space (request_new R REQ_INSERT_ARROW sync None)) (\<lambda>q.
         map_ok (request_finish R) (request_ext R KEY_ARROW EXT_ARROW ipc q)))) (\<lambda>packet.
       act_map (\<lambda>_. ()) (handle_request E sync packet))) h)"

text \<open>\<open>rows.into_iter().next()\<close>.\<close>

definition first_row :: "'t list \<Rightarrow> 't option" where
  "first_row rows = (case rows of [] \<Rightarrow> None | x # _ \<Rightarrow> Some x)"

definition space_delete ::
  "env \<Rightarrow> rmp \<Rightarrow> serde \<Rightarrow> rmpv \<Rightarrow> (bytes \<Rightarrow> (string, 't list) outcome) \<Rightarrow> string \<Rightarrow> array_like \<Rightarrow> 't option action" where
  "space_delete E R S V de space key =
    act_then fresh_sync (\<lambda>sync.
    act_then (act_lift (
      and_then (request_str R KEY_SPACE_NAME space (request_new R REQ_DELETE sync None)) (\<lambda>q.
      and_then (request_uint R KEY_INDEX_ID 0 q) (\<lambda>q.
      map_ok (request_finish R) (request_array R KEY_KEY (encode_array S V key) q))))) (\<lambda>packet.
    act_then (handle_request E sync packet) (\<lambda>r. act_lift (map_ok first_row (response_data de r)))))"

definition space_update ::
  "env \<Rightarrow> rmp \<Rightarrow> serde \<Rightarrow> rmpv \<Rightarrow> (bytes \<Rightarrow> (string, 't list) outcome) \<Rightarrow> string \<Rightarrow> array_like \<Rightarrow> update \<Rightarrow> 't option action" where
  "space_update E R S V de space key ops =
    act_then fresh_sync (\<lambda>sync.
    act_then (act_lift (
      and_then (request_str R KEY_SPACE_NAME space (request_new R REQ_UPDATE sync None)) (\<lambda>q.
      and_then (request_uint R KEY_INDEX_ID 0 q) (\<lambda>q.
      and_then (request_uint R KEY_INDEX_BASE 1 q) (\<lambda>q.
      and_then (request_array R KEY_KEY (encode_array S V key) q) (\<lambda>q.
      and_then (into_ops ops) (\<lambda>ops.
      map_ok (request_finish R) (request_raw_array R KEY_TUPLE ops q)))))))) (\<lambda>packet.
    act_then (handle_request E sync packet) (\<lambda>r. act_lift (map_ok first_row (response_data de r)))))"

definition space_upsert :: "env \<Rightarrow> rmp \<Rightarrow> string \<Rightarrow> serialized \<Rightarrow> update \<Rightarrow> unit action" where
  "space_upsert E R space tuple ops =
    act_then fresh_sync (\<lambda>sync.
    act_then (act_lift (
      and_then (request_str R KEY_SPACE_NAME space (request_new R REQ_UPSERT sync None)) (\<lambda>q.
      and_then (request_uint R KEY_INDEX_BASE 1 q) (\<lambda>q.
      and_then (request_serialized R KEY_TUPLE tuple True q) (\<lambda>q.
      and_then (into_ops ops) (\<lambda>ops.
      map_ok (request_finish R) (request_raw_array R KEY_OPS ops q))))))) (\<lambda>packet.
    act_map (\<lambda>_. ()) (handle_request E sync packet)))"

section \<open>Selects\<close>

datatype index_ref = IdxId u64 | IdxName string

datatype after = AfterPosition string | AfterTuple "bytes result"

record select =
  sl_space :: string
  sl_index :: index_ref
  sl_key :: "bytes result"
  sl_iter :: iter
  sl_limit :: "u64 option"
  sl_offset :: u64
  sl_after :: "after option"
  sl_fetch_position :: bool

definition select_new :: "serde \<Rightarrow> rmpv \<Rightarrow> string \<Rightarrow> index_ref \<Rightarrow> array_like \<Rightarrow> select" where
  "select_new S V space index key =
    \<lparr>sl_space = space, sl_index = index, sl_key = encode_array S V key, sl_iter = IterEq, sl_limit = None, sl_offset = 0,
     sl_after = None, sl_fetch_position = False\<rparr>"

definition space_select :: "serde \<Rightarrow> rmpv \<Rightarrow> string \<Rightarrow> array_like \<Rightarrow> select" where
  "space_select S V space key = select_new S V space (IdxId 0) key"

definition index_select :: "serde \<Rightarrow> rmpv \<Rightarrow> string \<Rightarrow> string \<Rightarrow> array_like \<Rightarrow> select" where
  "index_select S V space index key = select_new S V space (IdxName index) key"

definition select_iterator :: "iter \<Rightarrow> select \<Rightarrow> select" where
  "select_iterator it s = s\<lparr>sl_iter := it\<rparr>"

definition select_limit :: "u64 \<Rightarrow> select \<Rightarrow> select" where
  "select_limit n s = s\<lparr>sl_limit := Some n\<rparr>"

definition select_offset :: "u64 \<Rightarrow> select \<Rightarrow> select" where
  "select_offset n s = s\<lparr>sl_offset := n\<rparr>"

definition select_after :: "string \<Rightarrow> select \<Rightarrow> select" where
  "select_after position s = s\<lparr>sl_after := Some (AfterPosition position)\<rparr>"

definition select_after_tuple :: "serialized \<Rightarrow> select \<Rightarrow> select" where
  "select_after_tuple tuple s = s\<lparr>sl_after := Some (AfterTuple (to_msgpack_array tuple))\<rparr>"

definition select_page :: "select \<Rightarrow> select" where
  "select_page s = s\<lparr>sl_fetch_position := True\<rparr>"

text \<open>\<open>build\<close>, after the key: the sync is taken only for a key that could be encoded.\<close>

definition select_request :: "rmp \<Rightarrow> select \<Rightarrow> bytes \<Rightarrow> u64 \<Rightarrow> bytes result" where
  "select_request R s key sync =
    and_then (case sl_index s of
        IdxId i \<Rightarrow> and_then (request_str R KEY_SPACE_NAME (sl_space s) (request_new R REQ_SELECT sync None))
          (request_uint R KEY_INDEX_ID i)
      | IdxName name \<Rightarrow> and_then (request_str R KEY_SPACE_NAME (sl_space s) (request_new R REQ_SELECT sync None))
          (request_str R KEY_INDEX_NAME name)) (\<lambda>q.
    and_then (request_uint R KEY_ITERATOR (iter_code (sl_iter s)) q) (\<lambda>q.
    and_then (if 0 < sl_offset s then request_uint R KEY_OFFSET (sl_offset s) q else Ok q) (\<lambda>q.
    and_then (request_uint R KEY_LIMIT (unwrap_or (sl_limit s) 0xffffffff) q) (\<lambda>q.
    and_then (request_raw R KEY_KEY key q) (\<lambda>q.
    and_then (case sl_after s of
        Some (AfterPosition position) \<Rightarrow> request_str R KEY_AFTER_POSITION position q
      | Some (AfterTuple tuple) \<Rightarrow> and_then tuple (\<lambda>t. request_raw R KEY_AFTER_TUPLE t q)
      | None \<Rightarrow> Ok q) (\<lambda>q.
    and_then (if sl_fetch_position s then request_bool R KEY_FETCH_POSITION True q else Ok q) (\<lambda>q.
    Ok (request_finish R q))))))))"

definition select_build :: "rmp \<Rightarrow> select \<Rightarrow> (u64 \<times> bytes) action" where
  "select_build R s =
    act_then (act_lift (sl_key s)) (\<lambda>key.
    act_then fresh_sync (\<lambda>sync.
    act_map (Pair sync) (act_lift (select_request R s key sync))))"

definition select_run :: "env \<Rightarrow> rmp \<Rightarrow> (bytes \<Rightarrow> (string, 't list) outcome) \<Rightarrow> select \<Rightarrow> 't list action" where
  "select_run E R de s =
    act_then (select_build R s) (\<lambda>(sync, packet).
    act_then (handle_request E sync packet) (\<lambda>r. act_lift (response_data de r)))"

record 't page =
  pg_rows :: "'t list"
  pg_position :: "string option"

definition paged_run :: "env \<Rightarrow> rmp \<Rightarrow> (bytes \<Rightarrow> (string, 't list) outcome) \<Rightarrow> select \<Rightarrow> 't page action" where
  "paged_run E R de s =
    act_then (select_build R s) (\<lambda>(sync, packet).
    act_then (handle_request E sync packet) (\<lambda>r.
    act_lift (map_ok (\<lambda>rows. \<lparr>pg_rows = rows, pg_position = rs_position r\<rparr>) (response_data de r))))"

definition space_get ::
  "env \<Rightarrow> rmp \<Rightarrow> serde \<Rightarrow> rmpv \<Rightarrow> (bytes \<Rightarrow> (string, 't list) outcome) \<Rightarrow> string \<Rightarrow> array_like \<Rightarrow> 't option action" where
  "space_get E R S V de space key =
    act_map first_row (select_run E R de (select_limit 1 (select_iterator IterEq (space_select S V space key))))"

section \<open>About the connection\<close>

definition client_close :: "env \<Rightarrow> handle \<Rightarrow> handle" where
  "client_close E = handle_close E"

definition info_version :: "handle \<Rightarrow> string" where
  "info_version h = server_version (hd_negotiated h)"

definition info_protocol_version :: "handle \<Rightarrow> u64" where
  "info_protocol_version h = protocol_version (hd_negotiated h)"

definition info_supports :: "feature \<Rightarrow> handle \<Rightarrow> bool" where
  "info_supports f h = supports (hd_negotiated h) f"

end
