(* ===== verification/Client_Requests.thy ===== *)
theory Client_Requests
  imports Client
begin

text \<open>
  What the operations of a client put on the wire.  Each operation is given by the request type and the
  fields the protocol documents for it; the lemmas show that the chains of builder calls in the code are exactly these,
  so that an operation is one exchange, or nothing when it cannot be encoded or is not supported.
\<close>

section \<open>From chains of calls to lists of fields\<close>

abbreviation built :: "rmp \<Rightarrow> u64 \<Rightarrow> u64 \<Rightarrow> u64 option \<Rightarrow> field list \<Rightarrow> request result" where
  "built R ty sync stream fs \<equiv> request_build R fs (request_new R ty sync stream)"

lemma request_build_Nil [simp]: "request_build R [] = Ok"
  by (rule HOL.ext) simp

lemma request_build_append: "request_build R (fs @ gs) q = and_then (request_build R fs q) (request_build R gs)"
proof (induction fs arbitrary: q)
  case (Cons f fs)
  then have "request_build R (fs @ gs) = (\<lambda>q. and_then (request_build R fs q) (request_build R gs))" by (rule HOL.ext)
  then show ?case by (simp add: and_then_assoc)
qed simp

lemma built_new: "and_then (apply_field R f (request_new R ty sync stream)) k = and_then (built R ty sync stream [f]) k"
  by (simp add: outcome_fusion)

lemma built_step:
  "and_then (built R ty sync stream fs) (\<lambda>q. and_then (apply_field R f q) k) = and_then (built R ty sync stream (fs @ [f])) k"
  by (simp add: request_build_append and_then_assoc outcome_fusion)

lemma built_optional:
  "and_then (built R ty sync stream fs) (\<lambda>q. and_then (if c then apply_field R f q else Ok q) k) =
    and_then (built R ty sync stream (fs @ (if c then [f] else []))) k"
  using built_step [of R fs ty sync stream f k] by (cases c) simp_all

lemma built_last:
  "and_then (built R ty sync stream fs) (\<lambda>q. map_ok (request_finish R) (apply_field R f q)) =
    request_packet R ty sync stream (fs @ [f])"
  by (simp add: request_packet_def request_build_append map_ok_and_then outcome_fusion)

lemma built_finish: "and_then (built R ty sync stream fs) (\<lambda>q. Ok (request_finish R q)) = request_packet R ty sync stream fs"
  by (simp add: request_packet_def outcome_fusion)

text \<open>
  A value that is only encoded when its turn comes.  The code encodes it before it writes the key, the
  builder after; writing a key cannot fail for a request of so few fields.
\<close>

lemma built_entries:
  assumes "built R ty sync stream fs = Ok q" "length fs < 2 ^ 32 - 1"
  shows "rq_entries q \<noteq> - 1"
proof -
  have "rq_entries q = of_nat (length fs) + rq_entries q0" if "request_build R fs q0 = Ok q" for q0
    using that
  proof (induction fs arbitrary: q0)
    case (Cons f fs)
    then obtain q1 where q1: "apply_field R f q0 = Ok q1" "request_build R fs q1 = Ok q" by (auto simp: and_then_eq_Ok)
    have "rq_entries q1 = rq_entries q0 + 1"
      using q1(1) by (cases f) (auto simp: request_uint_def request_str_def request_bool_def request_f64_def request_raw_def
        request_raw_array_def request_array_def request_ext_def request_serialized_def request_key_def push_body_def
        map_ok_eq_Ok and_then_eq_Ok Let_def split: if_splits)
    then show ?case using Cons.IH [OF q1(2)] by simp
  qed simp
  from this [OF assms(1)] have "rq_entries q = of_nat (length fs)" by (simp add: request_new_def)
  then show ?thesis using assms(2) entry_of_nat_max [of "length fs"] by simp
qed

lemma built_late_raw:
  assumes "length fs < 2 ^ 32 - 1"
  shows "and_then (built R ty sync stream fs) (\<lambda>q. and_then (and_then enc (\<lambda>bs. request_raw R k bs q)) K) =
    and_then (built R ty sync stream (fs @ [FArray k enc])) K"
proof (cases "built R ty sync stream fs")
  case (Ok q)
  then have "rq_entries q \<noteq> - 1" using built_entries [OF _ assms] by blast
  then show ?thesis
    using Ok by (cases enc) (simp_all add: request_build_append request_raw_def request_array_def request_key_def)
qed (simp_all add: request_build_append)

text \<open>The operations of an update as the value of one field.\<close>

definition ops_bytes :: "rmp \<Rightarrow> update \<Rightarrow> bytes result" where
  "ops_bytes R u = and_then (into_ops u) (\<lambda>ops.
    if length ops < 2 ^ 32 then Ok (write_array_len R (of_nat (length ops)) @ concat ops) else Panic)"

lemma built_late_ops:
  assumes "length fs < 2 ^ 32 - 1"
  shows "and_then (built R ty sync stream fs) (\<lambda>q. and_then (into_ops u) (\<lambda>ops.
      map_ok (request_finish R) (request_raw_array R k ops q))) =
    request_packet R ty sync stream (fs @ [FArray k (ops_bytes R u)])"
proof (cases "built R ty sync stream fs")
  case (Ok q)
  then have "rq_entries q \<noteq> - 1" using built_entries [OF _ assms] by blast
  then show ?thesis
    using Ok by (cases "into_ops u")
      (simp_all add: request_packet_def request_build_append request_raw_array_def request_array_def request_key_def ops_bytes_def
        push_body_append)
qed (simp_all add: request_packet_def request_build_append)

lemmas built_steps = built_new [where f = "FStr _ _", simplified apply_field.simps]
  built_step [where f = "FStr _ _", simplified apply_field.simps]
  built_step [where f = "FUint _ _", simplified apply_field.simps]
  built_step [where f = "FRaw _ _", simplified apply_field.simps]
  built_step [where f = "FArray _ _", simplified apply_field.simps]
  built_step [where f = "FSerialized _ _ _", simplified apply_field.simps]
  built_optional [where f = "FUint _ _", simplified apply_field.simps]
  built_optional [where f = "FBool _ _", simplified apply_field.simps]
  built_optional [where f = "FF64 _ _", simplified apply_field.simps]
  built_last [where f = "FArray _ _", simplified apply_field.simps]
  built_last [where f = "FSerialized _ _ _", simplified apply_field.simps]
  built_last [where f = "FExt _ _ _", simplified apply_field.simps]
  built_finish append_Cons append_Nil

section \<open>Every operation as an exchange\<close>

lemma client_call_exchange: "client_call E R S V de name args =
    exchange E R REQ_CALL None [FStr KEY_FUNCTION_NAME name, FArray KEY_TUPLE (encode_array S V args)] (response_data de)"
  unfolding client_call_def built_steps exchange_read ..

lemma client_eval_exchange: "client_eval E R S V de expr args =
    exchange E R REQ_EVAL None [FStr KEY_EXPR expr, FArray KEY_TUPLE (encode_array S V args)] (response_data de)"
  unfolding client_eval_def built_steps exchange_read ..

lemma client_ping_exchange: "client_ping E R = exchange E R REQ_PING None [] (\<lambda>_. Ok ())"
  unfolding client_ping_def exchange_drop [symmetric] by (simp add: request_packet_def)

lemma watch_once_exchange: "watch_once E R de key h =
    (if \<not> handle_supports WatchOnce h then (Err (Unsupported ''watch_once (server is older than 3.0)''), h)
     else exchange E R REQ_WATCH_ONCE None [FStr KEY_EVENT_KEY key] (response_data de) h)"
  unfolding watch_once_def exchange_read [symmetric] by (simp add: packet_fields)

lemma space_write_exchange: "space_write E R space ty tuple =
    exchange E R ty None [FStr KEY_SPACE_NAME space, FSerialized KEY_TUPLE tuple True] (\<lambda>_. Ok ())"
  unfolding space_write_def built_steps exchange_drop ..

lemma insert_arrow_exchange: "insert_arrow E R space ipc h =
    (if \<not> handle_supports InsertArrow h then (Err (Unsupported ''Arrow insert (server is older than 3.3)''), h)
     else exchange E R REQ_INSERT_ARROW None [FStr KEY_SPACE_NAME space, FExt KEY_ARROW EXT_ARROW ipc] (\<lambda>_. Ok ()) h)"
  unfolding insert_arrow_def built_steps exchange_drop ..

lemma space_delete_exchange: "space_delete E R S V de space key =
    exchange E R REQ_DELETE None
      [FStr KEY_SPACE_NAME space, FUint KEY_INDEX_ID 0, FArray KEY_KEY (encode_array S V key)]
      (\<lambda>r. map_ok first_row (response_data de r))"
  unfolding space_delete_def built_steps exchange_read ..

lemma space_update_exchange: "space_update E R S V de space key ops =
    exchange E R REQ_UPDATE None
      [FStr KEY_SPACE_NAME space, FUint KEY_INDEX_ID 0, FUint KEY_INDEX_BASE 1, FArray KEY_KEY (encode_array S V key),
       FArray KEY_TUPLE (ops_bytes R ops)]
      (\<lambda>r. map_ok first_row (response_data de r))"
proof -
  have l: "length [FStr KEY_SPACE_NAME space, FUint KEY_INDEX_ID 0, FUint KEY_INDEX_BASE 1, FArray KEY_KEY (encode_array S V key)]
    < 2 ^ 32 - 1" by simp
  show ?thesis unfolding space_update_def built_steps built_late_ops [OF l] exchange_read ..
qed

lemma space_upsert_exchange: "space_upsert E R space tuple ops =
    exchange E R REQ_UPSERT None
      [FStr KEY_SPACE_NAME space, FUint KEY_INDEX_BASE 1, FSerialized KEY_TUPLE tuple True, FArray KEY_OPS (ops_bytes R ops)]
      (\<lambda>_. Ok ())"
proof -
  have l: "length [FStr KEY_SPACE_NAME space, FUint KEY_INDEX_BASE 1, FSerialized KEY_TUPLE tuple True] < 2 ^ 32 - 1" by simp
  show ?thesis unfolding space_upsert_def built_steps built_late_ops [OF l] exchange_drop ..
qed

text \<open>
  The fields of a select: the space and the index, how to walk it, the offset only when there is one, the
  limit or the largest count, the key, where to resume, and whether to say where the page ended.
\<close>

definition select_fields :: "select \<Rightarrow> bytes \<Rightarrow> field list" where
  "select_fields s key =
    [FStr KEY_SPACE_NAME (sl_space s),
     case sl_index s of IdxId i \<Rightarrow> FUint KEY_INDEX_ID i | IdxName name \<Rightarrow> FStr KEY_INDEX_NAME name,
     FUint KEY_ITERATOR (iter_code (sl_iter s))] @
    (if 0 < sl_offset s then [FUint KEY_OFFSET (sl_offset s)] else []) @
    [FUint KEY_LIMIT (unwrap_or (sl_limit s) 0xffffffff), FRaw KEY_KEY key] @
    (case sl_after s of
       Some (AfterPosition position) \<Rightarrow> [FStr KEY_AFTER_POSITION position]
     | Some (AfterTuple tuple) \<Rightarrow> [FArray KEY_AFTER_TUPLE tuple]
     | None \<Rightarrow> []) @
    (if sl_fetch_position s then [FBool KEY_FETCH_POSITION True] else [])"

lemma select_fields_length: "length (select_fields s key) \<le> 8"
  by (simp add: select_fields_def split: option.split after.split)

lemma built_after:
  assumes "length fs < 2 ^ 32 - 1"
  shows "and_then (built R ty sync stream fs) (\<lambda>q. and_then (case a of
        Some (AfterPosition position) \<Rightarrow> request_str R KEY_AFTER_POSITION position q
      | Some (AfterTuple tuple) \<Rightarrow> and_then tuple (\<lambda>t. request_raw R KEY_AFTER_TUPLE t q)
      | None \<Rightarrow> Ok q) K) =
    and_then (built R ty sync stream (fs @ (case a of
       Some (AfterPosition position) \<Rightarrow> [FStr KEY_AFTER_POSITION position]
     | Some (AfterTuple tuple) \<Rightarrow> [FArray KEY_AFTER_TUPLE tuple]
     | None \<Rightarrow> []))) K"
proof (cases a)
  case (Some x)
  then show ?thesis
    by (cases x) (simp_all only: option.case after.case built_late_raw [OF assms] built_step [where f = "FStr _ _", simplified apply_field.simps])
qed simp

lemma select_request_eq: "select_request R s key sync = request_packet R REQ_SELECT sync None (select_fields s key)"
proof (cases "sl_index s")
  case (IdxId i)
  have l: "length (FStr KEY_SPACE_NAME (sl_space s) # FUint KEY_INDEX_ID i # FUint KEY_ITERATOR (iter_code (sl_iter s)) #
    (if 0 < sl_offset s then [FUint KEY_OFFSET (sl_offset s)] else []) @
    [FUint KEY_LIMIT (unwrap_or (sl_limit s) 0xffffffff), FRaw KEY_KEY key]) < 2 ^ 32 - 1" by simp
  show ?thesis
    unfolding select_request_def select_fields_def IdxId index_ref.case and_then_assoc built_steps append_assoc built_after [OF l] ..
next
  case (IdxName name)
  have l: "length (FStr KEY_SPACE_NAME (sl_space s) # FStr KEY_INDEX_NAME name # FUint KEY_ITERATOR (iter_code (sl_iter s)) #
    (if 0 < sl_offset s then [FUint KEY_OFFSET (sl_offset s)] else []) @
    [FUint KEY_LIMIT (unwrap_or (sl_limit s) 0xffffffff), FRaw KEY_KEY key]) < 2 ^ 32 - 1" by simp
  show ?thesis
    unfolding select_request_def select_fields_def IdxName index_ref.case and_then_assoc built_steps append_assoc built_after [OF l] ..
qed

lemma select_build_then:
  "act_then (select_build R s) (\<lambda>(sync, packet). act_then (handle_request E sync packet) (\<lambda>r. act_lift (dec r))) h =
    (case sl_key s of
       Ok key \<Rightarrow> exchange E R REQ_SELECT None (select_fields s key) dec h
     | Err e \<Rightarrow> (Err e, h)
     | Panic \<Rightarrow> (Panic, h))"
proof (cases "sl_key s")
  case (Ok key)
  have "act_then (select_build R s) (\<lambda>(sync, packet). act_then (handle_request E sync packet) (\<lambda>r. act_lift (dec r))) h =
      act_then fresh_sync (\<lambda>sync. act_then (act_lift (select_request R s key sync)) (\<lambda>packet.
        act_then (handle_request E sync packet) (\<lambda>r. act_lift (dec r)))) h"
    using Ok by (cases "select_request R s key (sync_of h)") (simp_all add: select_build_def act_then_def act_lift_def act_map_def)
  then show ?thesis using Ok by (simp only: select_request_eq exchange_read outcome.case)
qed (simp_all add: select_build_def act_then_def act_lift_def)

lemma select_run_exchange: "select_run E R de s h = (case sl_key s of
     Ok key \<Rightarrow> exchange E R REQ_SELECT None (select_fields s key) (response_data de) h
   | Err e \<Rightarrow> (Err e, h) | Panic \<Rightarrow> (Panic, h))"
  unfolding select_run_def select_build_then ..

lemma paged_run_exchange: "paged_run E R de s h = (case sl_key s of
     Ok key \<Rightarrow> exchange E R REQ_SELECT None (select_fields s key)
       (\<lambda>r. map_ok (\<lambda>rows. \<lparr>pg_rows = rows, pg_position = rs_position r\<rparr>) (response_data de r)) h
   | Err e \<Rightarrow> (Err e, h) | Panic \<Rightarrow> (Panic, h))"
  unfolding paged_run_def select_build_then ..

lemma exchange_then:
  "act_then (exchange E R ty stream fs dec) (\<lambda>x. act_lift (f x)) = exchange E R ty stream fs (\<lambda>r. and_then (dec r) f)"
proof
  fix h
  show "act_then (exchange E R ty stream fs dec) (\<lambda>x. act_lift (f x)) h = exchange E R ty stream fs (\<lambda>r. and_then (dec r) f) h"
  proof (cases "request_packet R ty (sync_of h) stream fs")
    case (Ok packet)
    obtain r h' where r: "handle_request E (sync_of h) packet (bump h) = (r, h')" by force
    show ?thesis
    proof (cases r)
      case (Ok x)
      then show ?thesis using r \<open>request_packet _ _ _ _ _ = Ok packet\<close>
        by (cases "dec x") (simp_all add: exchange_def act_then_def act_lift_def)
    qed (use r Ok in \<open>simp_all add: exchange_def act_then_def\<close>)
  qed (simp_all add: exchange_def act_then_def)
qed

lemma exchange_map: "act_map f (exchange E R ty stream fs dec) = exchange E R ty stream fs (\<lambda>r. map_ok f (dec r))"
  by (simp only: act_map_then exchange_then outcome_fusion)

section \<open>Requests that stream\<close>

text \<open>\<open>call_with_pushes\<close> and \<open>eval_with_pushes\<close> up to \<open>finish\<close>: one request that names a channel for chunks.\<close>

definition push_command :: "rmp \<Rightarrow> u64 \<Rightarrow> (u8 \<times> bytes) list \<Rightarrow> handle \<Rightarrow> command" where
  "push_command R ty kvs h =
    CRequest (sync_of h) (packet_of R ty (sync_of h) None kvs) (length (hd_sent h)) (Some (length (hd_sent h)))"

definition push_finished :: "(bytes \<Rightarrow> (string, 'r) outcome) \<Rightarrow> push_stream action \<Rightarrow> 'r action" where
  "push_finished de begun = act_then begun (\<lambda>p. act_lift (push_call_finish de p))"

lemma request_with_pushes_eq:
  "act_then (handle_request_with_pushes E sync packet) (\<lambda>p. act_lift (push_call_finish de p)) h =
    (let c = CRequest sync packet (length (hd_sent h)) (Some (length (hd_sent h))) in
     (and_then (reply_of E c h) (response_data de), if delivered E c h then h\<lparr>hd_sent := hd_sent h @ [c]\<rparr> else h))"
  by (auto simp: handle_request_with_pushes_def submit_def request_with_pushes_def reply_of_def delivered_def act_then_def act_lift_def
      push_call_finish_def stream_finish_def push_stream_finish_def Let_def)

lemma push_exchange:
  assumes "length fs < 2 ^ 32"
  shows "push_finished de (act_then fresh_sync (\<lambda>sync.
      act_then (act_lift (request_packet R ty sync None fs)) (\<lambda>packet. push_call_start E sync packet))) h =
    (case collect (field_value R) fs of
       Ok kvs \<Rightarrow> (let c = push_command R ty kvs h in (and_then (reply_of E c h) (response_data de), after_request E c h))
     | Err e \<Rightarrow> (Err e, bump h)
     | Panic \<Rightarrow> (Panic, bump h))"
proof (cases "collect (field_value R) fs")
  case (Ok kvs)
  let ?p = "packet_of R ty (sync_of h) None kvs"
  have "request_packet R ty (sync_of h) None fs = Ok ?p"
    using Ok by (simp add: request_packet_spec [OF assms] two_maps_def packet_of_def)
  then have "push_finished de (act_then fresh_sync (\<lambda>sync.
      act_then (act_lift (request_packet R ty sync None fs)) (\<lambda>packet. push_call_start E sync packet))) h =
      act_then (handle_request_with_pushes E (sync_of h) ?p) (\<lambda>p. act_lift (push_call_finish de p)) (bump h)"
    by (simp add: push_finished_def push_call_start_def act_then_def act_lift_def)
  then show ?thesis
    by (simp add: Ok request_with_pushes_eq push_command_def Let_def reply_of_def delivered_def after_request_def)
qed (simp_all add: push_finished_def act_then_def act_lift_def request_packet_spec [OF assms])

lemma call_with_pushes_exchange: "call_with_pushes E R S V name args =
    act_then fresh_sync (\<lambda>sync. act_then (act_lift (request_packet R REQ_CALL sync None
      [FStr KEY_FUNCTION_NAME name, FArray KEY_TUPLE (encode_array S V args)])) (\<lambda>packet. push_call_start E sync packet))"
  unfolding call_with_pushes_def built_steps ..

lemma eval_with_pushes_exchange: "eval_with_pushes E R S V expr args =
    act_then fresh_sync (\<lambda>sync. act_then (act_lift (request_packet R REQ_EVAL sync None
      [FStr KEY_EXPR expr, FArray KEY_TUPLE (encode_array S V args)])) (\<lambda>packet. push_call_start E sync packet))"
  unfolding eval_with_pushes_def built_steps ..

section \<open>All operations\<close>

text \<open>
  The operations that are one request, with what they read replies with.  The two with pushes are taken to their end: started, and
  then finished.  The other commands of a client, \<open>watch\<close> and \<open>close\<close>, are no requests; see \<open>Watcher\<close> and \<open>Connection_Props\<close>.
\<close>

record ('r, 't) reader =
  rd_value :: "bytes \<Rightarrow> (string, 'r) outcome"
  rd_rows :: "bytes \<Rightarrow> (string, 't list) outcome"
  rd_map :: "bytes \<Rightarrow> (string, entries) outcome"
  rd_maps :: "bytes \<Rightarrow> (string, entries list) outcome"

datatype client_op =
    DoCall string array_like
  | DoEval string array_like
  | DoCallPushes string array_like
  | DoEvalPushes string array_like
  | DoPing
  | DoWatchOnce string
  | DoQuery string array_like
  | DoExecute string array_like
  | DoPrepare string
  | DoInsert string serialized
  | DoReplace string serialized
  | DoInsertArrow string bytes
  | DoGet string array_like
  | DoDelete string array_like
  | DoUpdate string array_like update
  | DoUpsert string serialized update
  | DoSelect select
  | DoPage select

text \<open>What the caller of an operation gets.\<close>

datatype ('r, 't) client_value =
    GotNothing
  | GotValue 'r
  | GotRow "'t option"
  | GotRows "'t list"
  | GotPage "'t page"
  | GotTable "'t rows"
  | GotExec exec
  | GotStatement statement

text \<open>The model's own operation for each, with all it returns.\<close>

abbreviation nothing :: "unit action \<Rightarrow> ('r, 't) client_value action" where
  "nothing \<equiv> act_map (\<lambda>_. GotNothing)"

fun client_do :: "env \<Rightarrow> rmp \<Rightarrow> serde \<Rightarrow> rmpv \<Rightarrow> ('r, 't) reader \<Rightarrow> client_op \<Rightarrow> ('r, 't) client_value action" where
  "client_do E R S V D (DoCall name args) = act_map GotValue (client_call E R S V (rd_value D) name args)"
| "client_do E R S V D (DoEval expr args) = act_map GotValue (client_eval E R S V (rd_value D) expr args)"
| "client_do E R S V D (DoCallPushes name args) = act_map GotValue (push_finished (rd_value D) (call_with_pushes E R S V name args))"
| "client_do E R S V D (DoEvalPushes expr args) = act_map GotValue (push_finished (rd_value D) (eval_with_pushes E R S V expr args))"
| "client_do E R S V D DoPing = nothing (client_ping E R)"
| "client_do E R S V D (DoWatchOnce key) = act_map GotValue (watch_once E R (rd_value D) key)"
| "client_do E R S V D (DoQuery sql params) = act_map GotTable (client_query E R S V (rd_maps D) (rd_rows D) sql params)"
| "client_do E R S V D (DoExecute sql params) = act_map GotExec (client_execute E R S V (rd_map D) sql params)"
| "client_do E R S V D (DoPrepare sql) = act_map GotStatement (client_prepare E R V (rd_maps D) sql)"
| "client_do E R S V D (DoInsert space tuple) = nothing (space_insert E R space tuple)"
| "client_do E R S V D (DoReplace space tuple) = nothing (space_replace E R space tuple)"
| "client_do E R S V D (DoInsertArrow space ipc) = nothing (insert_arrow E R space ipc)"
| "client_do E R S V D (DoGet space key) = act_map GotRow (space_get E R S V (rd_rows D) space key)"
| "client_do E R S V D (DoDelete space key) = act_map GotRow (space_delete E R S V (rd_rows D) space key)"
| "client_do E R S V D (DoUpdate space key ops) = act_map GotRow (space_update E R S V (rd_rows D) space key ops)"
| "client_do E R S V D (DoUpsert space tuple ops) = nothing (space_upsert E R space tuple ops)"
| "client_do E R S V D (DoSelect s) = act_map GotRows (select_run E R (rd_rows D) s)"
| "client_do E R S V D (DoPage s) = act_map GotPage (paged_run E R (rd_rows D) s)"

text \<open>
  The specification.  What is refused before anything happens: an operation the server did not negotiate, a select
  whose key cannot be encoded.
\<close>

fun op_refused :: "serde \<Rightarrow> rmpv \<Rightarrow> client_op \<Rightarrow> handle \<Rightarrow> unit result" where
  "op_refused S V (DoWatchOnce _) h =
    (if handle_supports WatchOnce h then Ok () else Err (Unsupported ''watch_once (server is older than 3.0)''))"
| "op_refused S V (DoInsertArrow _ _) h =
    (if handle_supports InsertArrow h then Ok () else Err (Unsupported ''Arrow insert (server is older than 3.3)''))"
| "op_refused S V (DoGet space key) h = map_ok (\<lambda>_. ()) (encode_array S V key)"
| "op_refused S V (DoSelect s) h = map_ok (\<lambda>_. ()) (sl_key s)"
| "op_refused S V (DoPage s) h = map_ok (\<lambda>_. ()) (sl_key s)"
| "op_refused S V _ h = Ok ()"

fun op_type :: "client_op \<Rightarrow> u64" where
  "op_type (DoCall _ _) = REQ_CALL"
| "op_type (DoEval _ _) = REQ_EVAL"
| "op_type (DoCallPushes _ _) = REQ_CALL"
| "op_type (DoEvalPushes _ _) = REQ_EVAL"
| "op_type DoPing = REQ_PING"
| "op_type (DoWatchOnce _) = REQ_WATCH_ONCE"
| "op_type (DoQuery _ _) = REQ_EXECUTE"
| "op_type (DoExecute _ _) = REQ_EXECUTE"
| "op_type (DoPrepare _) = REQ_PREPARE"
| "op_type (DoInsert _ _) = REQ_INSERT"
| "op_type (DoReplace _ _) = REQ_REPLACE"
| "op_type (DoInsertArrow _ _) = REQ_INSERT_ARROW"
| "op_type (DoGet _ _) = REQ_SELECT"
| "op_type (DoDelete _ _) = REQ_DELETE"
| "op_type (DoUpdate _ _ _) = REQ_UPDATE"
| "op_type (DoUpsert _ _ _) = REQ_UPSERT"
| "op_type (DoSelect _) = REQ_SELECT"
| "op_type (DoPage _) = REQ_SELECT"

text \<open>Whether the request names a channel for chunks.\<close>

fun op_pushes :: "client_op \<Rightarrow> bool" where
  "op_pushes (DoCallPushes _ _) = True"
| "op_pushes (DoEvalPushes _ _) = True"
| "op_pushes _ = False"

text \<open>The fields the protocol documents for the request.\<close>

fun op_fields :: "rmp \<Rightarrow> serde \<Rightarrow> rmpv \<Rightarrow> client_op \<Rightarrow> field list" where
  "op_fields R S V (DoCall name args) = [FStr KEY_FUNCTION_NAME name, FArray KEY_TUPLE (encode_array S V args)]"
| "op_fields R S V (DoEval expr args) = [FStr KEY_EXPR expr, FArray KEY_TUPLE (encode_array S V args)]"
| "op_fields R S V (DoCallPushes name args) = [FStr KEY_FUNCTION_NAME name, FArray KEY_TUPLE (encode_array S V args)]"
| "op_fields R S V (DoEvalPushes expr args) = [FStr KEY_EXPR expr, FArray KEY_TUPLE (encode_array S V args)]"
| "op_fields R S V DoPing = []"
| "op_fields R S V (DoWatchOnce key) = [FStr KEY_EVENT_KEY key]"
| "op_fields R S V (DoQuery sql params) = [FStr KEY_SQL_TEXT sql, FArray KEY_SQL_BIND (encode_array S V params)]"
| "op_fields R S V (DoExecute sql params) = [FStr KEY_SQL_TEXT sql, FArray KEY_SQL_BIND (encode_array S V params)]"
| "op_fields R S V (DoPrepare sql) = [FStr KEY_SQL_TEXT sql]"
| "op_fields R S V (DoInsert space tuple) = [FStr KEY_SPACE_NAME space, FSerialized KEY_TUPLE tuple True]"
| "op_fields R S V (DoReplace space tuple) = [FStr KEY_SPACE_NAME space, FSerialized KEY_TUPLE tuple True]"
| "op_fields R S V (DoInsertArrow space ipc) = [FStr KEY_SPACE_NAME space, FExt KEY_ARROW EXT_ARROW ipc]"
| "op_fields R S V (DoGet space key) =
    [FStr KEY_SPACE_NAME space, FUint KEY_INDEX_ID 0, FUint KEY_ITERATOR (iter_code IterEq), FUint KEY_LIMIT 1,
     FRaw KEY_KEY (case encode_array S V key of Ok key \<Rightarrow> key | _ \<Rightarrow> [])]"
| "op_fields R S V (DoDelete space key) =
    [FStr KEY_SPACE_NAME space, FUint KEY_INDEX_ID 0, FArray KEY_KEY (encode_array S V key)]"
| "op_fields R S V (DoUpdate space key ops) =
    [FStr KEY_SPACE_NAME space, FUint KEY_INDEX_ID 0, FUint KEY_INDEX_BASE 1, FArray KEY_KEY (encode_array S V key),
     FArray KEY_TUPLE (ops_bytes R ops)]"
| "op_fields R S V (DoUpsert space tuple ops) =
    [FStr KEY_SPACE_NAME space, FUint KEY_INDEX_BASE 1, FSerialized KEY_TUPLE tuple True, FArray KEY_OPS (ops_bytes R ops)]"
| "op_fields R S V (DoSelect s) = select_fields s (case sl_key s of Ok key \<Rightarrow> key | _ \<Rightarrow> [])"
| "op_fields R S V (DoPage s) = select_fields s (case sl_key s of Ok key \<Rightarrow> key | _ \<Rightarrow> [])"

text \<open>The request of an operation, with its fields encoded.\<close>

definition op_command :: "rmp \<Rightarrow> client_op \<Rightarrow> (u8 \<times> bytes) list \<Rightarrow> handle \<Rightarrow> command" where
  "op_command R op kvs h =
    CRequest (sync_of h) (packet_of R (op_type op) (sync_of h) None kvs) (length (hd_sent h))
      (if op_pushes op then Some (length (hd_sent h)) else None)"

text \<open>
  What a reply means.  The columns of a result set or of the parameters of a statement are read from the maps under the protocol's
  numbers: name, type, collation, nullability, auto-increment and span.
\<close>

definition text_under :: "rmpv \<Rightarrow> entries \<Rightarrow> u8 \<Rightarrow> string option" where
  "text_under V entry k = (case map_of entry k of Some v \<Rightarrow> as_str V v | None \<Rightarrow> None)"

definition flag_under :: "rmpv \<Rightarrow> entries \<Rightarrow> u8 \<Rightarrow> bool option" where
  "flag_under V entry k = (case map_of entry k of Some v \<Rightarrow> as_bool V v | None \<Rightarrow> None)"

definition meant_column :: "rmpv \<Rightarrow> entries \<Rightarrow> column" where
  "meant_column V entry =
    \<lparr>co_name = (case text_under V entry 0 of Some s \<Rightarrow> s | None \<Rightarrow> []),
     co_type_name = (case text_under V entry 1 of Some s \<Rightarrow> s | None \<Rightarrow> []),
     co_collation = text_under V entry 2, co_nullable = flag_under V entry 3, co_autoincrement = flag_under V entry 4,
     co_span = text_under V entry 5\<rparr>"

definition meant_columns :: "rmpv \<Rightarrow> ('r, 't) reader \<Rightarrow> response \<Rightarrow> (nat \<times> nat) option \<Rightarrow> column list result" where
  "meant_columns V D r rng = and_then (response_slice r rng) (\<lambda>bs. case bs of
     None \<Rightarrow> Ok []
   | Some bs \<Rightarrow> map_ok (map (meant_column V)) (map_err Decode (rd_maps D bs)))"

definition number_under :: "rmpv \<Rightarrow> entries \<Rightarrow> u8 \<Rightarrow> u64" where
  "number_under V info k = (case map_of info k of
     Some v \<Rightarrow> (case as_u64 V v of Some n \<Rightarrow> n | None \<Rightarrow> 0) | None \<Rightarrow> 0)"

definition numbers_under :: "rmpv \<Rightarrow> entries \<Rightarrow> u8 \<Rightarrow> u64 list" where
  "numbers_under V info k = (case map_of info k of
     Some v \<Rightarrow> (case as_array V v of
         Some vs \<Rightarrow> map (\<lambda>x. the (as_u64 V x)) (filter (\<lambda>x. as_u64 V x \<noteq> None) vs) | None \<Rightarrow> [])
   | None \<Rightarrow> [])"

fun op_read :: "rmpv \<Rightarrow> ('r, 't) reader \<Rightarrow> client_op \<Rightarrow> response \<Rightarrow> ('r, 't) client_value result" where
  "op_read V D (DoCall _ _) = (\<lambda>r. map_ok GotValue (response_data (rd_value D) r))"
| "op_read V D (DoEval _ _) = (\<lambda>r. map_ok GotValue (response_data (rd_value D) r))"
| "op_read V D (DoCallPushes _ _) = (\<lambda>r. map_ok GotValue (response_data (rd_value D) r))"
| "op_read V D (DoEvalPushes _ _) = (\<lambda>r. map_ok GotValue (response_data (rd_value D) r))"
| "op_read V D (DoWatchOnce _) = (\<lambda>r. map_ok GotValue (response_data (rd_value D) r))"
| "op_read V D (DoQuery _ _) = (\<lambda>r.
    (if rs_data r = None
     then Err (Decode ''the statement returned no result set; use `execute` for statements that change data'')
     else and_then (meant_columns V D r (rs_metadata r)) (\<lambda>cs.
       map_ok (\<lambda>rows. GotTable \<lparr>rw_columns = cs, rw_rows = rows\<rparr>) (response_data (rd_rows D) r))))"
| "op_read V D (DoExecute _ _) = (\<lambda>r.
    and_then (response_slice r (rs_sql_info r)) (\<lambda>bs. case bs of
     None \<Rightarrow> Ok (GotExec \<lparr>ex_row_count = 0, ex_autoincrement_ids = []\<rparr>)
   | Some bs \<Rightarrow> map_ok (\<lambda>info. GotExec \<lparr>ex_row_count = number_under V info 0, ex_autoincrement_ids = numbers_under V info 1\<rparr>)
       (map_err Decode (rd_map D bs))))"
| "op_read V D (DoPrepare sql) = (\<lambda>r.
    and_then (meant_columns V D r (rs_metadata r)) (\<lambda>cs.
    and_then (meant_columns V D r (rs_bind_metadata r)) (\<lambda>ps. case rs_stmt_id r of
      None \<Rightarrow> Err (Protocol ''PREPARE reply carries no statement id'')
    | Some i \<Rightarrow> Ok (GotStatement \<lparr>st_sql = sql, st_id = i, st_columns = cs, st_parameters = ps,
        st_parameter_count = (case rs_bind_count r of Some n \<Rightarrow> n | None \<Rightarrow> 0), st_released = False\<rparr>))))"
| "op_read V D (DoGet _ _) = (\<lambda>r. map_ok (\<lambda>rows. GotRow (if rows = [] then None else Some (rows ! 0))) (response_data (rd_rows D) r))"
| "op_read V D (DoDelete _ _) = (\<lambda>r. map_ok (\<lambda>rows. GotRow (if rows = [] then None else Some (rows ! 0))) (response_data (rd_rows D) r))"
| "op_read V D (DoUpdate _ _ _) = (\<lambda>r. map_ok (\<lambda>rows. GotRow (if rows = [] then None else Some (rows ! 0))) (response_data (rd_rows D) r))"
| "op_read V D (DoSelect _) = (\<lambda>r. map_ok GotRows (response_data (rd_rows D) r))"
| "op_read V D (DoPage _) = (\<lambda>r. map_ok (\<lambda>rows. GotPage \<lparr>pg_rows = rows, pg_position = rs_position r\<rparr>) (response_data (rd_rows D) r))"
| "op_read V D _ = (\<lambda>r. Ok GotNothing)"

subsection \<open>The readings of the code are these\<close>

lemma map_ok_map_ok [simp]: "map_ok f (map_ok g m) = map_ok (\<lambda>x. f (g x)) m"
  by (cases m) simp_all

lemma first_row_meant: "first_row rows = (if rows = [] then None else Some (rows ! 0))"
  by (cases rows) (simp_all add: first_row_def)

lemma column_meant: "column_of V = meant_column V"
proof
  have "text_at V entry k = text_under V entry k" "flag_at V entry k = flag_under V entry k" for entry k
    by (cases "map_of entry k"; simp add: text_at_def text_under_def flag_at_def flag_under_def)+
  then show "column_of V entry = meant_column V entry" for entry
    by (simp add: column_of_def meant_column_def unwrap_or_def)
qed

lemma columns_meant: "and_then (response_slice r rng) (\<lambda>bs. and_then (columns V (rd_maps D) bs) k) = and_then (meant_columns V D r rng) k"
  by (cases "response_slice r rng") (auto simp: meant_columns_def columns_def column_meant split: option.split)

lemma rows_meant: "map_ok GotTable (sql_rows V (rd_maps D) (rd_rows D) r) = op_read V D (DoQuery sql ps) r"
  by (cases "meant_columns V D r (rs_metadata r)")
    (simp_all add: sql_rows_def has_data_def NoResultSet_def metadata_bytes_def columns_meant outcome_fusion)

lemma exec_meant: "map_ok GotExec (sql_exec V (rd_map D) r) = op_read V D (DoExecute sql ps) r"
proof -
  have n: "unwrap_or (Option.bind (map_of info k) (as_u64 V)) 0 = number_under V info k" for info k
    by (cases "map_of info k") (simp_all add: unwrap_or_def number_under_def)
  have i: "unwrap_or (map_option (List.map_filter (as_u64 V)) (Option.bind (map_of info k) (as_array V))) [] = numbers_under V info k"
    for info k
    by (cases "map_of info k") (simp_all add: unwrap_or_def numbers_under_def List.map_filter_def comp_def split: option.split)
  show ?thesis
    by (cases "response_slice r (rs_sql_info r)")
      (auto simp: sql_exec_def sql_info_bytes_def n i outcome_fusion split: option.split)
qed

lemma statement_meant: "map_ok GotStatement (statement_of V (rd_maps D) sql r) = op_read V D (DoPrepare sql) r"
  by (cases "meant_columns V D r (rs_metadata r)"; cases "meant_columns V D r (rs_bind_metadata r)"; cases "rs_stmt_id r")
    (simp_all add: statement_of_def metadata_bytes_def bind_metadata_bytes_def columns_meant statement_id_def unwrap_or_def)

lemma op_fields_length: "length (op_fields R S V op) < 2 ^ 32"
  using le_less_trans [OF select_fields_length, of "2 ^ 32"] by (cases op) simp_all

lemma act_map_Pair [simp]: "act_map f (Pair r) h = (map_ok f r, h)"
  by (simp add: act_map_def)

lemmas simple_exchanges = client_call_exchange client_eval_exchange client_ping_exchange space_write_exchange
  space_insert_def space_replace_def space_delete_exchange space_update_exchange space_upsert_exchange
  client_query_def client_execute_def client_prepare_def statement_prepare_def run_text_exchange send_prepare_exchange
  exchange_then exchange_map and_then.simps

lemma act_map_guard:
  "act_map f (\<lambda>h. if \<not> handle_supports ft h then (Err e, h) else m h) h =
    (if handle_supports ft h then act_map f m h else (Err e, h))"
  by (simp add: act_map_def)

lemma client_do_exchange:
  assumes "\<not> op_pushes op"
  shows "client_do E R S V D op h = (case op_refused S V op h of
     Ok _ \<Rightarrow> exchange E R (op_type op) None (op_fields R S V op) (op_read V D op) h
   | Err e \<Rightarrow> (Err e, h)
   | Panic \<Rightarrow> (Panic, h))"
proof (cases op)
  case (DoWatchOnce key)
  then show ?thesis by (simp add: watch_once_exchange [abs_def] act_map_guard exchange_map)
next
  case (DoInsertArrow space ipc)
  then show ?thesis by (simp add: insert_arrow_exchange [abs_def] act_map_guard exchange_map)
next
  case (DoGet space key)
  show ?thesis
  proof (cases "encode_array S V key")
    case (Ok k)
    let ?s = "select_limit 1 (select_iterator IterEq (space_select S V space key))"
    have "sl_key ?s = Ok k" "select_fields ?s k = op_fields R S V (DoGet space key)"
      using Ok by (simp_all add: select_fields_def select_limit_def select_iterator_def space_select_def select_new_def unwrap_or_def)
    then show ?thesis
      using DoGet Ok by (simp add: space_get_def act_map_act_map select_run_exchange [abs_def] exchange_map first_row_meant)
  qed (use DoGet in \<open>simp_all add: space_get_def act_map_def select_run_exchange select_limit_def select_iterator_def
        space_select_def select_new_def\<close>)
next
  case (DoSelect s)
  then show ?thesis by (cases "sl_key s") (simp_all add: select_run_exchange [abs_def] exchange_map)
next
  case (DoPage s)
  then show ?thesis by (cases "sl_key s") (simp_all add: paged_run_exchange [abs_def] exchange_map)
next
  case (DoQuery sql ps)
  show ?thesis
    unfolding DoQuery client_do.simps client_query_def run_text_exchange exchange_then exchange_map
    by (simp add: rows_meant [where sql = sql and ps = ps] del: op_read.simps)
next
  case (DoExecute sql ps)
  show ?thesis
    unfolding DoExecute client_do.simps client_execute_def run_text_exchange exchange_then exchange_map
    by (simp add: exec_meant [where sql = sql and ps = ps] del: op_read.simps)
next
  case (DoPrepare sql)
  show ?thesis
    unfolding DoPrepare client_do.simps client_prepare_def statement_prepare_def send_prepare_exchange exchange_then exchange_map
    by (simp add: statement_meant del: op_read.simps)
qed (use assms in \<open>simp_all add: simple_exchanges first_row_meant\<close>)

lemma client_do_pushes:
  assumes "op_pushes op"
  shows "client_do E R S V D op h = (case collect (field_value R) (op_fields R S V op) of
     Ok kvs \<Rightarrow> (let c = op_command R op kvs h in (and_then (reply_of E c h) (op_read V D op), after_request E c h))
   | Err e \<Rightarrow> (Err e, bump h)
   | Panic \<Rightarrow> (Panic, bump h))"
proof -
  have map: "act_map f m h = (case x of Ok y \<Rightarrow> (and_then (r y) (\<lambda>v. map_ok f (d v)), h1 y) | Err e \<Rightarrow> (Err e, h2) | Panic \<Rightarrow> (Panic, h2))"
    if "m h = (case x of Ok y \<Rightarrow> (and_then (r y) d, h1 y) | Err e \<Rightarrow> (Err e, h2) | Panic \<Rightarrow> (Panic, h2))"
    for f :: "'c \<Rightarrow> 'd" and m x r d h1 h2
    using that by (cases x) (simp_all add: act_map_def map_ok_and_then)
  consider name args where "op = DoCallPushes name args" | expr args where "op = DoEvalPushes expr args"
    using assms by (cases op) simp_all
  then show ?thesis
  proof cases
    case 1
    show ?thesis
      unfolding 1 client_do.simps call_with_pushes_exchange
      by (subst map [OF push_exchange [unfolded Let_def]], simp, cases "encode_array S V args")
        (simp_all add: op_command_def push_command_def Let_def)
  next
    case 2
    show ?thesis
      unfolding 2 client_do.simps eval_with_pushes_exchange
      by (subst map [OF push_exchange [unfolded Let_def]], simp, cases "encode_array S V args")
        (simp_all add: op_command_def push_command_def Let_def)
  qed
qed

lemma client_do_spec:
  "client_do E R S V D op h = (case op_refused S V op h of
     Ok _ \<Rightarrow> (case collect (field_value R) (op_fields R S V op) of
         Ok kvs \<Rightarrow> (let c = op_command R op kvs h in (and_then (reply_of E c h) (op_read V D op), after_request E c h))
       | Err e \<Rightarrow> (Err e, bump h)
       | Panic \<Rightarrow> (Panic, bump h))
   | Err e \<Rightarrow> (Err e, h)
   | Panic \<Rightarrow> (Panic, h))"
proof (cases "op_pushes op")
  case True
  then have "op_refused S V op h = Ok ()" by (cases op) simp_all
  then show ?thesis using client_do_pushes [OF True] by simp
next
  case False
  then have "op_command R op kvs h = request_command R (op_type op) None kvs h" for kvs
    by (simp add: op_command_def request_command_def)
  then show ?thesis by (simp only: client_do_exchange [OF False] exchange_spec [OF op_fields_length])
qed

text \<open>
  C4: what a client operation does.  For every operation of a client that is a request, those that stream pushes included: it is
  refused with nothing sent and no number used up when the server did not negotiate it or when the key of a select cannot be
  encoded; when a field cannot be encoded nothing is sent and the first failure is returned; otherwise exactly one request goes to
  the task, with the next number, the documented type and exactly the documented fields in order, and a channel for chunks exactly
  if it streams.  What the caller gets is the error of the reply (of the server, a timeout, a closed connection) or the value the
  reply means: the data, the first row or none for a get, a delete or an update, all rows for a select, the rows and
  the position after them for a page, columns and rows of a query, the counts of an execute, the statement of a prepare.\<close>
theorem client_operations:
  "client_do E R S V D op h = (case op_refused S V op h of
     Ok _ \<Rightarrow> (case collect (field_value R) (op_fields R S V op) of
         Ok kvs \<Rightarrow> (let c = op_command R op kvs h in (and_then (reply_of E c h) (op_read V D op), after_request E c h))
       | Err e \<Rightarrow> (Err e, bump h)
       | Panic \<Rightarrow> (Panic, bump h))
   | Err e \<Rightarrow> (Err e, h)
   | Panic \<Rightarrow> (Panic, h))"
  by (rule client_do_spec)

end
