(* ===== verification/Client_Streams.thy ===== *)
theory Client_Streams
  imports Client_Requests "HOL-Library.Log_Nat"
begin

text \<open>
  \<^verbatim>\<open>src/src/client.rs\<close>, \<open>TxOptions\<close> and \<open>Stream\<close>: ordered requests and interactive transactions, with the rollback
  that is sent when a stream is dropped in the middle of one.
\<close>

section \<open>Durations as floating-point seconds\<close>

text \<open>
  \<open>Duration::as_secs_f64\<close>: the whole seconds as a float plus the nanoseconds as a float divided by \<open>1e9\<close>, each step rounded to
  the nearest double, ties to even.  A double that is not negative is its 64 bits; \<open>f64_round n d\<close> is the one nearest to
  \<open>n / d\<close>, for the magnitudes a duration can reach.
\<close>

definition round_half_even :: "nat \<Rightarrow> nat \<Rightarrow> nat" where
  "round_half_even n d =
    (let q = n div d; r = n mod d in
     if 2 * r < d then q else if d < 2 * r then q + 1 else if even q then q else q + 1)"

definition binary_exponent :: "nat \<Rightarrow> nat \<Rightarrow> int" where
  "binary_exponent n d =
    (let a = floorlog 2 n; b = floorlog 2 d in
     if d * 2 ^ (a - b) \<le> n * 2 ^ (b - a) then int a - int b else int a - int b - 1)"

definition f64_round :: "nat \<Rightarrow> nat \<Rightarrow> u64" where
  "f64_round n d =
    (if n = 0 then 0
     else let e = binary_exponent n d;
              m = round_half_even (n * 2 ^ nat (52 - e)) (d * 2 ^ nat (e - 52))
          in of_nat (nat (e + 1023) * 2 ^ 52 + m - 2 ^ 52))"

definition f64_ratio :: "u64 \<Rightarrow> nat \<times> nat" where
  "f64_ratio bits =
    (if bits = 0 then (0, 1)
     else let e = unat bits div 2 ^ 52; m = 2 ^ 52 + unat bits mod 2 ^ 52
          in (m * 2 ^ (e - 1075), 2 ^ (1075 - e)))"

definition f64_add :: "u64 \<Rightarrow> u64 \<Rightarrow> u64" where
  "f64_add x y = (case (f64_ratio x, f64_ratio y) of ((a, b), (c, d)) \<Rightarrow> f64_round (a * d + c * b) (b * d))"

definition f64_div_nat :: "u64 \<Rightarrow> nat \<Rightarrow> u64" where
  "f64_div_nat x k = (case f64_ratio x of (a, b) \<Rightarrow> f64_round a (b * k))"

definition as_secs_f64 :: "duration \<Rightarrow> u64" where
  "as_secs_f64 d = f64_add (f64_round (d div 10 ^ 9) 1) (f64_div_nat (f64_round (d mod 10 ^ 9) 1) (10 ^ 9))"

text \<open>For example, three seconds.\<close>

lemma as_secs_f64_3: "as_secs_f64 3000000000 = 0x4008000000000000"
  by (simp add: as_secs_f64_def f64_add_def f64_div_nat_def f64_round_def f64_ratio_def binary_exponent_def
    round_half_even_def compute_floorlog Let_def)

section \<open>Transactions\<close>

record tx_options =
  tx_isolation :: isolation
  tx_timeout :: "duration option"
  tx_synchronous :: bool

definition tx_options_new :: tx_options where
  "tx_options_new = \<lparr>tx_isolation = DefaultIsolation, tx_timeout = None, tx_synchronous = False\<rparr>"

definition tx_with_isolation :: "isolation \<Rightarrow> tx_options \<Rightarrow> tx_options" where
  "tx_with_isolation i o' = o'\<lparr>tx_isolation := i\<rparr>"

definition tx_with_timeout :: "duration \<Rightarrow> tx_options \<Rightarrow> tx_options" where
  "tx_with_timeout d o' = o'\<lparr>tx_timeout := Some d\<rparr>"

definition tx_with_synchronous :: "tx_options \<Rightarrow> tx_options" where
  "tx_with_synchronous o' = o'\<lparr>tx_synchronous := True\<rparr>"

definition tx_from_isolation :: "isolation \<Rightarrow> tx_options" where
  "tx_from_isolation i = tx_with_isolation i tx_options_new"

record tx_stream =
  sm_id :: u64
  sm_in_transaction :: bool

definition client_stream :: "tx_stream action" where
  "client_stream = act_map (\<lambda>i. \<lparr>sm_id = i, sm_in_transaction = False\<rparr>) fresh_stream_id"

definition begin_packet :: "rmp \<Rightarrow> tx_options \<Rightarrow> u64 \<Rightarrow> u64 \<Rightarrow> bytes result" where
  "begin_packet R opts i sync =
    and_then (Ok (request_new R REQ_BEGIN sync (Some i))) (\<lambda>q.
    and_then (if tx_isolation opts \<noteq> DefaultIsolation
        then request_uint R KEY_TXN_ISOLATION (isolation_code (tx_isolation opts)) q else Ok q) (\<lambda>q.
    and_then (case tx_timeout opts of Some d \<Rightarrow> request_f64 R KEY_TIMEOUT (as_secs_f64 d) q | None \<Rightarrow> Ok q) (\<lambda>q.
    and_then (if tx_synchronous opts then request_bool R KEY_IS_SYNC True q else Ok q) (\<lambda>q.
    Ok (request_finish R q)))))"

definition stream_begin :: "env \<Rightarrow> rmp \<Rightarrow> tx_options \<Rightarrow> tx_stream \<Rightarrow> handle \<Rightarrow> unit result \<times> tx_stream \<times> handle" where
  "stream_begin E R opts s h =
    (if \<not> handle_supports Transactions h
     then (Err (Unsupported ''transactions (server is older than 2.10)''), s, h)
     else if tx_synchronous opts \<and> \<not> handle_supports IsSync h
     then (Err (Unsupported ''synchronous transactions (server is older than 3.3)''), s, h)
     else (case act_then fresh_sync (\<lambda>sync. act_then (act_lift (begin_packet R opts (sm_id s) sync)) (\<lambda>packet.
         handle_request E sync packet)) h of
       (Ok _, h) \<Rightarrow> (Ok (), s\<lparr>sm_in_transaction := True\<rparr>, h)
     | (Err e, h) \<Rightarrow> (Err e, s, h)
     | (Panic, h) \<Rightarrow> (Panic, s, h)))"

text \<open>The request of \<open>commit\<close> and \<open>rollback\<close>, which differ in its type only.\<close>

definition bare_packet :: "rmp \<Rightarrow> u64 \<Rightarrow> u64 \<Rightarrow> u64 \<Rightarrow> bytes" where
  "bare_packet R ty i sync = request_finish R (request_new R ty sync (Some i))"

definition stream_commit :: "env \<Rightarrow> rmp \<Rightarrow> tx_stream \<Rightarrow> handle \<Rightarrow> unit result \<times> tx_stream \<times> handle" where
  "stream_commit E R s h =
    (case act_then fresh_sync (\<lambda>sync. handle_request E sync (bare_packet R REQ_COMMIT (sm_id s) sync)) h of
       (Ok _, h) \<Rightarrow> (Ok (), s\<lparr>sm_in_transaction := False\<rparr>, h)
     | (Err e, h) \<Rightarrow> (Err e, s, h)
     | (Panic, h) \<Rightarrow> (Panic, s, h))"

definition stream_rollback :: "env \<Rightarrow> rmp \<Rightarrow> tx_stream \<Rightarrow> handle \<Rightarrow> unit result \<times> tx_stream \<times> handle" where
  "stream_rollback E R s h =
    (case act_then fresh_sync (\<lambda>sync. handle_request E sync (bare_packet R REQ_ROLLBACK (sm_id s) sync)) h of
       (Ok _, h) \<Rightarrow> (Ok (), s\<lparr>sm_in_transaction := False\<rparr>, h)
     | (Err e, h) \<Rightarrow> (Err e, s, h)
     | (Panic, h) \<Rightarrow> (Panic, s, h))"

definition stream_call ::
  "env \<Rightarrow> rmp \<Rightarrow> serde \<Rightarrow> rmpv \<Rightarrow> (bytes \<Rightarrow> (string, 'r) outcome) \<Rightarrow> tx_stream \<Rightarrow> string \<Rightarrow> array_like \<Rightarrow> 'r action" where
  "stream_call E R S V de s name args =
    act_then fresh_sync (\<lambda>sync.
    act_then (act_lift (
      and_then (request_str R KEY_FUNCTION_NAME name (request_new R REQ_CALL sync (Some (sm_id s)))) (\<lambda>q.
      map_ok (request_finish R) (request_array R KEY_TUPLE (encode_array S V args) q)))) (\<lambda>packet.
    act_then (handle_request E sync packet) (\<lambda>r. act_lift (response_data de r))))"

definition stream_eval ::
  "env \<Rightarrow> rmp \<Rightarrow> serde \<Rightarrow> rmpv \<Rightarrow> (bytes \<Rightarrow> (string, 'r) outcome) \<Rightarrow> tx_stream \<Rightarrow> string \<Rightarrow> array_like \<Rightarrow> 'r action" where
  "stream_eval E R S V de s expr args =
    act_then fresh_sync (\<lambda>sync.
    act_then (act_lift (
      and_then (request_str R KEY_EXPR expr (request_new R REQ_EVAL sync (Some (sm_id s)))) (\<lambda>q.
      map_ok (request_finish R) (request_array R KEY_TUPLE (encode_array S V args) q)))) (\<lambda>packet.
    act_then (handle_request E sync packet) (\<lambda>r. act_lift (response_data de r))))"

definition stream_query ::
  "env \<Rightarrow> rmp \<Rightarrow> serde \<Rightarrow> rmpv \<Rightarrow> (bytes \<Rightarrow> (string, entries list) outcome) \<Rightarrow> (bytes \<Rightarrow> (string, 'a list) outcome) \<Rightarrow>
    tx_stream \<Rightarrow> string \<Rightarrow> array_like \<Rightarrow> 'a rows action" where
  "stream_query E R S V de_maps de s sql params =
    act_then (run_text E R S V (Some (sm_id s)) sql params) (\<lambda>r. act_lift (sql_rows V de_maps de r))"

definition stream_execute ::
  "env \<Rightarrow> rmp \<Rightarrow> serde \<Rightarrow> rmpv \<Rightarrow> (bytes \<Rightarrow> (string, entries) outcome) \<Rightarrow> tx_stream \<Rightarrow> string \<Rightarrow> array_like \<Rightarrow> exec action" where
  "stream_execute E R S V de_map s sql params =
    act_then (run_text E R S V (Some (sm_id s)) sql params) (\<lambda>r. act_lift (sql_exec V de_map r))"

definition query_prepared ::
  "env \<Rightarrow> rmp \<Rightarrow> serde \<Rightarrow> rmpv \<Rightarrow> (bytes \<Rightarrow> (string, entries list) outcome) \<Rightarrow> (bytes \<Rightarrow> (string, 'a list) outcome) \<Rightarrow>
    tx_stream \<Rightarrow> array_like \<Rightarrow> statement \<Rightarrow> handle \<Rightarrow> 'a rows result \<times> statement \<times> handle" where
  "query_prepared E R S V de_maps de s params = statement_query E R S V de_maps de (Some (sm_id s)) params"

definition execute_prepared ::
  "env \<Rightarrow> rmp \<Rightarrow> serde \<Rightarrow> rmpv \<Rightarrow> (bytes \<Rightarrow> (string, entries) outcome) \<Rightarrow>
    tx_stream \<Rightarrow> array_like \<Rightarrow> statement \<Rightarrow> handle \<Rightarrow> exec result \<times> statement \<times> handle" where
  "execute_prepared E R S V de_map s params = statement_execute E R S V de_map (Some (sm_id s)) params"

definition stream_drop :: "env \<Rightarrow> rmp \<Rightarrow> tx_stream \<Rightarrow> handle \<Rightarrow> handle" where
  "stream_drop E R s h =
    (if sm_in_transaction s
     then handle_fire E (bare_packet R REQ_ROLLBACK (sm_id s) (sync_of h)) (bump h)
     else h)"

section \<open>What a stream sends\<close>

definition begin_fields :: "tx_options \<Rightarrow> field list" where
  "begin_fields opts =
    (if tx_isolation opts \<noteq> DefaultIsolation then [FUint KEY_TXN_ISOLATION (isolation_code (tx_isolation opts))] else []) @
    (case tx_timeout opts of Some d \<Rightarrow> [FF64 KEY_TIMEOUT (as_secs_f64 d)] | None \<Rightarrow> []) @
    (if tx_synchronous opts then [FBool KEY_IS_SYNC True] else [])"

lemma begin_packet_eq: "begin_packet R opts i sync = request_packet R REQ_BEGIN sync (Some i) (begin_fields opts)"
  by (cases "tx_timeout opts")
    (simp_all add: begin_packet_def begin_fields_def request_packet_def outcome_fusion)

lemma bare_packet_eq: "Ok (bare_packet R ty i sync) = request_packet R ty sync (Some i) []"
  by (simp add: bare_packet_def request_packet_def)

lemma bare_exchange:
  "act_then fresh_sync (\<lambda>sync. handle_request E sync (bare_packet R ty i sync)) = exchange E R ty (Some i) [] Ok"
  unfolding exchange_reply [symmetric] bare_packet_eq [symmetric] by (rule HOL.ext) simp

lemma begin_exchange:
  "act_then fresh_sync (\<lambda>sync. act_then (act_lift (begin_packet R opts i sync)) (\<lambda>packet. handle_request E sync packet)) =
    exchange E R REQ_BEGIN (Some i) (begin_fields opts) Ok"
  unfolding begin_packet_eq exchange_reply ..

lemma stream_call_exchange: "stream_call E R S V de s name args =
    exchange E R REQ_CALL (Some (sm_id s)) [FStr KEY_FUNCTION_NAME name, FArray KEY_TUPLE (encode_array S V args)] (response_data de)"
  unfolding stream_call_def built_steps exchange_read ..

lemma stream_eval_exchange: "stream_eval E R S V de s expr args =
    exchange E R REQ_EVAL (Some (sm_id s)) [FStr KEY_EXPR expr, FArray KEY_TUPLE (encode_array S V args)] (response_data de)"
  unfolding stream_eval_def built_steps exchange_read ..

section \<open>Sequences of operations on a stream\<close>

text \<open>
  The operations of a stream.  Prepared statements belong to the caller and are shared: an operation names one of them by a number, and
  running it may change the number the server knows it by.
\<close>

datatype stream_op =
    SBegin tx_options
  | SCommit
  | SRollback
  | SCall string array_like
  | SEval string array_like
  | SQuery string array_like
  | SExecute string array_like
  | SQueryPrepared nat array_like
  | SExecutePrepared nat array_like

type_synonym stream_world = "tx_stream \<times> (nat \<Rightarrow> statement) \<times> handle"

definition with_stream :: "(nat \<Rightarrow> statement) \<Rightarrow> unit result \<times> tx_stream \<times> handle \<Rightarrow> unit result \<times> stream_world" where
  "with_stream sts rsh = (case rsh of (r, s, h) \<Rightarrow> (r, s, sts, h))"

definition with_action :: "tx_stream \<Rightarrow> (nat \<Rightarrow> statement) \<Rightarrow> 'a result \<times> handle \<Rightarrow> unit result \<times> stream_world" where
  "with_action s sts rh = (case rh of (r, h) \<Rightarrow> (map_ok (\<lambda>_. ()) r, s, sts, h))"

definition with_statement ::
  "tx_stream \<Rightarrow> (nat \<Rightarrow> statement) \<Rightarrow> nat \<Rightarrow> 'a result \<times> statement \<times> handle \<Rightarrow> unit result \<times> stream_world" where
  "with_statement s sts k rth = (case rth of (r, st, h) \<Rightarrow> (map_ok (\<lambda>_. ()) r, s, sts(k := st), h))"

fun stream_do ::
  "env \<Rightarrow> rmp \<Rightarrow> serde \<Rightarrow> rmpv \<Rightarrow> ('r, 't) reader \<Rightarrow> stream_op \<Rightarrow> stream_world \<Rightarrow> unit result \<times> stream_world" where
  "stream_do E R S V D (SBegin opts) (s, sts, h) = with_stream sts (stream_begin E R opts s h)"
| "stream_do E R S V D SCommit (s, sts, h) = with_stream sts (stream_commit E R s h)"
| "stream_do E R S V D SRollback (s, sts, h) = with_stream sts (stream_rollback E R s h)"
| "stream_do E R S V D (SCall name args) (s, sts, h) = with_action s sts (stream_call E R S V (rd_value D) s name args h)"
| "stream_do E R S V D (SEval expr args) (s, sts, h) = with_action s sts (stream_eval E R S V (rd_value D) s expr args h)"
| "stream_do E R S V D (SQuery sql ps) (s, sts, h) = with_action s sts (stream_query E R S V (rd_maps D) (rd_rows D) s sql ps h)"
| "stream_do E R S V D (SExecute sql ps) (s, sts, h) = with_action s sts (stream_execute E R S V (rd_map D) s sql ps h)"
| "stream_do E R S V D (SQueryPrepared k ps) (s, sts, h) =
    with_statement s sts k (query_prepared E R S V (rd_maps D) (rd_rows D) s ps (sts k) h)"
| "stream_do E R S V D (SExecutePrepared k ps) (s, sts, h) =
    with_statement s sts k (execute_prepared E R S V (rd_map D) s ps (sts k) h)"

fun stream_run ::
  "env \<Rightarrow> rmp \<Rightarrow> serde \<Rightarrow> rmpv \<Rightarrow> ('r, 't) reader \<Rightarrow> stream_op list \<Rightarrow> stream_world \<Rightarrow> unit result list \<times> stream_world" where
  "stream_run E R S V D [] w = ([], w)"
| "stream_run E R S V D (op # ops) w = (case stream_do E R S V D op w of
     (r, w) \<Rightarrow> apfst (Cons r) (stream_run E R S V D ops w))"

text \<open>
  The specification: a transaction is open when the last acknowledged request that begins or ends one began one.
\<close>

fun tx_open :: "bool \<Rightarrow> (stream_op \<times> unit result) list \<Rightarrow> bool" where
  "tx_open b [] = b"
| "tx_open b ((SBegin _, Ok _) # rest) = tx_open True rest"
| "tx_open b ((SCommit, Ok _) # rest) = tx_open False rest"
| "tx_open b ((SRollback, Ok _) # rest) = tx_open False rest"
| "tx_open b (_ # rest) = tx_open b rest"

text \<open>A request that the server runs in the order of the stream with this number.\<close>

definition on_stream :: "rmp \<Rightarrow> u64 \<Rightarrow> command \<Rightarrow> bool" where
  "on_stream R i c \<longleftrightarrow> (\<exists>ty sync kvs n. c = CRequest sync (packet_of R ty sync (Some i) kvs) n None)"

text \<open>A request that prepares a text, in the order of no stream.\<close>

definition off_stream_prepare :: "rmp \<Rightarrow> string \<Rightarrow> command \<Rightarrow> bool" where
  "off_stream_prepare R sql c \<longleftrightarrow>
    (\<exists>sync n. c = CRequest sync (packet_of R REQ_PREPARE sync None [(KEY_SQL_TEXT, write_str R sql)]) n None)"

fun op_statement :: "stream_op \<Rightarrow> nat option" where
  "op_statement (SQueryPrepared k _) = Some k"
| "op_statement (SExecutePrepared k _) = Some k"
| "op_statement _ = None"

text \<open>What an operation may send: requests on the stream, and the text of a prepared statement it runs.\<close>

definition sends_ok :: "rmp \<Rightarrow> u64 \<Rightarrow> (nat \<Rightarrow> statement) \<Rightarrow> stream_op set \<Rightarrow> command \<Rightarrow> bool" where
  "sends_ok R i sts ops c \<longleftrightarrow> on_stream R i c \<or>
    (\<exists>op \<in> ops. \<exists>k. op_statement op = Some k \<and> off_stream_prepare R (st_sql (sts k)) c)"

lemma request_on_stream: "on_stream R i (request_command R ty (Some i) kvs h)"
  unfolding on_stream_def request_command_def by blast

lemma exchange_on_stream:
  assumes "length fs < 2 ^ 32" "exchange E R ty (Some i) fs dec h = (r, h')"
  shows "\<exists>cs. hd_sent h' = hd_sent h @ cs \<and> (\<forall>c \<in> set cs. sends_ok R i sts ops c)"
  using assms(2) request_on_stream [of R i ty _ h] unfolding exchange_spec [OF assms(1)]
  by (auto simp: Let_def sends_ok_def split: outcome.splits)

lemma begin_fields_length: "length (begin_fields opts) < 2 ^ 32"
  by (simp add: begin_fields_def split: option.split)

lemma statement_run_sends:
  assumes "statement_run E R S V (Some i) ps (sts k) h = (r, st', h')" "op \<in> ops" "op_statement op = Some k"
  shows "st_sql st' = st_sql (sts k)"
    and "\<exists>cs. hd_sent h' = hd_sent h @ cs \<and> (\<forall>c \<in> set cs. sends_ok R i sts ops c)"
proof -
  have e: "sends_ok R i sts ops (execute_command R j (Some i) bound g)" for j bound g
    by (simp add: sends_ok_def execute_command_def request_on_stream)
  have p: "sends_ok R i sts ops (prepare_command R (st_sql (sts k)) g)" for g
    using assms(2,3) by (auto simp: sends_ok_def off_stream_prepare_def prepare_command_def request_command_def)
  have retry: "st_sql st1 = st_sql (sts k) \<and> (\<exists>cs. hd_sent h1 = hd_sent g @ cs \<and> (\<forall>c \<in> set cs. sends_ok R i sts ops c))"
    if "statement_retry E R (Some i) bound (sts k) g = (r1, st1, h1)" for bound g r1 st1 h1
    using that e p
    by (auto simp: statement_retry_def send_prepare_spec statement_send_spec statement_id_def split: outcome.splits prod.splits option.splits if_splits)
  have "st_sql st' = st_sql (sts k) \<and> (\<exists>cs. hd_sent h' = hd_sent h @ cs \<and> (\<forall>c \<in> set cs. sends_ok R i sts ops c))"
  proof (cases "encode_array S V ps")
    case (Ok bound)
    let ?c = "execute_command R (st_id (sts k)) (Some i) bound h"
    show ?thesis
    proof (cases "\<exists>err. reply_of E ?c h = Err (Server err) \<and> se_code err = WRONG_QUERY_ID")
      case True
      then have "statement_retry E R (Some i) bound (sts k) (after_request E ?c h) = (r, st', h')"
        using assms(1) Ok by (auto simp: statement_run_def statement_send_spec)
      from retry [OF this] show ?thesis using e [of "st_id (sts k)" bound h] by auto
    next
      case False
      then have "st' = sts k" "h' = after_request E ?c h"
        using assms(1) Ok by (cases "reply_of E ?c h"; auto simp: statement_run_def statement_send_spec split: error.splits)+
      then show ?thesis using e [of "st_id (sts k)" bound h] by auto
    qed
  qed (use assms(1) in \<open>auto simp: statement_run_def\<close>)
  then show "st_sql st' = st_sql (sts k)" "\<exists>cs. hd_sent h' = hd_sent h @ cs \<and> (\<forall>c \<in> set cs. sends_ok R i sts ops c)" by auto
qed

lemmas stream_ops = stream_begin_def stream_commit_def stream_rollback_def with_stream_def with_action_def with_statement_def
  stream_call_exchange stream_eval_exchange stream_query_def stream_execute_def run_text_exchange exchange_then begin_exchange bare_exchange
  query_prepared_def execute_prepared_def statement_query_def statement_execute_def

lemma stream_do_sends:
  assumes "stream_do E R S V D op (s, sts, h) = (r, s', sts', h')" "op \<in> ops"
  shows "(\<forall>k. st_sql (sts' k) = st_sql (sts k)) \<and> (\<exists>cs. hd_sent h' = hd_sent h @ cs \<and> (\<forall>c \<in> set cs. sends_ok R (sm_id s) sts ops c))"
proof (cases op)
  case (SBegin opts)
  then show ?thesis
    using assms exchange_on_stream [OF begin_fields_length, of E R REQ_BEGIN "sm_id s" opts Ok h _ _ sts ops]
    by (fastforce simp: stream_ops split: if_splits outcome.splits prod.splits)
next
  case SCommit
  then show ?thesis
    using assms exchange_on_stream [of "[]" E R REQ_COMMIT "sm_id s" Ok h _ _ sts ops]
    by (fastforce simp: stream_ops split: outcome.splits prod.splits)
next
  case SRollback
  then show ?thesis
    using assms exchange_on_stream [of "[]" E R REQ_ROLLBACK "sm_id s" Ok h _ _ sts ops]
    by (fastforce simp: stream_ops split: outcome.splits prod.splits)
next
  case (SQueryPrepared k ps)
  obtain r1 st' where "statement_run E R S V (Some (sm_id s)) ps (sts k) h = (r1, st', h')" "sts' = sts(k := st')"
    using assms(1) SQueryPrepared
    by (cases "statement_run E R S V (Some (sm_id s)) ps (sts k) h") (auto simp: stream_ops split: prod.splits)
  then show ?thesis using statement_run_sends [of E R S V "sm_id s" ps sts k h r1 st' h' op ops] assms(2) SQueryPrepared by auto
next
  case (SExecutePrepared k ps)
  obtain r1 st' where "statement_run E R S V (Some (sm_id s)) ps (sts k) h = (r1, st', h')" "sts' = sts(k := st')"
    using assms(1) SExecutePrepared
    by (cases "statement_run E R S V (Some (sm_id s)) ps (sts k) h") (auto simp: stream_ops split: prod.splits)
  then show ?thesis using statement_run_sends [of E R S V "sm_id s" ps sts k h r1 st' h' op ops] assms(2) SExecutePrepared by auto
qed (use assms in \<open>auto simp: stream_ops split: prod.splits dest!: exchange_on_stream [rotated, where sts = sts and ops = ops]\<close>)

text \<open>How the control requests and the others leave the stream.\<close>

lemma control_state:
  "stream_begin E R opts s h = (r, s', h') \<Longrightarrow> s' = s\<lparr>sm_in_transaction := (if r = Ok () then True else sm_in_transaction s)\<rparr>"
  "stream_commit E R s h = (r, s', h') \<Longrightarrow> s' = s\<lparr>sm_in_transaction := (if r = Ok () then False else sm_in_transaction s)\<rparr>"
  "stream_rollback E R s h = (r, s', h') \<Longrightarrow> s' = s\<lparr>sm_in_transaction := (if r = Ok () then False else sm_in_transaction s)\<rparr>"
  by (simp_all add: stream_begin_def stream_commit_def stream_rollback_def split: if_splits outcome.splits prod.splits) auto

lemma tx_open_one:
  "tx_open b [(SBegin opts, r)] = (if r = Ok () then True else b)"
  "tx_open b [(SCommit, r)] = (if r = Ok () then False else b)"
  "tx_open b [(SRollback, r)] = (if r = Ok () then False else b)"
  by (cases r; simp)+

lemma stream_do_state:
  assumes "stream_do E R S V D op (s, sts, h) = (r, s', sts', h')"
  shows "sm_id s' = sm_id s \<and> sm_in_transaction s' = tx_open (sm_in_transaction s) [(op, r)]"
proof (cases op)
  case (SBegin opts)
  then have "stream_begin E R opts s h = (r, s', h')" using assms by (simp add: with_stream_def split: prod.splits)
  from control_state(1) [OF this] show ?thesis by (simp add: SBegin tx_open_one)
next
  case SCommit
  then have "stream_commit E R s h = (r, s', h')" using assms by (simp add: with_stream_def split: prod.splits)
  from control_state(2) [OF this] show ?thesis by (simp add: SCommit tx_open_one)
next
  case SRollback
  then have "stream_rollback E R s h = (r, s', h')" using assms by (simp add: with_stream_def split: prod.splits)
  from control_state(3) [OF this] show ?thesis by (simp add: SRollback tx_open_one)
qed (use assms in \<open>simp_all add: with_action_def with_statement_def split: prod.splits\<close>)

lemma tx_open_Cons: "tx_open b ((op, r) # rest) = tx_open (tx_open b [(op, r)]) rest"
  by (cases op; cases r) simp_all

lemma sends_ok_sql: "(\<forall>k. st_sql (sts' k) = st_sql (sts k)) \<Longrightarrow> sends_ok R i sts' ops c = sends_ok R i sts ops c"
  by (simp add: sends_ok_def)

lemma stream_run_spec:
  assumes "stream_run E R S V D ops (s, sts, h) = (rs, s', sts', h')" "set ops \<subseteq> all"
  shows "length rs = length ops \<and> sm_id s' = sm_id s \<and>
    sm_in_transaction s' = tx_open (sm_in_transaction s) (zip ops rs) \<and>
    (\<exists>cs. hd_sent h' = hd_sent h @ cs \<and> (\<forall>c \<in> set cs. sends_ok R (sm_id s) sts all c))"
  using assms
proof (induction ops arbitrary: s sts h rs)
  case (Cons op ops)
  obtain r s1 sts1 h1 where d: "stream_do E R S V D op (s, sts, h) = (r, s1, sts1, h1)" by (metis prod_cases4)
  obtain rs1 where r: "stream_run E R S V D ops (s1, sts1, h1) = (rs1, s', sts', h')" "rs = r # rs1"
    using Cons.prems(1) d by (cases "stream_run E R S V D ops (s1, sts1, h1)") auto
  obtain cs where sql: "\<forall>k. st_sql (sts1 k) = st_sql (sts k)"
      and "hd_sent h1 = hd_sent h @ cs" "\<forall>c \<in> set cs. sends_ok R (sm_id s) sts all c"
    using stream_do_sends [OF d, of all] Cons.prems(2) by auto
  then show ?case
    using Cons.IH [OF r(1)] Cons.prems(2) stream_do_state [OF d] r(2)
    by (auto simp: tx_open_Cons [of _ op r "zip ops rs1"] sends_ok_sql [OF sql] simp del: tx_open.simps)
qed simp

text \<open>
  C8: a stream keeps its promises whatever the server and the network do.  After any sequence of its operations, those that run
  prepared statements included, every request that went out carries the number of the stream, with one exception: the text of
  a prepared statement that an operation ran may have been sent to be prepared again, and that request carries no stream number.  The
  stream knows that a transaction is open exactly when the last acknowledged begin, commit or rollback is a begin, and
  dropping it then sends a rollback on the stream, if the channel takes one more command, and nothing otherwise.\<close>
theorem stream_rolls_back_on_drop:
  "case stream_run E R S V D ops (\<lparr>sm_id = i, sm_in_transaction = False\<rparr>, sts, h) of (rs, s, sts', h') \<Rightarrow>
    let rollback = CFire (bare_packet R REQ_ROLLBACK i (sync_of h')) in
    length rs = length ops \<and>
    (\<exists>cs. hd_sent h' = hd_sent h @ cs \<and>
      list_all (\<lambda>c. on_stream R i c \<or>
        list_ex (\<lambda>op. case op_statement op of Some k \<Rightarrow> off_stream_prepare R (st_sql (sts k)) c | None \<Rightarrow> False) ops) cs) \<and>
    hd_sent (stream_drop E R s h') = hd_sent h' @
      (if tx_open False (zip ops rs) \<and> an_sent (E (hd_sent h' @ [rollback])) then [rollback] else [])"
proof -
  obtain rs s sts' h' where r: "stream_run E R S V D ops (\<lparr>sm_id = i, sm_in_transaction = False\<rparr>, sts, h) = (rs, s, sts', h')"
    by (metis prod_cases4)
  have "on_stream R i c \<or>
      list_ex (\<lambda>op. case op_statement op of Some k \<Rightarrow> off_stream_prepare R (st_sql (sts k)) c | None \<Rightarrow> False) ops"
    if "sends_ok R i sts (set ops) c" for c
    using that by (fastforce simp: sends_ok_def list_ex_iff)
  with stream_run_spec [OF r subset_refl] show ?thesis
    by (auto simp: r Let_def list_all_iff stream_drop_def handle_fire_def enqueue_def)
qed

text \<open>
  C39: a transaction whose begin times out is abandoned.  When the caller's timeout passes before the reply to BEGIN
  arrives, the request has been sent and may still be carried out, but the stream does not count itself in a transaction, so
  dropping it sends no rollback.\<close>
theorem timed_out_begin_is_abandoned:
  assumes "handle_supports Transactions h" "tx_synchronous opts \<longrightarrow> handle_supports IsSync h"
    and "hd_request_timeout h = Some limit" "sm_in_transaction s = False"
    and "collect (field_value R) (begin_fields opts) = Ok kvs"
    and "c = request_command R REQ_BEGIN (Some (sm_id s)) kvs h"
    and "delivered E c h" "an_elapsed (E (hd_sent h @ [c]))"
  shows "stream_begin E R opts s h = (Err (Timeout limit), s, after_request E c h) \<and>
    hd_sent (stream_drop E R s (after_request E c h)) = hd_sent h @ [c]"
proof -
  have "reply_of E c h = Err (Timeout limit)"
    using assms(3,7,8) by (simp add: reply_of_def await_reply_def Let_def)
  then show ?thesis
    using assms by (simp add: stream_begin_def begin_exchange exchange_spec [OF begin_fields_length] stream_drop_def Let_def)
qed

definition slow_env :: env where
  "slow_env cs = \<lparr>an_closed = False, an_sent = True, an_elapsed = True, an_received = None\<rparr>"

theorem timed_out_begin_is_abandoned_witness:
  "\<exists>c. stream_begin slow_env ref_rmp tx_options_new \<lparr>sm_id = 1, sm_in_transaction = False\<rparr> (with_request_timeout (Some 5) demo_handle) =
      (Err (Timeout 5), \<lparr>sm_id = 1, sm_in_transaction = False\<rparr>, after_request slow_env c (with_request_timeout (Some 5) demo_handle)) \<and>
    hd_sent (stream_drop slow_env ref_rmp \<lparr>sm_id = 1, sm_in_transaction = False\<rparr>
      (after_request slow_env c (with_request_timeout (Some 5) demo_handle))) = hd_sent (with_request_timeout (Some 5) demo_handle) @ [c]"
proof (rule exI, rule timed_out_begin_is_abandoned)
  show "handle_supports Transactions (with_request_timeout (Some 5) demo_handle)"
    by (simp add: handle_supports_def supports_def with_request_timeout_def demo_handle_def ANNOUNCED_def)
  show "collect (field_value ref_rmp) (begin_fields tx_options_new) = Ok []"
    by (simp add: begin_fields_def tx_options_new_def)
qed (simp_all add: with_request_timeout_def tx_options_new_def delivered_def slow_env_def)

end
