(* ===== verification/Spec2Isabelle.thy ===== *)
theory Spec2Isabelle
  imports Conversions Connection_Live Connection_System Connection_Schema Client_Streams
begin

text \<open>
  \<^bold>\<open>A verified model of the Tarantool client \<open>tarant\<close>.\<close>

  The crate under \<^verbatim>\<open>src/src\<close> is an asynchronous client of the Tarantool database.  A caller holds a client
  (\<^verbatim>\<open>client.rs\<close>, \<^verbatim>\<open>sql.rs\<close>, \<^verbatim>\<open>watcher.rs\<close>); its operations build request packets (\<^verbatim>\<open>codec.rs\<close>, \<^verbatim>\<open>tuple.rs\<close>,
  \<^verbatim>\<open>update.rs\<close>, \<^verbatim>\<open>iproto.rs\<close>) and hand them, with a place for the reply, to one task that owns the socket
  (\<^verbatim>\<open>connection.rs\<close>).  The task writes requests, matches the replies that \<^verbatim>\<open>codec.rs\<close> and \<^verbatim>\<open>msgpack.rs\<close> decode to
  the requests by number, fans events out to watchers, and reconnects with a growing delay.  The types under
  \<^verbatim>\<open>types\<close> are MessagePack extensions with their own payloads, orders and text forms.

  \<^bold>\<open>Layout.\<close>
  \<^item> \<open>Prelude\<close>, \<open>Rust_Std\<close>, \<open>Machine\<close>: results that are a value, an error or a panic; slices, bytes and words; the parts of Rust's
    standard library the sources call; machines that take inputs, reachability, and the contract of an invariant.
  \<^item> \<open>Mp_Format\<close>: the MessagePack grammar, independent of any code.  \<open>Rmp\<close>, \<open>Serde\<close>: the crates \<open>rmp\<close>, \<open>rmpv\<close> and \<open>rmp_serde\<close> as
    parameters, and as locales what is relied on of them (a writer writes one value of the documented family, the matching reader
    reads it back, an accessor gives the value it is for).  \<open>Rmp_Reference\<close>: concrete functions that satisfy these contracts, for the witnesses.
  \<^item> \<open>Errors\<close> (\<^verbatim>\<open>error.rs\<close>), \<open>Iproto\<close> (\<^verbatim>\<open>iproto.rs\<close>), \<open>Msgpack\<close> (\<^verbatim>\<open>msgpack.rs\<close>), \<open>Framing\<close> and \<open>Codec\<close> (\<^verbatim>\<open>codec.rs\<close>): scanning values,
    walking maps, building requests, reading responses, splitting the byte stream.
  \<^item> \<open>Ext\<close>, \<open>Uuid\<close>, \<open>Decimal\<close>, \<open>Datetime\<close>, \<open>Interval\<close> (\<^verbatim>\<open>types\<close>): the extension types; the locale \<open>payload_codec\<close> is the
    contract all four keep.  \<open>Conversions\<close>: integers as decimals, the order of uuids as an instance of \<open>linorder\<close>, and the serde
    visitors that read an extension.
  \<^item> \<open>Auth\<close> (\<^verbatim>\<open>auth.rs\<close>) and \<open>Options\<close> (\<^verbatim>\<open>options.rs\<close>): the scramble and base64, settings and URLs.
  \<^item> \<open>Connection\<close>, \<open>Handshake\<close>, \<open>Watcher\<close> (\<^verbatim>\<open>connection.rs\<close>, \<^verbatim>\<open>watcher.rs\<close>): the task, its handshake, watchers.
    \<open>Connection_Invariants\<close> proves the invariants of the task for every sequence of inputs, \<open>Connection_Props\<close> and
    \<open>Connection_Live\<close> draw the properties from them; \<open>Connection_Effects\<close> says where each effect comes from, \<open>Connection_Schema\<close> is about
    the schema version, from the first handshake of a connection on.
  \<^item> \<open>Connection_System\<close>: callers that share the counters, the channel, the task and the server together, as one machine whose events
    interleave freely.  The locale \<open>echoing_server\<close> is all that is relied on of the server.
  \<^item> \<open>Tuple\<close> (\<^verbatim>\<open>tuple.rs\<close>), \<open>Update_Ops\<close> (\<^verbatim>\<open>update.rs\<close>), \<open>Handle\<close> (\<^verbatim>\<open>connection.rs\<close>), \<open>Sql\<close> (\<^verbatim>\<open>sql.rs\<close>), \<open>Client\<close> and
    \<open>Client_Streams\<close> (\<^verbatim>\<open>client.rs\<close>): the callers' side.  \<open>Client_Requests\<close> proves what each operation sends and what it returns:
    \<open>op_type\<close>, \<open>op_fields\<close> and \<open>op_read\<close> are the specification, written without the functions of the code.
  \<^item> This theory: a request from the caller to the wire and back.

  \<^bold>\<open>State.\<close>  The task is the record \<open>task\<close> (pending requests, subscriptions, deferred commands, flags) and a \<open>phase\<close> that says where it waits;
  \<open>task_step\<close> is one turn of its loop, and an input says what the \<open>select!\<close> it waits in returned and what the writes gave.
  Channel ends are numbers, and what is sent on them is recorded in order in \<open>t_log\<close>; \<open>t_taken\<close> records the commands received.  A
  handle is the record \<open>handle\<close>; the environment \<open>E\<close> chooses, from everything sent so far, how each command is answered, and
  nothing is assumed of it.  Words have the widths of the source, and where Rust checks arithmetic an overflow is the
  outcome \<open>Panic\<close>.

  \<^bold>\<open>What is shown.\<close>
  \<^item> Scanning: \<open>value_len\<close> measures exactly the values of the grammar; cursors and parsed slices are whole values.
  \<^item> Packets: the builder writes exactly its fields, and they read back; replies, errors and events parse to what the server sent; the
    decoder never panics, bounds what it buffers, and delivers every packet once however the stream is cut.
  \<^item> The task: every request it receives is pending, deferred or answered exactly once; a reply reaches the request with its
    number only; chunks come before the reply; the task panics exactly when the clock plus a delay passes the largest instant; buffers
    and delays are bounded; draining ends; lost links, shutdown and re-subscription behave as intended; requests made while the link is
    down are sent in order once it is up; requests in flight together are all served; the schema version is the highest of the
    responses the task took, those of handshakes left out.
  \<^item> The whole: whatever the interleaving, a caller only gets what the server sends for that caller's own packet, and no request is
    lost between the callers and the task.  Syncs are 64 bits wide and wrap around, so this is stated for fewer than
    \<open>2 ^ 64 - 1\<close> draws.
  \<^item> Handshake and authentication: what is sent, for which users, and which features a session has; the scramble passes the
    server's check.
  \<^item> Callers: each operation is exactly one request with the documented fields, or nothing, and its caller gets the value the reply
    means; prepared statements are prepared again when the session is new; the requests of a stream carry its number, except for such
    a second preparation; a dropped stream rolls back exactly an acknowledged open transaction.
  \<^item> Types: wire and text round trips, numeric order of decimals, exact integer conversions, the Gregorian calendar, saturating intervals.

  \<^bold>\<open>Bounds and fuel.\<close>  \<open>drain\<close> (the loop of \<open>Framed\<close>) gets one more round than there are bytes, enough because every packet takes at least
  one; \<open>ref_read_values\<close> likewise.  \<open>value_len_loop\<close>, \<open>walk\<close> and the text functions are total by measures.  All other
  loops are recursions on data.

  \<^bold>\<open>Not modelled.\<close>  The scheduling of tokio (any order of inputs is allowed instead), the bytes inside the socket calls, tracing, \<open>Debug\<close>
  output except that of the options and datetimes, \<open>Hash\<close>, the phantom types and trait bounds, serde's dispatch to visitors (which
  method a format calls, with what, is an argument), the internals of the \<open>time\<close>, \<open>chrono\<close>, \<open>jiff\<close>, \<open>rust_decimal\<close> and
  \<open>uuid\<close> crates, and the SHA-1 digest, which is a parameter.
\<close>

section \<open>A request from end to end\<close>

text \<open>What the environment of a handle answers when the task settles the reply with \<open>v\<close> in time.\<close>

definition answered :: "response result \<Rightarrow> answer" where
  "answered v = \<lparr>an_closed = False, an_sent = True, an_elapsed = False, an_received = Some v\<rparr>"

lemma delete_update_new: "map_of xs k = None \<Longrightarrow> AList.delete k (AList.update k v xs) = xs"
  by (induction xs) (auto simp: AList.delete_eq split: if_splits)

lemma task_serves:
  assumes "\<not> t_shutting_down t" "map_of (t_pending t) s = None" "t_deferred t = []" "length packet < 2 ^ 32"
    and "rs_kind v \<in> {KOk, KError}" "rs_sync v = s"
  shows "\<exists>t'. run_inputs (task_step R dbg)
      [ICommand (Some (CRequest s packet n pushes)) None, IDrain None, IPacket (Some (Ok v)) alive None] (Selecting, t) =
        Some (Draining, t') \<and>
    t_log t' = t_log t @ [ESent packet, ESettle n (Ok v)] \<and> t_pending t' = t_pending t"
proof -
  let ?c = "CRequest s packet n pushes"
  define t1 where "t1 = record_effect (ESent packet) (insert_pending s \<lparr>p_reply = n, p_pushes = pushes\<rparr> (take_command (Some ?c) t))"
  have 1: "task_step R dbg (ICommand (Some ?c) None) (Selecting, t) = Some (Draining, t1)"
    using assms(1,4) by (simp add: select_command_def handle_command_def send_def encode_def after_select_def take_command_def t1_def)
  have t1: "t_deferred t1 = []" "\<not> t_shutting_down t1" "t_log t1 = t_log t @ [ESent packet]"
      "t_pending t1 = AList.update s \<lparr>p_reply = n, p_pushes = pushes\<rparr> (t_pending t)"
    using assms(1-3) by (simp_all add: t1_def take_command_def insert_pending_def record_effect_def)
  then have 2: "task_step R dbg (IDrain None) (Draining, t1) = Some (Selecting, t1)" by (simp add: drain_step_def)
  define t2 where "t2 = handle_reply v (note_schema v t1)"
  have r: "handle_response R alive None v t1 = Ok t2"
    using assms(5) by (auto simp: handle_response_alt t2_def)
  have t2: "\<not> t_shutting_down t2" "t_log t2 = t_log t @ [ESent packet, ESettle n (Ok v)]" "t_pending t2 = t_pending t"
    using t1 assms(2,6) by (simp_all add: t2_def handle_reply_def settle_def record_effect_def update_conv' delete_update_new)
  have 3: "task_step R dbg (IPacket (Some (Ok v)) alive None) (Selecting, t1) = Some (Draining, t2)"
    using t2(1) by (simp add: select_packet_def r after_select_def)
  show ?thesis using t2 by (simp add: 1 2 3 del: task_step.simps)
qed

text \<open>
  C1: a request from end to end.  The operation hands the task one request; the task writes it and remembers its
  reply; the server's bytes, however the network cuts them, decode to one response, which the task hands to that reply
  and to no other; the caller gets the server's error, or the value the response means for the operation (\<open>op_read\<close> spells it out for
  each: the data, the first row, the page with its position, the result set, the statement).\<close>
theorem request_end_to_end:
  assumes "op_refused S V op h = Ok ()" "collect (field_value R) (op_fields R S V op) = Ok kvs"
    and "packet = packet_of R (op_type op) (sync_of h) None kvs" "length packet < 2 ^ 32"
    and "c = CRequest (sync_of h) packet (length (hd_sent h)) (if op_pushes op then Some (length (hd_sent h)) else None)"
    and "\<not> t_shutting_down t" "map_of (t_pending t) (sync_of h) = None" "t_deferred t = []"
    and "length p \<le> MAX_PACKET_LEN" "response_parse R V p = Ok r" "rs_sync r = sync_of h" "rs_kind r \<in> {KOk, KError}"
    and "concat chunks = frame p" "chunks \<noteq> []"
  shows "feed (decode R V) [] chunks = ([Ok r], []) \<and>
    (\<exists>t'. run_inputs (task_step R dbg) [ICommand (Some c) None, IDrain None, IPacket (Some (Ok r)) alive None] (Selecting, t) =
        Some (Draining, t') \<and>
      t_log t' = t_log t @ [ESent packet, ESettle (length (hd_sent h)) (Ok r)] \<and> t_pending t' = t_pending t) \<and>
    (E (hd_sent h @ [c]) = answered (Ok r) \<longrightarrow>
      client_do E R S V D op h =
        (if rs_kind r = KError then Err (Server (into_error r)) else op_read V D op r, (bump h)\<lparr>hd_sent := hd_sent h @ [c]\<rparr>))"
proof (intro conjI impI)
  show "feed (decode R V) [] chunks = ([Ok r], [])"
    using wire.feed_chunks [of "[p]" R V "\<lambda>_. r" "[]" chunks] assms(9,10,13,14) by simp
  show "\<exists>t'. run_inputs (task_step R dbg) [ICommand (Some c) None, IDrain None, IPacket (Some (Ok r)) alive None] (Selecting, t) =
        Some (Draining, t') \<and>
      t_log t' = t_log t @ [ESent packet, ESettle (length (hd_sent h)) (Ok r)] \<and> t_pending t' = t_pending t"
    unfolding assms(5) by (rule task_serves) (use assms in simp_all)
  assume a: "E (hd_sent h @ [c]) = answered (Ok r)"
  have c: "op_command R op kvs h = c" by (simp add: op_command_def assms(3,5))
  have d: "delivered E c h" using a by (simp add: delivered_def answered_def Let_def)
  then have "reply_of E c h = (if rs_kind r = KError then Err (Server (into_error r)) else Ok r)"
    using a by (cases "hd_request_timeout h") (simp_all add: reply_of_def await_reply_def answered_def Let_def)
  then show "client_do E R S V D op h =
      (if rs_kind r = KError then Err (Server (into_error r)) else op_read V D op r, (bump h)\<lparr>hd_sent := hd_sent h @ [c]\<rparr>)"
    using d by (simp add: client_do_spec assms(1,2) c Let_def after_request_def)
qed

text \<open>A get of one row, answered in three pieces.\<close>

definition demo_reader :: "(bytes, bytes) reader" where
  "demo_reader = \<lparr>rd_value = Ok, rd_rows = (\<lambda>bs. Ok [bs]), rd_map = (\<lambda>_. Ok []), rd_maps = (\<lambda>_. Ok [])\<rparr>"

definition demo_get :: client_op where
  "demo_get = DoGet ''users'' (KScalar (Ok [1]))"

definition demo_reply :: response where
  "demo_reply = (empty_response KOk 1 (Some 5) [0x81, 0x30, 0x91, 0x91, 0x07])\<lparr>rs_data := Some (2, 5)\<rparr>"

theorem request_end_to_end_witness:
  "\<exists>packet c. feed (decode ref_rmp ref_rmpv) []
      [[0xce, 0x00], [0x00, 0x00, 0x0c, 0x83, 0x00, 0x00], [0x01, 0x01, 0x05, 0x05, 0x81, 0x30, 0x91, 0x91, 0x07]] = ([Ok demo_reply], []) \<and>
    (\<exists>t'. run_inputs (task_step ref_rmp (\<lambda>_. [])) [ICommand (Some c) None, IDrain None, IPacket (Some (Ok demo_reply)) (\<lambda>_. True) None]
        (Selecting, task_new demo_options) = Some (Draining, t') \<and>
      t_log t' = [ESent packet, ESettle 0 (Ok demo_reply)]) \<and>
    fst (client_do (\<lambda>_. answered (Ok demo_reply)) ref_rmp ref_serde ref_rmpv demo_reader demo_get demo_handle) =
      Ok (GotRow (Some [0x91, 0x91, 0x07]))"
proof -
  let ?chunks = "[[0xce, 0x00], [0x00, 0x00, 0x0c, 0x83, 0x00, 0x00], [0x01, 0x01, 0x05, 0x05, 0x81, 0x30, 0x91, 0x91, 0x07 :: u8]]"
  let ?p = "[0x83, 0x00, 0x00, 0x01, 0x01, 0x05, 0x05, 0x81, 0x30, 0x91, 0x91, 0x07 :: u8]"
  have p: "response_parse ref_rmp ref_rmpv ?p = Ok demo_reply" by code_simp
  have "case collect (field_value ref_rmp) (op_fields ref_rmp ref_serde ref_rmpv demo_get) of
      Ok kvs \<Rightarrow> length (packet_of ref_rmp (op_type demo_get) (sync_of demo_handle) None kvs) < 2 ^ 32 | _ \<Rightarrow> False" by code_simp
  then obtain kvs where k: "collect (field_value ref_rmp) (op_fields ref_rmp ref_serde ref_rmpv demo_get) = Ok kvs"
      "length (packet_of ref_rmp (op_type demo_get) (sync_of demo_handle) None kvs) < 2 ^ 32"
    by (auto split: outcome.splits)
  have o: "op_refused ref_serde ref_rmpv demo_get demo_handle = Ok ()" by code_simp
  have f: "concat ?chunks = frame ?p" by code_simp
  have s: "sync_of demo_handle = 1" "hd_sent demo_handle = []" by (simp_all add: demo_handle_def counters_new_def)
  have g: "op_read ref_rmpv demo_reader demo_get demo_reply = Ok (GotRow (Some [0x91, 0x91, 0x07]))" by code_simp
  note e = request_end_to_end [OF o k(1) refl k(2) refl _ _ _ _ p _ _ f, where t = "task_new demo_options" and dbg = "\<lambda>_. []" and
    E = "\<lambda>_. answered (Ok demo_reply)" and alive = "\<lambda>_. True" and D = demo_reader]
  show ?thesis
    using e g by (auto simp: s task_new_def MAX_PACKET_LEN_def demo_reply_def empty_response_def simp del: task_step.simps run_inputs.simps)
qed

end
